(* ===== verification/Prelude.thy ===== *)
theory Prelude
  imports Main "HOL-Library.Word" "HOL-Library.Monad_Syntax"
begin

text \<open>
  What every component of the development shares: the names of the machine types, the
  conversions of C between them, checked signed arithmetic, the counted loop, and the
  lemmas about them that carry the component proofs.

  \<^item> \<open>u8\<close>, \<open>u16\<close>, \<open>u32\<close>, \<open>u64\<close> are the unsigned integers of the
    source at their width (\<open>size_t\<close>, \<open>uintptr_t\<close> and pointers are \<open>u64\<close>).
  \<^item> A signed \<open>int\<close> (\<open>int32_t\<close>) is an \<open>int\<close> of HOL together with the
    range check \<open>in_int32\<close>: an operation that leaves the range is undefined in C and
    is \<open>None\<close> here.
  \<^item> \<open>None\<close> of an operation of type \<open>'s option\<close> is undefined behaviour: an
    access outside the object it is meant for, a signed overflow, a division by zero.
\<close>

unbundle bit_operations_syntax

section \<open>Machine types\<close>

type_synonym u8 = "8 word"
type_synonym u16 = "16 word"
type_synonym u32 = "32 word"
type_synonym u64 = "64 word"

text \<open>The null pointer.\<close>

abbreviation NULL :: u64 where
  "NULL \<equiv> 0"

named_theorems step_simps \<open>the definitions that one step of an operation unfolds\<close>
named_theorems word_facts \<open>facts that move word expressions to natural numbers\<close>

section \<open>Signed integers\<close>

definition in_int32 :: "int \<Rightarrow> bool" where
  "in_int32 x \<longleftrightarrow> - (2 ^ 31) \<le> x \<and> x < 2 ^ 31"

text \<open>
  The result of a signed operation: \<open>None\<close> when it overflows.
\<close>

definition chk32 :: "int \<Rightarrow> int option" where
  "chk32 x = (if in_int32 x then Some x else None)"

text \<open>
  The conversion of an unsigned value to \<open>int\<close> keeps the low 32 bits and reads them as
  two's complement (the behaviour of every compiler the kernel builds with).
\<close>

definition to_int32 :: "u64 \<Rightarrow> int" where
  "to_int32 w = signed_take_bit 31 (uint w)"

lemma chk32_Some [simp]: "in_int32 x \<Longrightarrow> chk32 x = Some x"
  by (simp add: chk32_def)

lemma chk32_SomeD: "chk32 x = Some y \<Longrightarrow> y = x \<and> in_int32 x"
  by (simp add: chk32_def split: if_splits)

lemma to_int32_small: "unat w < 2 ^ 31 \<Longrightarrow> to_int32 w = int (unat w)"
proof -
  assume a: "unat w < 2 ^ 31"
  then have "int (unat w) < int (2 ^ 31)"
    by (simp only: of_nat_less_iff)
  then have "uint w < 2 ^ 31"
    by simp
  then have "signed_take_bit 31 (uint w) = uint w"
    by (intro signed_take_bit_int_eq_self order_trans [OF _ uint_ge_0]) simp_all
  then show ?thesis by (simp add: to_int32_def)
qed

text \<open>Only the low 32 bits of a 64-bit index reach an \<open>int\<close> parameter.\<close>

lemma to_int32_cong:
  assumes "unat v mod 2 ^ 32 = unat w mod 2 ^ 32"
  shows "to_int32 v = to_int32 w"
proof -
  have "uint x mod 2 ^ 32 = int (unat x mod 2 ^ 32)" for x :: u64
    by (simp add: zmod_int)
  with assms have "take_bit (Suc 31) (uint v) = take_bit (Suc 31) (uint w)"
    by (simp add: take_bit_eq_mod)
  then show ?thesis
    unfolding to_int32_def by (metis signed_take_bit_eq_iff_take_bit_eq)
qed

section \<open>Words and natural numbers\<close>

lemma unat_of_nat_u64 [word_facts]: "n < 2 ^ 64 \<Longrightarrow> unat (of_nat n :: u64) = n"
  by (simp add: unat_of_nat take_bit_nat_eq_self)

lemma unat_of_nat_u32 [word_facts]: "n < 2 ^ 32 \<Longrightarrow> unat (of_nat n :: u32) = n"
  by (simp add: unat_of_nat take_bit_nat_eq_self)

lemma unat_add_u64 [word_facts]:
  "unat x + unat y < 2 ^ 64 \<Longrightarrow> unat (x + y :: u64) = unat x + unat y"
  by (simp add: unat_word_ariths)

lemma unat_mult_u64 [word_facts]:
  "unat x * unat y < 2 ^ 64 \<Longrightarrow> unat (x * y :: u64) = unat x * unat y"
  by (simp add: unat_word_ariths)

lemma unat_sub_u64 [word_facts]: "y \<le> x \<Longrightarrow> unat (x - y :: u64) = unat x - unat y"
  by (simp add: unat_sub)

lemma unat_lt_u64: "unat (x :: u64) < 2 ^ 64"
proof -
  have "unat x < 2 ^ LENGTH(64)"
    by (rule unsigned_less)
  then show ?thesis by simp
qed

lemma to_int32_of_nat:
  assumes "n < 2 ^ 31"
  shows "to_int32 (of_nat n) = int n"
proof -
  have "unat (of_nat n :: u64) = n"
    by (rule unat_of_nat_u64) (use assms in simp)
  with assms show ?thesis
    using to_int32_small [of "of_nat n"] by simp
qed

section \<open>The counted loop\<close>

text \<open>
  \<open>for_range f i n s\<close> runs the body \<open>f\<close> for the \<open>n\<close> values
  \<open>i, i + 1, \<dots>\<close> of the loop variable, threading the state; it stops at the first
  undefined step.
\<close>

primrec for_range :: "(nat \<Rightarrow> 's \<Rightarrow> 's option) \<Rightarrow> nat \<Rightarrow> nat \<Rightarrow> 's \<Rightarrow> 's option" where
  "for_range f i 0 s = Some s"
| "for_range f i (Suc n) s = Option.bind (f i s) (for_range f (Suc i) n)"

text \<open>
  The loop rule: an invariant indexed by the loop variable, kept by a body that is defined
  wherever the invariant holds, holds at the end, and the loop is defined.
\<close>

lemma for_range_invar:
  assumes "P i s"
    and "\<And>j s. \<lbrakk>i \<le> j; j < i + n; P j s\<rbrakk> \<Longrightarrow> \<exists>s'. f j s = Some s' \<and> P (Suc j) s'"
  shows "\<exists>s'. for_range f i n s = Some s' \<and> P (i + n) s'"
  using assms
proof (induction n arbitrary: i s)
  case 0
  then show ?case by simp
next
  case (Suc n)
  obtain s1 where s1: "f i s = Some s1" "P (Suc i) s1"
    using Suc.prems(2) [of i s] Suc.prems(1) by auto
  have "\<exists>s'. for_range f (Suc i) n s1 = Some s' \<and> P (Suc i + n) s'"
    by (rule Suc.IH) (use s1 Suc.prems(2) in auto)
  with s1 show ?case by simp
qed

text \<open>The same rule read backwards: what holds of a run that is known to be defined.\<close>

lemma for_range_partial:
  assumes "for_range f i n s = Some s'" and "P i s"
    and "\<And>j s t. \<lbrakk>i \<le> j; j < i + n; P j s; f j s = Some t\<rbrakk> \<Longrightarrow> P (Suc j) t"
  shows "P (i + n) s'"
  using assms
proof (induction n arbitrary: i s)
  case 0
  then show ?case by simp
next
  case (Suc n)
  from Suc.prems(1) obtain s1 where s1: "f i s = Some s1" "for_range f (Suc i) n s1 = Some s'"
    by (auto split: Option.bind_splits)
  have "P (Suc i) s1"
    using Suc.prems(3) [of i s s1] Suc.prems(2) s1 by simp
  then have "P (Suc i + n) s'"
    using Suc.IH [OF s1(2)] Suc.prems(3) by simp
  then show ?case by simp
qed

lemma for_range_cong:
  assumes "\<And>j s. \<lbrakk>i \<le> j; j < i + n\<rbrakk> \<Longrightarrow> f j s = g j s"
  shows "for_range f i n s = for_range g i n s"
  using assms
proof (induction n arbitrary: i s)
  case 0
  then show ?case by simp
next
  case (Suc n)
  have "f i s = g i s"
    using Suc.prems by simp
  moreover have "for_range f (Suc i) n t = for_range g (Suc i) n t" for t
    by (rule Suc.IH) (use Suc.prems in simp)
  ultimately show ?case by (cases "g i s") simp_all
qed

text \<open>A loop over \<open>0, 1, \<dots>\<close> whose body uses \<open>k + i\<close> is a loop from \<open>k\<close>.\<close>

lemma for_range_shift: "for_range (\<lambda>j. f (k + j)) i n s = for_range f (k + i) n s"
proof (induction n arbitrary: i s)
  case (Suc n)
  then show ?case by (cases "f (k + i) s") simp_all
qed simp

section \<open>The first index that passes a test\<close>

text \<open>
  \<open>scan check i n\<close> is the loop \<open>for (j = i; j < i + n; j++) if (!check(j)) return j;\<close>:
  \<open>Some None\<close> when the loop runs to its end, \<open>None\<close> when a check is undefined.
\<close>

primrec scan :: "(nat \<Rightarrow> u8 option) \<Rightarrow> nat \<Rightarrow> nat \<Rightarrow> nat option option" where
  "scan check i 0 = Some None"
| "scan check i (Suc n) =
     (case check i of None \<Rightarrow> None
      | Some v \<Rightarrow> if v = 0 then Some (Some i) else scan check (Suc i) n)"

lemma scan_found:
  assumes "\<And>j. \<lbrakk>i \<le> j; j < k\<rbrakk> \<Longrightarrow> \<exists>v. check j = Some v \<and> v \<noteq> 0"
    and "check k = Some 0" and "i \<le> k" and "k < i + n"
  shows "scan check i n = Some (Some k)"
  using assms
proof (induction n arbitrary: i)
  case 0
  then show ?case by simp
next
  case (Suc n)
  show ?case
  proof (cases "i = k")
    case True
    with Suc.prems(2) show ?thesis by simp
  next
    case False
    with Suc.prems(1) [of i] Suc.prems(3) obtain v where "check i = Some v" "v \<noteq> 0"
      by auto
    with False Suc show ?thesis by simp
  qed
qed

lemma scan_not_found:
  assumes "\<And>j. \<lbrakk>i \<le> j; j < i + n\<rbrakk> \<Longrightarrow> \<exists>v. check j = Some v \<and> v \<noteq> 0"
  shows "scan check i n = Some None"
  using assms
proof (induction n arbitrary: i)
  case 0
  then show ?case by simp
next
  case (Suc n)
  from Suc.prems [of i] obtain v where "check i = Some v" "v \<noteq> 0"
    by auto
  with Suc show ?case by simp
qed

lemma scan_cong:
  assumes "\<And>j. j < i + n \<Longrightarrow> f j = g j"
  shows "scan f i n = scan g i n"
  using assms
proof (induction n arbitrary: i)
  case (Suc n)
  have "f i = g i"
    using Suc.prems by simp
  moreover have "scan f (Suc i) n = scan g (Suc i) n"
    by (rule Suc.IH) (use Suc.prems in simp)
  ultimately show ?case by (simp split: option.split)
qed simp

end
