(* ===== verification/Store64.thy ===== *)
theory Store64
  imports Prelude
begin

text \<open>
  Words in byte-addressed memory, in the processor's little-endian order: what the
  assignment \<open>p[i] = v\<close> and the expression \<open>p[i]\<close> do for a pointer to \<open>uint64_t\<close>, and the
  same for a pointer to \<open>uint32_t\<close>.
\<close>

definition load64 :: "(u64 \<Rightarrow> u8) \<Rightarrow> u64 \<Rightarrow> u64" where
  "load64 mem a = foldr (\<lambda>i w. push_bit (8 * i) (ucast (mem (a + of_nat i))) OR w) [0..<8] 0"

definition load32 :: "(u64 \<Rightarrow> u8) \<Rightarrow> u64 \<Rightarrow> u32" where
  "load32 mem a = foldr (\<lambda>i w. push_bit (8 * i) (ucast (mem (a + of_nat i))) OR w) [0..<4] 0"

definition store64 :: "(u64 \<Rightarrow> u8) \<Rightarrow> u64 \<Rightarrow> u64 \<Rightarrow> (u64 \<Rightarrow> u8)" where
  "store64 mem a v = (\<lambda>x. if x - a < 8 then ucast (drop_bit (8 * unat (x - a)) v) else mem x)"

definition store32 :: "(u64 \<Rightarrow> u8) \<Rightarrow> u64 \<Rightarrow> u32 \<Rightarrow> (u64 \<Rightarrow> u8)" where
  "store32 mem a v = (\<lambda>x. if x - a < 4 then ucast (drop_bit (8 * unat (x - a)) v) else mem x)"

lemma upt_8: "[0..<8] = [0, 1, 2, 3, 4, 5, 6, 7 :: nat]"
  by (simp add: upt_rec)

lemma less_8_cases: "(i :: nat) < 8 \<longleftrightarrow> i \<in> set [0, 1, 2, 3, 4, 5, 6, 7]"
  unfolding upt_8 [symmetric] by simp

lemma load64_cong: "(\<And>i. i < 8 \<Longrightarrow> m (a + of_nat i) = m' (b + of_nat i)) \<Longrightarrow> load64 m a = load64 m' b"
  unfolding load64_def by (rule foldr_cong) simp_all

lemma load64_bytes:
  assumes "\<And>i. i < 8 \<Longrightarrow> m (a + of_nat i) = ucast (drop_bit (8 * i) v)"
  shows "load64 m a = v"
proof (rule bit_word_eqI)
  fix n
  assume n: "n < LENGTH(64)"
  have byte: "bit (push_bit (8 * i) (ucast (m (a + of_nat i))) :: u64) n \<longleftrightarrow>
      n div 8 = i \<and> bit v n" if "i < 8" for i
    using assms [OF that] n that
    by (auto simp: bit_simps)
  have "bit (load64 m a) n \<longleftrightarrow> (\<exists>i < 8. n div 8 = i \<and> bit v n)"
    unfolding load64_def upt_8
    using byte [of 0] byte [of 1] byte [of 2] byte [of 3] byte [of 4] byte [of 5] byte [of 6] byte [of 7]
    by (simp add: bit_or_iff less_8_cases del: of_nat_numeral) blast
  then show "bit (load64 m a) n \<longleftrightarrow> bit v n"
    using n by auto
qed

lemma load64_store64_same [simp]: "load64 (store64 m a v) a = v"
proof (rule load64_bytes)
  fix i :: nat
  assume "i < 8"
  moreover have "unat (of_nat i :: u64) = i"
    using \<open>i < 8\<close> by (intro unat_of_nat_u64) simp
  ultimately show "store64 m a v (a + of_nat i) = ucast (drop_bit (8 * i) v)"
    by (simp add: store64_def word_less_nat_alt)
qed

definition aligned8 :: "u64 \<Rightarrow> bool" where
  "aligned8 a \<longleftrightarrow> unat a mod 8 = 0"

lemma aligned8_offset:
  assumes "aligned8 a" "i < 8"
  shows "unat (a + of_nat i) = unat a + i"
proof -
  have "unat a \<le> 2 ^ 64 - 8"
    using assms(1) unat_lt_u64 [of a] unfolding aligned8_def by simp presburger
  moreover have "unat (of_nat i :: u64) = i"
    using assms(2) by (intro unat_of_nat_u64) simp
  ultimately show ?thesis
    using assms(2) by (simp add: unat_add_u64)
qed

text \<open>Two aligned words do not overlap.\<close>

lemma aligned8_apart:
  assumes "aligned8 a" "aligned8 b" "a \<noteq> b" "i < 8"
  shows "\<not> a + of_nat i - b < 8"
proof
  assume less: "a + of_nat i - b < 8"
  define j where "j = unat (a + of_nat i - b)"
  have j: "j < 8" "a + of_nat i = b + of_nat j"
    using less by (simp_all add: j_def word_less_nat_alt)
  then have "unat a + i = unat b + j"
    using aligned8_offset [OF assms(1,4)] aligned8_offset [OF assms(2) j(1)] by simp
  then have "unat a = unat b"
    using assms(1,2,4) j(1) unfolding aligned8_def by presburger
  with assms(3) show False
    by (simp only: word_unat_eq_iff)
qed

lemma load64_store64_other:
  assumes "aligned8 a" "aligned8 b" "a \<noteq> b"
  shows "load64 (store64 m b v) a = load64 m a"
  by (rule load64_cong) (simp add: store64_def aligned8_apart [OF assms])

lemma load64_zero: "(\<And>i. i < 8 \<Longrightarrow> m (a + of_nat i) = 0) \<Longrightarrow> load64 m a = 0"
  by (rule load64_bytes) simp

end
