(* ===== verification/Ssfn.thy ===== *)
theory Ssfn
  imports Store64
begin

text \<open>
  The console renderer of \<open>libs/libk/ssfn.h\<close> as the kernel compiles it (32-bit pixels, without the
  scalable renderer). The font is memory at offsets from \<open>ssfn_src\<close>; the framebuffer that
  \<open>ssfn_dst.ptr\<close> points to is the list of its pixels, and a pixel outside it is undefined. Positions in the
  framebuffer are counted in pixels, so a line that does not start at a whole pixel is not modelled
  (\<open>None\<close>).
\<close>

section \<open>State\<close>

type_synonym font = "u64 \<Rightarrow> u8"

record ssfn_buf_t =
  d_ptr :: u64
  d_w :: int
  d_h :: int
  d_p :: u16
  d_x :: int
  d_y :: int
  d_fg :: u32
  d_bg :: u32

record ssfn_state =
  ssfn_src :: "font option"
  ssfn_dst :: ssfn_buf_t
  pixels :: "u32 list"

text \<open>The conversion to \<open>int16_t\<close> of an assignment to \<open>w\<close>, \<open>h\<close>, \<open>x\<close> or \<open>y\<close>.\<close>

definition to_int16 :: "int \<Rightarrow> int" where
  "to_int16 v = signed_take_bit 15 v"

text \<open>The header of the font: the signature, the height, and the offset of the character table.\<close>

definition font_magic :: "font \<Rightarrow> bool" where
  "font_magic f \<longleftrightarrow> f 0 = 0x53 \<and> f 1 = 0x46 \<and> f 2 = 0x4E \<and> f 3 = 0x32"

definition font_height :: "font \<Rightarrow> int" where "font_height f = uint (f 11)"
definition characters_offs :: "font \<Rightarrow> u32" where "characters_offs f = load32 f 16"

definition SSFN_OK :: int where "SSFN_OK = 0"
definition SSFN_ERR_INVINP :: int where "SSFN_ERR_INVINP = - 4"
definition SSFN_ERR_NOGLYPH :: int where "SSFN_ERR_NOGLYPH = - 7"

section \<open>Decoding\<close>

text \<open>
  \<open>ssfn_utf8\<close> on the characters before the terminator: the code point and the rest of the
  string. It checks nothing; \<open>None\<close> is a sequence that runs past the terminator.
\<close>

definition str_byte :: "string \<Rightarrow> nat \<Rightarrow> u32" where
  "str_byte s i = (if i < length s then of_nat (of_char (s ! i)) else 0)"

definition ssfn_utf8 :: "string \<Rightarrow> (u32 \<times> string) option" where
  "ssfn_utf8 s =
     (let b0 = str_byte s 0;
          (n, c) =
            (if b0 AND 128 = 0 then (0, b0)
             else if b0 AND 32 = 0 then (1, push_bit 6 (b0 AND 0x1F) OR (str_byte s 1 AND 0x3F))
             else if b0 AND 16 = 0 then
               (2, push_bit 12 (b0 AND 0xF) OR push_bit 6 (str_byte s 1 AND 0x3F) OR (str_byte s 2 AND 0x3F))
             else if b0 AND 8 = 0 then
               (3, push_bit 18 (b0 AND 0x7) OR push_bit 12 (str_byte s 1 AND 0x3F) OR
                   push_bit 6 (str_byte s 2 AND 0x3F) OR (str_byte s 3 AND 0x3F))
             else (0, 0))
      in if n < length s then Some (c, drop (n + 1) s) else None)"

section \<open>Finding a glyph\<close>

function ssfn_find :: "font \<Rightarrow> u32 \<Rightarrow> u64 \<Rightarrow> nat \<Rightarrow> u64 option" where
  "ssfn_find f unicode ptr i =
     (if i < 0x110000 then
        (if f ptr = 0xFF then ssfn_find f unicode (ptr + 1) (i + 65535 + 1)
         else if f ptr AND 0xC0 = 0xC0 then
           ssfn_find f unicode (ptr + 2) (i + (256 * unat (f ptr AND 0x3F) + unat (f (ptr + 1))) + 1)
         else if f ptr AND 0xC0 = 0x80 then ssfn_find f unicode (ptr + 1) (i + unat (f ptr AND 0x3F) + 1)
         else if of_nat i = unicode then Some ptr
         else ssfn_find f unicode (ptr + 6 + ucast (f (ptr + 1)) * (if f ptr AND 0x40 \<noteq> 0 then 6 else 5)) (i + 1))
      else None)"
  by pat_completeness auto
termination
  by (relation "measure (\<lambda>(f, unicode, ptr, i). 0x110000 - i)") auto

declare ssfn_find.simps [simp del]

section \<open>Drawing a glyph\<close>

definition plot :: "int \<Rightarrow> u32 \<Rightarrow> u32 list \<Rightarrow> u32 list option" where
  "plot p c fb = (if 0 \<le> p \<and> nat p < length fb then Some (fb[nat p := c]) else None)"

text \<open>One line of background from column \<open>j\<close> on; \<open>pos\<close> is the pointer to its first pixel.\<close>

function ssfn_fill_row :: "ssfn_buf_t \<Rightarrow> int \<Rightarrow> int \<Rightarrow> int \<Rightarrow> int \<Rightarrow> u32 list \<Rightarrow> u32 list option" where
  "ssfn_fill_row d w n pos j fb =
     (if j < n \<and> (w = 0 \<or> d_x d + j < w) then do {
        fb \<leftarrow> plot (pos + j) (d_bg d) fb;
        ssfn_fill_row d w n pos (j + 1) fb
      }
      else Some fb)"
  by pat_completeness auto
termination
  by (relation "measure (\<lambda>(d, w, n, pos, j, fb). nat (n - j))") auto

text \<open>Lines of background up to line \<open>lim\<close> of the glyph.\<close>

function ssfn_fill ::
    "ssfn_buf_t \<Rightarrow> int \<Rightarrow> int \<Rightarrow> int \<Rightarrow> int \<Rightarrow> int \<times> int \<times> u32 list \<Rightarrow> (int \<times> int \<times> u32 list) option" where
  "ssfn_fill d w s lim n (y, pos, fb) =
     (if y < lim \<and> (d_h d = 0 \<or> d_y d + y < d_h d) then do {
        fb \<leftarrow> ssfn_fill_row d w n pos 0 fb;
        ssfn_fill d w s lim n (y + 1, pos + s, fb)
      }
      else Some (y, pos, fb))"
  by pat_completeness auto
termination
  by (relation "measure (\<lambda>(d, w, s, lim, n, y, pos, fb). nat (lim - y))") auto

declare ssfn_fill_row.simps [simp del] ssfn_fill.simps [simp del]

text \<open>The pixels of one line of a bitmap fragment, with \<open>n\<close> left; \<open>m\<close> is the bit of the byte at \<open>frg\<close>.\<close>

primrec ssfn_bits ::
    "ssfn_buf_t \<Rightarrow> int \<Rightarrow> font \<Rightarrow> int \<Rightarrow> int \<Rightarrow> u64 \<times> int \<times> u32 list \<Rightarrow> nat \<Rightarrow> (u64 \<times> int \<times> u32 list) option" where
  "ssfn_bits d w f pos l st 0 = Some st"
| "ssfn_bits d w f pos l st (Suc n) = do {
     let (frg, m, fb) = st;
     let (frg, m) = (if m > 0x80 then (frg + 1, 1) else (frg, m));
     fb \<leftarrow> (if 0 \<le> d_x d + l \<and> (w = 0 \<or> d_x d + l < w) then
             (if uint (f frg) AND m \<noteq> 0 then plot (pos + l) (d_fg d) fb
              else if d_bg d \<noteq> 0 then plot (pos + l) (d_bg d) fb
              else Some fb)
           else Some fb);
     ssfn_bits d w f pos (l + 1) (frg, 2 * m, fb) n
   }"

text \<open>The lines of a bitmap fragment, \<open>k\<close> pixels wide, with \<open>n\<close> left.\<close>

primrec ssfn_bitmap ::
    "ssfn_buf_t \<Rightarrow> int \<Rightarrow> int \<Rightarrow> font \<Rightarrow> nat \<Rightarrow> u64 \<Rightarrow> int \<Rightarrow> int \<times> int \<times> u32 list \<Rightarrow> nat \<Rightarrow> (int \<times> int \<times> u32 list) option" where
  "ssfn_bitmap d w s f k frg m st 0 = Some st"
| "ssfn_bitmap d w s f k frg m st (Suc n) =
     (let (y, pos, fb) = st in
      if d_h d = 0 \<or> d_y d + y < d_h d then do {
        (frg, m, fb) \<leftarrow> ssfn_bits d w f pos 0 (frg, m, fb) k;
        ssfn_bitmap d w s f k frg m (y + 1, pos + s, fb) n
      }
      else Some (y, pos, fb))"

definition frag_offset :: "font \<Rightarrow> u64 \<Rightarrow> u64 \<Rightarrow> u64" where
  "frag_offset f chr ptr =
     (if f chr AND 0x40 \<noteq> 0 then scast (load32 f (ptr + 2))
      else push_bit 16 (ucast (f (ptr + 4))) OR push_bit 8 (ucast (f (ptr + 3))) OR ucast (f (ptr + 2)))"

definition ssfn_fragment ::
    "ssfn_buf_t \<Rightarrow> int \<Rightarrow> int \<Rightarrow> font \<Rightarrow> u64 \<Rightarrow> u64 \<Rightarrow> int \<times> int \<times> u32 list \<Rightarrow> (int \<times> int \<times> u32 list) option" where
  "ssfn_fragment d w s f chr ptr st =
     (if f ptr = 255 \<and> f (ptr + 1) = 255 then Some st
      else (let frg = frag_offset f chr ptr in
        if f frg AND 0xE0 \<noteq> 0x80 then Some st
        else do {
          st \<leftarrow> (if d_bg d \<noteq> 0 then ssfn_fill d w s (uint (f (ptr + 1))) (uint (f (chr + 2))) st
                else (let (y, pos, fb) = st in
                  Some (uint (f (ptr + 1)), pos + (uint (f (ptr + 1)) - y) * s, fb)));
          ssfn_bitmap d w s f (8 * (unat (f frg AND 0x1F) + 1)) (frg + 2) 1 st (unat (f (frg + 1)) + 1)
        }))"

primrec ssfn_fragments ::
    "ssfn_buf_t \<Rightarrow> int \<Rightarrow> int \<Rightarrow> font \<Rightarrow> u64 \<Rightarrow> u64 \<Rightarrow> int \<times> int \<times> u32 list \<Rightarrow> nat \<Rightarrow> (int \<times> int \<times> u32 list) option" where
  "ssfn_fragments d w s f chr ptr st 0 = Some st"
| "ssfn_fragments d w s f chr ptr st (Suc n) = do {
     st \<leftarrow> ssfn_fragment d w s f chr ptr st;
     ssfn_fragments d w s f chr (ptr + (if f chr AND 0x40 \<noteq> 0 then 6 else 5)) st n
   }"

definition ssfn_draw :: "font \<Rightarrow> u64 \<Rightarrow> ssfn_buf_t \<Rightarrow> u32 list \<Rightarrow> u32 list option" where
  "ssfn_draw f chr d fb =
     (let w = \<bar>d_w d\<bar>; s = uint (d_p d) div 4; offset = d_y d * uint (d_p d) + d_x d * 4 in
      if offset mod 4 \<noteq> 0 then None
      else do {
        st \<leftarrow> ssfn_fragments d w s f chr (chr + 6) (0, offset div 4, fb) (unat (f (chr + 1)));
        (y, pos, fb) \<leftarrow> (if d_bg d \<noteq> 0 then ssfn_fill d w s (uint (f (chr + 3))) (uint (f (chr + 2))) st else Some st);
        Some fb
      })"

definition ssfn_putc :: "u32 \<Rightarrow> 'a ssfn_state_scheme \<Rightarrow> (int \<times> 'a ssfn_state_scheme) option" where
  "ssfn_putc unicode st =
     (let d = ssfn_dst st in
      case ssfn_src st of
        None \<Rightarrow> Some (SSFN_ERR_INVINP, st)
      | Some f \<Rightarrow>
          if \<not> font_magic f \<or> d_ptr d = NULL \<or> d_p d = 0 then Some (SSFN_ERR_INVINP, st)
          else if unicode = 13 then Some (SSFN_OK, st\<lparr>ssfn_dst := d\<lparr>d_x := 0\<rparr>\<rparr>)
          else if unicode = 10 then
            Some (SSFN_OK, st\<lparr>ssfn_dst := d\<lparr>d_x := 0, d_y := to_int16 (d_y d + font_height f)\<rparr>\<rparr>)
          else
            (case ssfn_find f unicode (ucast (characters_offs f)) 0 of
               None \<Rightarrow> Some (SSFN_ERR_NOGLYPH, st)
             | Some chr \<Rightarrow> do {
                 fb \<leftarrow> ssfn_draw f chr d (pixels st);
                 Some (SSFN_OK, st\<lparr>pixels := fb,
                   ssfn_dst := d\<lparr>d_x := to_int16 (d_x d + uint (f (chr + 4))),
                                 d_y := to_int16 (d_y d + uint (f (chr + 5)))\<rparr>\<rparr>)
               }))"

section \<open>Drawing stays in the framebuffer\<close>

text \<open>A cursor in or beyond a screen of \<open>h\<close> lines of \<open>s\<close> pixels, of which the first \<open>w\<close> are shown.\<close>

definition draw_ok :: "ssfn_buf_t \<Rightarrow> int \<Rightarrow> nat \<Rightarrow> bool" where
  "draw_ok d s len \<longleftrightarrow> 0 < d_w d \<and> 0 < d_h d \<and> 0 \<le> d_x d \<and> 0 \<le> d_y d \<and> d_w d \<le> s \<and> d_h d * s \<le> int len"

definition pos_at :: "ssfn_buf_t \<Rightarrow> int \<Rightarrow> int \<Rightarrow> int \<Rightarrow> bool" where
  "pos_at d s y pos \<longleftrightarrow> 0 \<le> y \<and> pos = (d_y d + y) * s + d_x d"

lemma inside:
  assumes "draw_ok d s len" "pos_at d s y pos" "d_y d + y < d_h d" "0 \<le> j" "d_x d + j < d_w d"
  shows "0 \<le> pos + j" "pos + j < int len"
proof -
  have "(d_y d + y + 1) * s \<le> d_h d * s"
    using assms by (intro mult_right_mono) (simp_all add: draw_ok_def)
  then show "pos + j < int len"
    using assms by (simp add: draw_ok_def pos_at_def algebra_simps)
  have "0 \<le> (d_y d + y) * s" using assms(1,2) by (intro mult_nonneg_nonneg) (simp_all add: draw_ok_def pos_at_def)
  then show "0 \<le> pos + j" using assms by (simp add: draw_ok_def pos_at_def)
qed

lemma plot_inside: "0 \<le> p \<Longrightarrow> p < int (length fb) \<Longrightarrow> plot p c fb = Some (fb[nat p := c])"
  by (simp add: plot_def)

lemma pos_at_next: "pos_at d s y pos \<Longrightarrow> pos_at d s (y + 1) (pos + s)"
  by (simp add: pos_at_def algebra_simps)

lemma fill_row_ok:
  assumes "draw_ok d s (length fb)" "pos_at d s y pos" "d_y d + y < d_h d" "0 \<le> j"
  shows "\<exists>fb'. ssfn_fill_row d (d_w d) n pos j fb = Some fb' \<and> length fb' = length fb"
  using assms
proof (induction "nat (n - j)" arbitrary: j fb)
  case 0
  then show ?case by (subst ssfn_fill_row.simps) simp
next
  case (Suc k)
  show ?case
  proof (cases "j < n \<and> d_x d + j < d_w d")
    case True
    then have *: "plot (pos + j) (d_bg d) fb = Some (fb[nat (pos + j) := d_bg d])"
      using inside [OF Suc.prems(1-4)] by (intro plot_inside) simp_all
    have "\<exists>fb'. ssfn_fill_row d (d_w d) n pos (j + 1) (fb[nat (pos + j) := d_bg d]) = Some fb' \<and>
        length fb' = length (fb[nat (pos + j) := d_bg d])"
      by (rule Suc.hyps(1)) (use Suc.hyps(2) Suc.prems True in simp_all)
    with True * show ?thesis by (subst ssfn_fill_row.simps) simp
  next
    case False
    moreover have "d_w d \<noteq> 0" using Suc.prems(1) by (simp add: draw_ok_def)
    ultimately show ?thesis by (subst ssfn_fill_row.simps) auto
  qed
qed

text \<open>A drawing step is defined, keeps the size of the framebuffer and the position in step with the line.\<close>

definition draws :: "ssfn_buf_t \<Rightarrow> int \<Rightarrow> nat \<Rightarrow> (int \<times> int \<times> u32 list \<Rightarrow> (int \<times> int \<times> u32 list) option) \<Rightarrow> bool" where
  "draws d s len f \<longleftrightarrow> (\<forall>y pos fb. pos_at d s y pos \<longrightarrow> length fb = len \<longrightarrow>
     (\<exists>y' pos' fb'. f (y, pos, fb) = Some (y', pos', fb') \<and> pos_at d s y' pos' \<and> length fb' = len))"

lemma draws_Some: "draws d s len Some"
  by (simp add: draws_def)

lemma draws_if: "draws d s len f \<Longrightarrow> draws d s len g \<Longrightarrow> draws d s len (\<lambda>st. if P then f st else g st)"
  by (cases P) simp_all

lemma draws_bind:
  assumes "draws d s len f" "draws d s len g"
  shows "draws d s len (\<lambda>st. Option.bind (f st) g)"
  unfolding draws_def
proof (intro allI impI)
  fix y pos and fb :: "u32 list"
  assume "pos_at d s y pos" "length fb = len"
  then obtain y1 pos1 fb1 where "f (y, pos, fb) = Some (y1, pos1, fb1)" "pos_at d s y1 pos1" "length fb1 = len"
    using assms(1) unfolding draws_def by blast
  moreover from this obtain y2 pos2 fb2 where "g (y1, pos1, fb1) = Some (y2, pos2, fb2)" "pos_at d s y2 pos2" "length fb2 = len"
    using assms(2) unfolding draws_def by blast
  ultimately show "\<exists>y' pos' fb'. Option.bind (f (y, pos, fb)) g = Some (y', pos', fb') \<and> pos_at d s y' pos' \<and> length fb' = len"
    by simp
qed

lemma fill_draws:
  assumes "draw_ok d s len"
  shows "draws d s len (ssfn_fill d (d_w d) s lim n)"
  unfolding draws_def
proof (intro allI impI)
  fix y pos and fb :: "u32 list"
  assume "pos_at d s y pos" "length fb = len"
  then show "\<exists>y' pos' fb'. ssfn_fill d (d_w d) s lim n (y, pos, fb) = Some (y', pos', fb') \<and> pos_at d s y' pos' \<and> length fb' = len"
  proof (induction "nat (lim - y)" arbitrary: y pos fb)
    case 0
    then show ?case by (subst ssfn_fill.simps) auto
  next
    case (Suc k)
    show ?case
    proof (cases "y < lim \<and> d_y d + y < d_h d")
      case True
      obtain fb1 where fb1: "ssfn_fill_row d (d_w d) n pos 0 fb = Some fb1" "length fb1 = len"
        using fill_row_ok [of d s fb y pos 0 n] assms Suc.prems True by auto
      have "\<exists>y' pos' fb'. ssfn_fill d (d_w d) s lim n (y + 1, pos + s, fb1) = Some (y', pos', fb') \<and>
          pos_at d s y' pos' \<and> length fb' = len"
        by (rule Suc.hyps(1)) (use Suc.hyps(2) Suc.prems True fb1 pos_at_next in simp_all)
      with True fb1 show ?thesis by (subst ssfn_fill.simps) simp
    next
      case False
      moreover have "d_h d \<noteq> 0" using assms by (simp add: draw_ok_def)
      ultimately show ?thesis using Suc.prems by (subst ssfn_fill.simps) auto
    qed
  qed
qed

lemma bits_ok:
  assumes "draw_ok d s (length fb)" "pos_at d s y pos" "d_y d + y < d_h d" "0 \<le> l"
  shows "\<exists>frg' m' fb'. ssfn_bits d (d_w d) f pos l (frg, m, fb) n = Some (frg', m', fb') \<and> length fb' = length fb"
  using assms
proof (induction n arbitrary: l frg m fb)
  case (Suc n)
  define frg1 m1 where "frg1 = (if m > 0x80 then frg + 1 else frg)" and "m1 = (if m > 0x80 then 1 else m)"
  have split: "(if m > 0x80 then (frg + 1, 1) else (frg, m)) = (frg1, m1)"
    by (simp add: frg1_def m1_def)
  have "\<exists>fb1. (if 0 \<le> d_x d + l \<and> (d_w d = 0 \<or> d_x d + l < d_w d) then
      (if uint (f frg1) AND m1 \<noteq> 0 then plot (pos + l) (d_fg d) fb
       else if d_bg d \<noteq> 0 then plot (pos + l) (d_bg d) fb else Some fb) else Some fb) = Some fb1 \<and> length fb1 = length fb"
  proof (cases "d_x d + l < d_w d")
    case True
    then have "plot (pos + l) c fb = Some (fb[nat (pos + l) := c])" for c
      using inside [OF Suc.prems(1-4)] by (intro plot_inside) simp_all
    with True show ?thesis by simp
  next
    case False
    moreover have "d_w d \<noteq> 0" using Suc.prems(1) by (simp add: draw_ok_def)
    ultimately show ?thesis by simp
  qed
  then obtain fb1 where fb1: "(if 0 \<le> d_x d + l \<and> (d_w d = 0 \<or> d_x d + l < d_w d) then
      (if uint (f frg1) AND m1 \<noteq> 0 then plot (pos + l) (d_fg d) fb
       else if d_bg d \<noteq> 0 then plot (pos + l) (d_bg d) fb else Some fb) else Some fb) = Some fb1" "length fb1 = length fb"
    by blast
  have "\<exists>frg' m' fb'. ssfn_bits d (d_w d) f pos (l + 1) (frg1, 2 * m1, fb1) n = Some (frg', m', fb') \<and> length fb' = length fb1"
    by (rule Suc.IH) (use Suc.prems fb1(2) in simp_all)
  with fb1 show ?case by (simp add: Let_def split)
qed simp

lemma bitmap_draws:
  assumes "draw_ok d s len"
  shows "draws d s len (\<lambda>st. ssfn_bitmap d (d_w d) s f k frg m st n)"
  unfolding draws_def
proof (intro allI impI)
  fix y pos and fb :: "u32 list"
  assume "pos_at d s y pos" "length fb = len"
  then show "\<exists>y' pos' fb'. ssfn_bitmap d (d_w d) s f k frg m (y, pos, fb) n = Some (y', pos', fb') \<and>
      pos_at d s y' pos' \<and> length fb' = len"
  proof (induction n arbitrary: y pos fb frg m)
    case (Suc n)
    show ?case
    proof (cases "d_y d + y < d_h d")
      case True
      obtain frg1 m1 fb1 where "ssfn_bits d (d_w d) f pos 0 (frg, m, fb) k = Some (frg1, m1, fb1)" "length fb1 = len"
        using bits_ok [of d s fb y pos 0 f frg m k] assms Suc.prems True by auto
      with True show ?thesis
        using Suc.IH [OF pos_at_next [OF Suc.prems(1)], of fb1 frg1 m1] by simp
    next
      case False
      moreover have "d_h d \<noteq> 0" using assms by (simp add: draw_ok_def)
      ultimately show ?thesis using Suc.prems by simp
    qed
  qed simp
qed

lemma fragment_draws:
  assumes "draw_ok d s len"
  shows "draws d s len (ssfn_fragment d (d_w d) s f chr ptr)"
proof -
  let ?skip = "\<lambda>(y, pos, fb). Some (uint (f (ptr + 1)), pos + (uint (f (ptr + 1)) - y) * s, fb)"
  have skip: "draws d s len ?skip"
    by (simp add: draws_def pos_at_def algebra_simps)
  let ?first = "\<lambda>st. if d_bg d \<noteq> 0 then ssfn_fill d (d_w d) s (uint (f (ptr + 1))) (uint (f (chr + 2))) st else ?skip st"
  let ?frg = "frag_offset f chr ptr"
  have first: "draws d s len ?first"
    using fill_draws [OF assms] skip by (cases "d_bg d = 0") simp_all
  let ?rest = "\<lambda>st. ssfn_bitmap d (d_w d) s f (8 * (unat (f ?frg AND 0x1F) + 1)) (?frg + 2) 1 st (unat (f (?frg + 1)) + 1)"
  have body: "draws d s len (\<lambda>st. Option.bind (?first st) ?rest)"
    by (rule draws_bind [OF first bitmap_draws [OF assms]])
  have "ssfn_fragment d (d_w d) s f chr ptr = (\<lambda>st.
      if f ptr = 255 \<and> f (ptr + 1) = 255 then Some st
      else if f ?frg AND 0xE0 \<noteq> 0x80 then Some st else Option.bind (?first st) ?rest)"
    by (simp only: ssfn_fragment_def Let_def fun_eq_iff simp_thms)
  then show ?thesis using draws_if [OF draws_Some draws_if [OF draws_Some body]] by (simp only:)
qed

lemma fragments_draws:
  assumes "draw_ok d s len"
  shows "draws d s len (\<lambda>st. ssfn_fragments d (d_w d) s f chr ptr st n)"
proof (induction n arbitrary: ptr)
  case 0
  show ?case by (simp add: draws_Some)
next
  case (Suc n)
  show ?case using draws_bind [OF fragment_draws [OF assms] Suc.IH] by simp
qed

lemma draw_inside:
  assumes "draw_ok d (uint (d_p d) div 4) (length fb)" "uint (d_p d) mod 4 = 0"
  shows "\<exists>fb'. ssfn_draw f chr d fb = Some fb' \<and> length fb' = length fb"
proof -
  let ?s = "uint (d_p d) div 4"
  have w: "\<bar>d_w d\<bar> = d_w d" using assms(1) by (simp add: draw_ok_def)
  have p: "uint (d_p d) = 4 * ?s" using assms(2) by presburger
  have off: "d_y d * uint (d_p d) + d_x d * 4 = 4 * (d_y d * ?s + d_x d)"
    by (subst p) (simp add: algebra_simps)
  have at: "pos_at d ?s 0 (d_y d * ?s + d_x d)" by (simp add: pos_at_def)
  obtain y1 pos1 fb1 where one: "ssfn_fragments d (d_w d) ?s f chr (chr + 6) (0, d_y d * ?s + d_x d, fb) (unat (f (chr + 1))) =
      Some (y1, pos1, fb1)" "pos_at d ?s y1 pos1" "length fb1 = length fb"
    using fragments_draws [OF assms(1)] at unfolding draws_def by blast
  obtain y2 pos2 fb2 where two: "ssfn_fill d (d_w d) ?s (uint (f (chr + 3))) (uint (f (chr + 2))) (y1, pos1, fb1) =
      Some (y2, pos2, fb2)" "length fb2 = length fb"
    using fill_draws [OF assms(1)] one(2,3) unfolding draws_def by blast
  show ?thesis
    unfolding ssfn_draw_def Let_def off w using one two by simp
qed

end
