(* ===== verification/Stivale2.thy ===== *)
theory Stivale2
  imports Prelude
begin

text \<open>
  \<open>kernel/boot/stivale2.h\<close> and \<open>kernel/boot/stivale2_boot.c\<close>: what the bootloader
  hands to the kernel. The tags are a linked list in memory; memory is a partial map from
  addresses to tags, and following a pointer that is not mapped is undefined. The loop that
  searches a tag has no bound in the code: \<open>None\<close> is also the value of a search that
  does not return.
\<close>

section \<open>Tags\<close>

record stivale2_tag =
  tag_identifier :: u64
  tag_next :: u64

definition STIVALE2_STRUCT_TAG_MEMMAP_ID :: u64 where
  "STIVALE2_STRUCT_TAG_MEMMAP_ID = 0x2187f79e8612de07"

definition STIVALE2_STRUCT_TAG_FRAMEBUFFER_ID :: u64 where
  "STIVALE2_STRUCT_TAG_FRAMEBUFFER_ID = 0x506461d2950408fa"

definition STIVALE2_STRUCT_TAG_RSDP_ID :: u64 where
  "STIVALE2_STRUCT_TAG_RSDP_ID = 0x9e1786930a375e78"

partial_function (option) stivale2_get_tag ::
    "(u64 \<Rightarrow> stivale2_tag option) \<Rightarrow> u64 \<Rightarrow> u64 \<Rightarrow> u64 option" where
  "stivale2_get_tag mem current_tag ident =
     (if current_tag = NULL then Some NULL
      else case mem current_tag of
        None \<Rightarrow> None
      | Some t \<Rightarrow>
          if tag_identifier t = ident then Some current_tag
          else stivale2_get_tag mem (tag_next t) ident)"

text \<open>The addresses of a list of tags that ends in the null pointer.\<close>

primrec tag_chain :: "(u64 \<Rightarrow> stivale2_tag option) \<Rightarrow> u64 \<Rightarrow> u64 list \<Rightarrow> bool" where
  "tag_chain mem p [] \<longleftrightarrow> p = NULL"
| "tag_chain mem p (q # qs) \<longleftrightarrow>
     p = q \<and> p \<noteq> NULL \<and> (\<exists>t. mem p = Some t \<and> tag_chain mem (tag_next t) qs)"

definition has_tag :: "(u64 \<Rightarrow> stivale2_tag option) \<Rightarrow> u64 \<Rightarrow> u64 \<Rightarrow> bool" where
  "has_tag mem ident p \<longleftrightarrow> (case mem p of None \<Rightarrow> False | Some t \<Rightarrow> tag_identifier t = ident)"

lemma get_tag_chain:
  "tag_chain mem p qs \<Longrightarrow>
   stivale2_get_tag mem p ident = Some (case find (has_tag mem ident) qs of None \<Rightarrow> NULL | Some q \<Rightarrow> q)"
proof (induction qs arbitrary: p)
  case Nil
  then show ?case by (simp add: stivale2_get_tag.simps)
next
  case (Cons q qs)
  then obtain t where "mem p = Some t" "tag_chain mem (tag_next t) qs" "p = q" "p \<noteq> NULL"
    by auto
  moreover from this have "has_tag mem ident q \<longleftrightarrow> tag_identifier t = ident"
    by (simp add: has_tag_def)
  ultimately show ?case
    using Cons.IH [of "tag_next t"] by (subst stivale2_get_tag.simps) simp
qed

text \<open>
  A search that never meets its tag in a region closed under \<open>next\<close> (a cycle) does not
  return.
\<close>

lemma get_tag_diverges:
  assumes closed: "\<And>p. p \<in> S \<Longrightarrow> \<exists>t. mem p = Some t \<and> tag_identifier t \<noteq> ident \<and> tag_next t \<in> S"
    and S0: "NULL \<notin> S" and "p \<in> S"
  shows "stivale2_get_tag mem p ident = None"
proof (rule ccontr)
  assume "stivale2_get_tag mem p ident \<noteq> None"
  then obtain r where ret: "stivale2_get_tag mem p ident = Some r"
    by auto
  have "mem' = mem \<and> ident' = ident \<longrightarrow> p \<notin> S" if "stivale2_get_tag mem' p ident' = Some r"
    for mem' p ident' r
  proof (rule stivale2_get_tag.raw_induct [where P = "\<lambda>m p i r. m = mem \<and> i = ident \<longrightarrow> p \<notin> S", OF _ that])
    fix f m p i r
    assume IH: "\<And>m p i r. f m p i = Some r \<Longrightarrow> m = mem \<and> i = ident \<longrightarrow> p \<notin> S"
      and eq: "(if p = NULL then Some NULL
        else case m p of None \<Rightarrow> None
          | Some t \<Rightarrow> if tag_identifier t = i then Some p else f m (tag_next t) i) = Some r"
    show "m = mem \<and> i = ident \<longrightarrow> p \<notin> S"
    proof (intro impI notI)
      assume "m = mem \<and> i = ident" and p: "p \<in> S"
      with closed [OF p] obtain t where "m p = Some t" "tag_identifier t \<noteq> i" "tag_next t \<in> S"
        by auto
      with eq p S0 have "f m (tag_next t) i = Some r"
        by (auto split: if_splits)
      from IH [OF this] show False
        using \<open>m = mem \<and> i = ident\<close> \<open>tag_next t \<in> S\<close> by simp
    qed
  qed
  with ret \<open>p \<in> S\<close> show False by blast
qed

section \<open>The memory map\<close>

record stivale2_mmap_entry =
  me_base :: u64
  me_length :: u64
  me_type :: u32

definition STIVALE2_MMAP_USABLE :: u32 where
  "STIVALE2_MMAP_USABLE = 1"

definition STIVALE2_MMAP_RESERVED :: u32 where
  "STIVALE2_MMAP_RESERVED = 2"

definition STIVALE2_MMAP_ACPI_RECLAIMABLE :: u32 where
  "STIVALE2_MMAP_ACPI_RECLAIMABLE = 3"

definition STIVALE2_MMAP_ACPI_NVS :: u32 where
  "STIVALE2_MMAP_ACPI_NVS = 4"

definition STIVALE2_MMAP_BAD_MEMORY :: u32 where
  "STIVALE2_MMAP_BAD_MEMORY = 5"

definition STIVALE2_MMAP_BOOTLOADER_RECLAIMABLE :: u32 where
  "STIVALE2_MMAP_BOOTLOADER_RECLAIMABLE = 0x1000"

definition STIVALE2_MMAP_KERNEL_AND_MODULES :: u32 where
  "STIVALE2_MMAP_KERNEL_AND_MODULES = 0x1001"

definition STIVALE2_MMAP_FRAMEBUFFER :: u32 where
  "STIVALE2_MMAP_FRAMEBUFFER = 0x1002"

lemmas mmap_types =
  STIVALE2_MMAP_USABLE_def STIVALE2_MMAP_RESERVED_def STIVALE2_MMAP_ACPI_RECLAIMABLE_def
  STIVALE2_MMAP_ACPI_NVS_def STIVALE2_MMAP_BAD_MEMORY_def
  STIVALE2_MMAP_BOOTLOADER_RECLAIMABLE_def STIVALE2_MMAP_KERNEL_AND_MODULES_def
  STIVALE2_MMAP_FRAMEBUFFER_def

end
