(* ===== verification/Framebuffer.thy ===== *)
theory Framebuffer
  imports Ssfn Stivale2
begin

text \<open>
  \<open>devices/framebuffer\<close>: pixels, lines, circles, scrolling and text on the framebuffer. The state
  extends the renderer's state by \<open>gfx\<close>; the memory at \<open>fb_addr\<close>, which is also the one \<open>ssfn_dst\<close>
  points to, is the list \<open>pixels\<close>, and an access outside it is undefined. Signed overflow is undefined.
\<close>

section \<open>State\<close>

record GFX_Struct =
  fb_addr :: u64
  fb_width :: u16
  fb_height :: u16
  fb_pitch :: u16
  fb_bpp :: u16
  glyph_width :: int
  glyph_height :: int

record fb_state = ssfn_state +
  gfx :: GFX_Struct

definition GFX_BLACK :: u32 where "GFX_BLACK = 0xFF3B4252"
definition GFX_GREEN :: u32 where "GFX_GREEN = 0xFFA3BE8C"
definition GFX_BLUE :: u32 where "GFX_BLUE = 0xFF81A1C1"
definition GFX_PURPLE :: u32 where "GFX_PURPLE = 0xFFB48EAD"
definition GFX_WHITE :: u32 where "GFX_WHITE = 0xFFE5E9F0"

text \<open>The fields of the boot loader's tag that the kernel reads.\<close>

record stivale2_struct_tag_framebuffer =
  framebuffer_addr :: u64
  framebuffer_width :: u16
  framebuffer_height :: u16
  framebuffer_pitch :: u16
  framebuffer_bpp :: u16

section \<open>Pixels\<close>

definition pixel_index :: "fb_state \<Rightarrow> int \<Rightarrow> int \<Rightarrow> u64" where
  "pixel_index st x y = word_of_int y * (ucast (fb_pitch (gfx st)) div 4) + word_of_int x"

definition store_pixel :: "u64 \<Rightarrow> u32 \<Rightarrow> fb_state \<Rightarrow> fb_state option" where
  "store_pixel i color st =
     (if unat i < length (pixels st) then Some (st\<lparr>pixels := (pixels st)[unat i := color]\<rparr>) else None)"

definition load_pixel :: "u64 \<Rightarrow> fb_state \<Rightarrow> u32 option" where
  "load_pixel i st = (if unat i < length (pixels st) then Some (pixels st ! unat i) else None)"

definition framebuffer_draw_pixel :: "int \<Rightarrow> int \<Rightarrow> u32 \<Rightarrow> fb_state \<Rightarrow> fb_state option" where
  "framebuffer_draw_pixel x y color st = store_pixel (pixel_index st x y) color st"

definition framebuffer_set_background_color :: "u32 \<Rightarrow> fb_state \<Rightarrow> fb_state option" where
  "framebuffer_set_background_color background_color st =
     (let st = st\<lparr>ssfn_dst := (ssfn_dst st)\<lparr>d_bg := background_color\<rparr>\<rparr> in
      for_range (\<lambda>y st.
        for_range (\<lambda>x st. framebuffer_draw_pixel (int x) (int y) (d_bg (ssfn_dst st)) st)
          0 (unat (fb_width (gfx st))) st)
        0 (unat (fb_height (gfx st))) st)"

definition framebuffer_reset_screen :: "fb_state \<Rightarrow> fb_state option" where
  "framebuffer_reset_screen st =
     framebuffer_set_background_color (d_bg (ssfn_dst st))
       (st\<lparr>ssfn_dst := (ssfn_dst st)\<lparr>d_x := 0, d_y := 0\<rparr>\<rparr>)"

text \<open>\<open>font\<close> is the font linked into the kernel, \<open>info\<close> the memory of the framebuffer tag.\<close>

definition framebuffer_init ::
    "font \<Rightarrow> (u64 \<Rightarrow> stivale2_tag option) \<Rightarrow> (u64 \<Rightarrow> stivale2_struct_tag_framebuffer) \<Rightarrow> u64 \<Rightarrow> u32 \<Rightarrow> fb_state \<Rightarrow> fb_state option" where
  "framebuffer_init font tags info first_tag background_color st = do {
     framebuffer_info \<leftarrow> stivale2_get_tag tags first_tag STIVALE2_STRUCT_TAG_FRAMEBUFFER_ID;
     if framebuffer_info = NULL then None
     else (let i = info framebuffer_info;
               st = st\<lparr>gfx := \<lparr>fb_addr = framebuffer_addr i, fb_width = framebuffer_width i,
                      fb_height = framebuffer_height i, fb_pitch = framebuffer_pitch i,
                      fb_bpp = framebuffer_bpp i, glyph_width = 8, glyph_height = 16\<rparr>,
                    ssfn_src := Some font,
                    ssfn_dst := (ssfn_dst st)\<lparr>d_ptr := framebuffer_addr i,
                      d_w := to_int16 (uint (framebuffer_width i)), d_h := to_int16 (uint (framebuffer_height i)),
                      d_p := framebuffer_pitch i, d_x := 0, d_y := 0\<rparr>\<rparr>
           in framebuffer_set_background_color background_color st)
   }"

section \<open>Lines\<close>

text \<open>\<open>for (int i = a; i <= b; i++)\<close>\<close>

function for_up :: "(int \<Rightarrow> 's \<Rightarrow> 's option) \<Rightarrow> int \<Rightarrow> int \<Rightarrow> 's \<Rightarrow> 's option" where
  "for_up f a b s =
     (if a \<le> b then do {
        s \<leftarrow> f a s;
        a' \<leftarrow> chk32 (a + 1);
        for_up f a' b s
      }
      else Some s)"
  by pat_completeness auto
termination
  by (relation "measure (\<lambda>(f, a, b, s). nat (b + 1 - a))") (auto dest: chk32_SomeD)

declare for_up.simps [simp del]

partial_function (option) line_loop ::
    "int \<Rightarrow> int \<Rightarrow> int \<Rightarrow> int \<Rightarrow> int \<Rightarrow> int \<Rightarrow> u32 \<Rightarrow> int \<Rightarrow> int \<Rightarrow> int \<Rightarrow> fb_state \<Rightarrow> fb_state option" where
  "line_loop x_end_pos y_end_pos dx dy sx sy color error1 x_start_pos y_start_pos st =
     (if x_start_pos \<noteq> x_end_pos \<and> y_start_pos \<noteq> y_end_pos then do {
        error2 \<leftarrow> chk32 (2 * error1);
        (error1, x_start_pos) \<leftarrow> (if error2 \<ge> dy then do {
            e \<leftarrow> chk32 (error1 + dy);
            x \<leftarrow> chk32 (x_start_pos + sx);
            Some (e, x)
          } else Some (error1, x_start_pos));
        (error1, y_start_pos) \<leftarrow> (if error2 \<le> dx then do {
            e \<leftarrow> chk32 (error1 + dx);
            y \<leftarrow> chk32 (y_start_pos + sy);
            Some (e, y)
          } else Some (error1, y_start_pos));
        st \<leftarrow> framebuffer_draw_pixel x_start_pos y_start_pos color st;
        line_loop x_end_pos y_end_pos dx dy sx sy color error1 x_start_pos y_start_pos st
      }
      else Some st)"

definition framebuffer_draw_line :: "int \<Rightarrow> int \<Rightarrow> int \<Rightarrow> int \<Rightarrow> u32 \<Rightarrow> fb_state \<Rightarrow> fb_state option" where
  "framebuffer_draw_line x_start_pos y_start_pos x_end_pos y_end_pos color st =
     (if x_start_pos = x_end_pos then
        (if y_start_pos < y_end_pos
         then for_up (\<lambda>y. framebuffer_draw_pixel x_start_pos y color) y_start_pos y_end_pos st
         else for_up (\<lambda>y. framebuffer_draw_pixel x_start_pos y color) y_end_pos y_start_pos st)
      else if y_start_pos = y_end_pos then
        (if x_start_pos < x_end_pos
         then for_up (\<lambda>x. framebuffer_draw_pixel x y_start_pos color) x_start_pos x_end_pos st
         else for_up (\<lambda>x. framebuffer_draw_pixel x y_start_pos color) x_end_pos x_start_pos st)
      else do {
        (dx, sx) \<leftarrow> (if x_start_pos < x_end_pos
                     then map_option (\<lambda>v. (v, 1)) (chk32 (x_end_pos - x_start_pos))
                     else map_option (\<lambda>v. (v, - 1)) (chk32 (x_start_pos - x_end_pos)));
        (dy, sy) \<leftarrow> (if y_start_pos < y_end_pos
                     then map_option (\<lambda>v. (- v, 1)) (chk32 (y_end_pos - y_start_pos))
                     else map_option (\<lambda>v. (- v, - 1)) (chk32 (y_start_pos - y_end_pos)));
        error1 \<leftarrow> chk32 (dx + dy);
        st \<leftarrow> framebuffer_draw_pixel x_start_pos y_start_pos color st;
        line_loop x_end_pos y_end_pos dx dy sx sy color error1 x_start_pos y_start_pos st
      })"

section \<open>Circles\<close>

definition draw_pixel_at :: "int \<Rightarrow> int \<Rightarrow> u32 \<Rightarrow> fb_state \<Rightarrow> fb_state option" where
  "draw_pixel_at x y color st = do {
     x \<leftarrow> chk32 x;
     y \<leftarrow> chk32 y;
     framebuffer_draw_pixel x y color st
   }"

definition draw_circle_helper :: "int \<Rightarrow> int \<Rightarrow> int \<Rightarrow> int \<Rightarrow> u32 \<Rightarrow> fb_state \<Rightarrow> fb_state option" where
  "draw_circle_helper xc yc x y color st = do {
     st \<leftarrow> draw_pixel_at (xc + x) (yc + y) color st;
     st \<leftarrow> draw_pixel_at (xc - x) (yc + y) color st;
     st \<leftarrow> draw_pixel_at (xc + x) (yc - y) color st;
     st \<leftarrow> draw_pixel_at (xc - x) (yc - y) color st;
     st \<leftarrow> draw_pixel_at (xc + y) (yc + x) color st;
     st \<leftarrow> draw_pixel_at (xc - y) (yc + x) color st;
     st \<leftarrow> draw_pixel_at (xc + y) (yc - x) color st;
     draw_pixel_at (xc - y) (yc - x) color st
   }"

function circle_loop :: "int \<Rightarrow> int \<Rightarrow> u32 \<Rightarrow> int \<Rightarrow> int \<Rightarrow> int \<Rightarrow> fb_state \<Rightarrow> fb_state option" where
  "circle_loop xc yc color x y d st =
     (if y \<ge> x then do {
        x' \<leftarrow> chk32 (x + 1);
        let y' = (if d > 0 then y - 1 else y);
        d' \<leftarrow> (if d > 0 then chk32 (d + 4 * (x' - y') + 10) else chk32 (d + 4 * x' + 6));
        st \<leftarrow> draw_circle_helper xc yc x' y' color st;
        circle_loop xc yc color x' y' d' st
      }
      else Some st)"
  by pat_completeness auto
termination
  by (relation "measure (\<lambda>(xc, yc, color, x, y, d, st). nat (y + 1 - x))") (auto dest!: chk32_SomeD)

declare circle_loop.simps [simp del]

definition framebuffer_draw_circle :: "int \<Rightarrow> int \<Rightarrow> int \<Rightarrow> u32 \<Rightarrow> fb_state \<Rightarrow> fb_state option" where
  "framebuffer_draw_circle x_center y_center radius color st = do {
     d \<leftarrow> chk32 (3 - 2 * radius);
     st \<leftarrow> draw_circle_helper x_center y_center 0 radius color st;
     circle_loop x_center y_center color 0 radius d st
   }"

section \<open>Scrolling\<close>

definition move_pixel_up :: "int \<Rightarrow> int \<Rightarrow> fb_state \<Rightarrow> fb_state option" where
  "move_pixel_up column row st = do {
     let current_index = pixel_index st row column;
     current_color \<leftarrow> load_pixel current_index st;
     st \<leftarrow> store_pixel current_index (d_bg (ssfn_dst st)) st;
     let new_index = pixel_index st row (column - glyph_height (gfx st));
     store_pixel new_index current_color st
   }"

definition framebuffer_move_one_row_up :: "fb_state \<Rightarrow> fb_state option" where
  "framebuffer_move_one_row_up st =
     for_range (\<lambda>i st.
       for_range (\<lambda>row. move_pixel_up (glyph_height (gfx st) + int i) (int row)) 0 (unat (fb_width (gfx st))) st)
       0 (nat (uint (fb_height (gfx st)) - glyph_height (gfx st))) st"

section \<open>Text\<close>

definition set_cursor :: "int \<Rightarrow> int \<Rightarrow> fb_state \<Rightarrow> fb_state" where
  "set_cursor x y st = st\<lparr>ssfn_dst := (ssfn_dst st)\<lparr>d_x := to_int16 x, d_y := to_int16 y\<rparr>\<rparr>"

definition putc :: "u32 \<Rightarrow> fb_state \<Rightarrow> fb_state option" where
  "putc unicode st = map_option snd (ssfn_putc unicode st)"

text \<open>The beginning of \<open>framebuffer_print_char\<close>: wrap at the right edge, scroll at the lower one.\<close>

definition place_cursor :: "int \<Rightarrow> int \<Rightarrow> fb_state \<Rightarrow> fb_state option" where
  "place_cursor x y st =
     (let st = set_cursor x y st;
          g = gfx st;
          st = (if d_x (ssfn_dst st) + glyph_width g > uint (fb_width g)
                then set_cursor 0 (d_y (ssfn_dst st) + glyph_height g) st else st)
      in if d_y (ssfn_dst st) \<ge> uint (fb_height g)
         then framebuffer_move_one_row_up (set_cursor 0 (uint (fb_height g) - glyph_height g) st)
         else Some st)"

definition print_backspace :: "fb_state \<Rightarrow> fb_state option" where
  "print_backspace st =
     (let d = ssfn_dst st; g = gfx st in
      if d_x d = 0 then
        (if d_y d = 0 then Some st
         else do {
           st \<leftarrow> putc 32 (set_cursor (uint (fb_width g) - glyph_width g) (d_y d - glyph_height g) st);
           Some (set_cursor (d_x (ssfn_dst st) - glyph_width g) (d_y (ssfn_dst st)) st)
         })
      else do {
        st \<leftarrow> putc 32 (set_cursor (d_x d - glyph_width g) (d_y d) st);
        Some (set_cursor (d_x (ssfn_dst st) - glyph_width g) (d_y (ssfn_dst st)) st)
      })"

text \<open>
  A tab is printed as four strings of one space. The recursion of the code ends there, because a
  space is not a tab: \<open>tab\<close> is what a tab does.
\<close>

definition print_char_with :: "(fb_state \<Rightarrow> fb_state option) \<Rightarrow> u32 \<Rightarrow> int \<Rightarrow> int \<Rightarrow> u32 \<Rightarrow> fb_state \<Rightarrow> fb_state option" where
  "print_char_with tab unicode x y foreground_color st = do {
     st \<leftarrow> place_cursor x y st;
     if unicode = 9 then tab st
     else if unicode = 8 then print_backspace st
     else putc unicode (st\<lparr>ssfn_dst := (ssfn_dst st)\<lparr>d_fg := foreground_color\<rparr>\<rparr>)
   }"

lemma ssfn_utf8_shorter: "ssfn_utf8 s = Some (c, t) \<Longrightarrow> length t < length s"
  by (auto simp: ssfn_utf8_def Let_def split: if_splits)

function print_string_with :: "(fb_state \<Rightarrow> fb_state option) \<Rightarrow> string \<Rightarrow> u32 \<Rightarrow> fb_state \<Rightarrow> fb_state option" where
  "print_string_with tab string foreground_color st =
     (if string = [] then Some st
      else do {
        (unicode, string') \<leftarrow> ssfn_utf8 string;
        st \<leftarrow> print_char_with tab unicode (d_x (ssfn_dst st)) (d_y (ssfn_dst st)) foreground_color st;
        print_string_with tab string' foreground_color st
      })"
  by pat_completeness auto
termination
  by (relation "measure (\<lambda>(tab, string, fg, st). length string)") (auto dest: ssfn_utf8_shorter)

declare print_string_with.simps [simp del]

definition print_tab :: "u32 \<Rightarrow> fb_state \<Rightarrow> fb_state option" where
  "print_tab foreground_color =
     for_range (\<lambda>i. print_string_with (\<lambda>st. None) '' '' foreground_color) 0 4"

definition framebuffer_print_char :: "u32 \<Rightarrow> int \<Rightarrow> int \<Rightarrow> u32 \<Rightarrow> fb_state \<Rightarrow> fb_state option" where
  "framebuffer_print_char unicode x y foreground_color =
     print_char_with (print_tab foreground_color) unicode x y foreground_color"

definition framebuffer_print_string :: "string \<Rightarrow> u32 \<Rightarrow> fb_state \<Rightarrow> fb_state option" where
  "framebuffer_print_string string foreground_color =
     print_string_with (print_tab foreground_color) string foreground_color"

section \<open>A well-formed screen\<close>

definition stride :: "fb_state \<Rightarrow> int" where "stride st = uint (fb_pitch (gfx st)) div 4"
definition width :: "fb_state \<Rightarrow> int" where "width st = uint (fb_width (gfx st))"
definition height :: "fb_state \<Rightarrow> int" where "height st = uint (fb_height (gfx st))"

text \<open>
  The framebuffer holds its lines of whole pixels, and what \<open>framebuffer_init\<close> sets up is in place.
\<close>

definition fb_shape :: "fb_state \<Rightarrow> bool" where
  "fb_shape st \<longleftrightarrow> uint (fb_pitch (gfx st)) mod 4 = 0 \<and> 0 < width st \<and> width st \<le> stride st \<and> 0 < height st \<and>
     int (length (pixels st)) = height st * stride st"

definition on_screen :: "fb_state \<Rightarrow> int \<Rightarrow> int \<Rightarrow> bool" where
  "on_screen st x y \<longleftrightarrow> 0 \<le> x \<and> x < width st \<and> 0 \<le> y \<and> y < height st"

definition pixel :: "fb_state \<Rightarrow> int \<Rightarrow> int \<Rightarrow> u32" where
  "pixel st x y = pixels st ! nat (y * stride st + x)"

lemma index_bound:
  assumes "fb_shape st" "on_screen st x y"
  shows "0 \<le> y * stride st + x" "y * stride st + x < int (length (pixels st))"
proof -
  have s: "0 \<le> stride st" using assms(1) by (simp add: fb_shape_def)
  show "0 \<le> y * stride st + x" using assms(2) s by (simp add: on_screen_def)
  have "(y + 1) * stride st \<le> height st * stride st"
    using assms(2) s by (intro mult_right_mono) (simp_all add: on_screen_def)
  then show "y * stride st + x < int (length (pixels st))"
    using assms by (simp add: fb_shape_def on_screen_def algebra_simps)
qed

lemma index_inj:
  assumes "fb_shape st" "on_screen st x y" "on_screen st x' y'"
  shows "y * stride st + x = y' * stride st + x' \<longleftrightarrow> x = x' \<and> y = y'"
proof
  assume eq: "y * stride st + x = y' * stride st + x'"
  have b: "0 \<le> x" "x < stride st" "0 \<le> x'" "x' < stride st"
    using assms by (auto simp: fb_shape_def on_screen_def)
  then have "(y * stride st + x) div stride st = y" "(y' * stride st + x') div stride st = y'"
    by (simp_all add: div_pos_pos_trivial)
  then show "x = x' \<and> y = y'" using eq by auto
qed simp

lemma stride_bounds: "0 \<le> stride st" "stride st < 2 ^ 14"
proof -
  have "uint (fb_pitch (gfx st)) < 2 ^ 16" using uint_lt2p [of "fb_pitch (gfx st)"] by simp
  then show "stride st < 2 ^ 14" unfolding stride_def by simp
  show "0 \<le> stride st" unfolding stride_def by (simp add: pos_imp_zdiv_nonneg_iff)
qed

lemma size_bounds: "width st < 2 ^ 16" "height st < 2 ^ 16" "0 \<le> width st" "0 \<le> height st"
  using uint_lt2p [of "fb_width (gfx st)"] uint_lt2p [of "fb_height (gfx st)"] by (simp_all add: width_def height_def)

lemma unat_pixel_index:
  assumes "fb_shape st" "on_screen st x y"
  shows "unat (pixel_index st x y) = nat (y * stride st + x)"
proof -
  have s: "ucast (fb_pitch (gfx st)) div 4 = (word_of_int (stride st) :: u64)"
  proof -
    have "uint (ucast (fb_pitch (gfx st)) div 4 :: u64) = stride st"
    proof -
      have "uint (fb_pitch (gfx st)) < 2 ^ 16" using uint_lt2p [of "fb_pitch (gfx st)"] by simp
      then have "take_bit 64 (uint (fb_pitch (gfx st))) = uint (fb_pitch (gfx st))"
        by (intro take_bit_int_eq_self) simp_all
      then show ?thesis by (simp add: uint_div stride_def unsigned_ucast_eq)
    qed
    then show ?thesis by (metis word_of_int_uint)
  qed
  have "y * stride st + x < 2 ^ 64"
  proof -
    have "y * stride st + x < height st * stride st"
      using index_bound(2) [OF assms] assms(1) by (simp add: fb_shape_def)
    also have "\<dots> \<le> 2 ^ 16 * 2 ^ 14"
      using stride_bounds [of st] size_bounds [of st] by (intro mult_mono) simp_all
    finally show ?thesis by simp
  qed
  moreover have "uint (word_of_int v :: u64) = v" if "0 \<le> v" "v < 2 ^ 64" for v
    using that by (simp add: uint_word_of_int)
  ultimately have "uint (word_of_int (y * stride st + x) :: u64) = y * stride st + x"
    using index_bound(1) [OF assms] by blast
  moreover have "pixel_index st x y = word_of_int (y * stride st + x)"
    by (simp add: pixel_index_def s)
  ultimately show ?thesis by (metis unat_eq_nat_uint)
qed

definition set_pixel :: "int \<Rightarrow> int \<Rightarrow> u32 \<Rightarrow> fb_state \<Rightarrow> fb_state" where
  "set_pixel x y c st = st\<lparr>pixels := (pixels st)[nat (y * stride st + x) := c]\<rparr>"

lemma store_pixel_on:
  assumes "fb_shape st" "on_screen st x y"
  shows "store_pixel (pixel_index st x y) c st = Some (set_pixel x y c st)"
proof -
  have "nat (y * stride st + x) < length (pixels st)" using index_bound [OF assms] by linarith
  then show ?thesis by (simp add: store_pixel_def unat_pixel_index [OF assms] set_pixel_def)
qed

lemma load_pixel_on:
  assumes "fb_shape st" "on_screen st x y"
  shows "load_pixel (pixel_index st x y) st = Some (pixel st x y)"
proof -
  have "nat (y * stride st + x) < length (pixels st)" using index_bound [OF assms] by linarith
  then show ?thesis by (simp add: load_pixel_def unat_pixel_index [OF assms] pixel_def)
qed

lemma draw_pixel_on: "fb_shape st \<Longrightarrow> on_screen st x y \<Longrightarrow> framebuffer_draw_pixel x y c st = Some (set_pixel x y c st)"
  by (simp add: framebuffer_draw_pixel_def store_pixel_on)

lemma set_pixel_frame [simp]:
  "gfx (set_pixel x y c st) = gfx st" "ssfn_src (set_pixel x y c st) = ssfn_src st"
  "ssfn_dst (set_pixel x y c st) = ssfn_dst st" "length (pixels (set_pixel x y c st)) = length (pixels st)"
  "stride (set_pixel x y c st) = stride st" "width (set_pixel x y c st) = width st"
  "height (set_pixel x y c st) = height st" "fb_shape (set_pixel x y c st) = fb_shape st"
  "on_screen (set_pixel x y c st) = on_screen st"
  by (simp_all add: set_pixel_def stride_def width_def height_def fb_shape_def on_screen_def fun_eq_iff)

lemma pixel_set_pixel:
  assumes "fb_shape st" "on_screen st x y" "on_screen st x' y'"
  shows "pixel (set_pixel x y c st) x' y' = (if x' = x \<and> y' = y then c else pixel st x' y')"
proof -
  note b = index_bound [OF assms(1,2)] index_bound [OF assms(1,3)]
  have "nat (y * stride st + x) = nat (y' * stride st + x') \<longleftrightarrow> x' = x \<and> y' = y"
    using index_inj [OF assms] b by auto
  moreover have "nat (y' * stride st + x') < length (pixels st)" using b by linarith
  ultimately show ?thesis by (auto simp: pixel_def set_pixel_def stride_def)
qed
text \<open>Only the contents of the pixels differ.\<close>

definition repainted :: "fb_state \<Rightarrow> fb_state \<Rightarrow> bool" where
  "repainted st st' \<longleftrightarrow> (\<exists>ps. st' = st\<lparr>pixels := ps\<rparr> \<and> length ps = length (pixels st))"

lemma repaintedD:
  assumes "repainted st st'"
  shows "gfx st' = gfx st" "ssfn_src st' = ssfn_src st" "ssfn_dst st' = ssfn_dst st"
    "length (pixels st') = length (pixels st)" "stride st' = stride st" "width st' = width st" "height st' = height st"
    "fb_shape st' = fb_shape st" "on_screen st' = on_screen st"
  using assms by (auto simp: repainted_def stride_def width_def height_def fb_shape_def on_screen_def fun_eq_iff)

lemma repainted_refl [simp]: "repainted st st"
  unfolding repainted_def by (intro exI [of _ "pixels st"]) simp

lemma repainted_trans: "repainted a b \<Longrightarrow> repainted b c \<Longrightarrow> repainted a c"
  by (auto simp: repainted_def)

lemma repainted_set_pixel: "repainted st (set_pixel x y c st)"
  unfolding repainted_def set_pixel_def by (intro exI [of _ "(pixels st)[nat (y * stride st + x) := c]"]) simp

lemma repainted_set: "repainted a b \<Longrightarrow> repainted a (set_pixel x y c b)"
  using repainted_trans repainted_set_pixel by blast

section \<open>Scrolling\<close>

lemma move_pixel_up_on:
  assumes "fb_shape st" "on_screen st r c" "on_screen st r (c - glyph_height (gfx st))"
  shows "move_pixel_up c r st =
    Some (set_pixel r (c - glyph_height (gfx st)) (pixel st r c) (set_pixel r c (d_bg (ssfn_dst st)) st))"
proof -
  let ?st = "set_pixel r c (d_bg (ssfn_dst st)) st"
  have "store_pixel (pixel_index ?st r (c - glyph_height (gfx ?st))) (pixel st r c) ?st =
      Some (set_pixel r (c - glyph_height (gfx ?st)) (pixel st r c) ?st)"
    by (rule store_pixel_on) (use assms in simp_all)
  then show ?thesis
    using assms by (simp add: move_pixel_up_def load_pixel_on store_pixel_on)
qed

lemma row_moved:
  assumes "fb_shape s" "0 < g" "glyph_height (gfx s) = g" "0 \<le> c - g" "c < height s"
  shows "\<exists>st. for_range (\<lambda>row. move_pixel_up c (int row)) 0 (unat (fb_width (gfx s))) s = Some st \<and> repainted s st \<and>
    (\<forall>x y. on_screen s x y \<longrightarrow> pixel st x y = (if y = c then d_bg (ssfn_dst s) else if y = c - g then pixel s x c else pixel s x y))"
proof -
  let ?P = "\<lambda>r st. repainted s st \<and> (\<forall>x y. on_screen s x y \<longrightarrow>
    pixel st x y = (if x < int r \<and> y = c then d_bg (ssfn_dst s) else if x < int r \<and> y = c - g then pixel s x c else pixel s x y))"
  have w: "int (unat (fb_width (gfx s))) = width s" by (simp add: width_def)
  have "\<exists>st. for_range (\<lambda>row. move_pixel_up c (int row)) 0 (unat (fb_width (gfx s))) s = Some st \<and> ?P (0 + unat (fb_width (gfx s))) st"
  proof (rule for_range_invar)
    show "?P 0 s" by (simp add: on_screen_def)
  next
    fix r st
    assume "r < 0 + unat (fb_width (gfx s))" and P: "?P r st"
    then have "int r < width s" using w by linarith
    then have on: "on_screen s (int r) c" "on_screen s (int r) (c - g)" using assms by (simp_all add: on_screen_def)
    have f: "repainted s st" using P by blast
    note fr = repaintedD [OF f]
    have shape: "fb_shape st" using assms(1) fr by simp
    let ?st = "set_pixel (int r) (c - g) (pixel st (int r) c) (set_pixel (int r) c (d_bg (ssfn_dst s)) st)"
    have "move_pixel_up c (int r) st = Some ?st"
      using move_pixel_up_on [of st "int r" c] shape on fr assms(3) by simp
    moreover have "repainted s ?st" by (intro repainted_set f)
    moreover have "pixel ?st x y = (if x < int (Suc r) \<and> y = c then d_bg (ssfn_dst s)
        else if x < int (Suc r) \<and> y = c - g then pixel s x c else pixel s x y)" if xy: "on_screen s x y" for x y
    proof -
      have "pixel ?st x y = (if x = int r \<and> y = c - g then pixel st (int r) c else if x = int r \<and> y = c then d_bg (ssfn_dst s) else pixel st x y)"
        using pixel_set_pixel [of "set_pixel (int r) c (d_bg (ssfn_dst s)) st" "int r" "c - g" x y "pixel st (int r) c"]
          pixel_set_pixel [of st "int r" c x y] shape on xy fr by auto
      moreover have "pixel st (int r) c = pixel s (int r) c" using P on assms(2) by auto
      ultimately show ?thesis using P xy assms(2) by auto
    qed
    ultimately show "\<exists>st'. move_pixel_up c (int r) st = Some st' \<and> ?P (Suc r) st'" by blast
  qed
  then obtain st where st: "for_range (\<lambda>row. move_pixel_up c (int row)) 0 (unat (fb_width (gfx s))) s = Some st"
    "?P (0 + unat (fb_width (gfx s))) st" by blast
  have "pixel st x y = (if y = c then d_bg (ssfn_dst s) else if y = c - g then pixel s x c else pixel s x y)"
    if xy: "on_screen s x y" for x y
  proof -
    have "x < int (0 + unat (fb_width (gfx s)))" using xy w by (simp add: on_screen_def)
    then show ?thesis using st(2) xy by auto
  qed
  with st show ?thesis by blast
qed

lemma move_up:
  assumes "fb_shape s" "glyph_height (gfx s) = g" "0 < g"
  shows "\<exists>st. framebuffer_move_one_row_up s = Some st \<and> repainted s st \<and>
    (\<forall>x y. on_screen s x y \<longrightarrow> pixel st x y =
       (if y + g < height s then pixel s x (y + g) else if g \<le> y then d_bg (ssfn_dst s) else pixel s x y))"
proof -
  let ?P = "\<lambda>i st. repainted s st \<and> (\<forall>x y. on_screen s x y \<longrightarrow> pixel st x y =
    (if y < int i then pixel s x (y + g) else if g \<le> y \<and> y < g + int i then d_bg (ssfn_dst s) else pixel s x y))"
  let ?body = "\<lambda>i st. for_range (\<lambda>row. move_pixel_up (glyph_height (gfx st) + int i) (int row)) 0 (unat (fb_width (gfx st))) st"
  let ?n = "nat (height s - g)"
  have "\<exists>st. for_range ?body 0 ?n s = Some st \<and> ?P (0 + ?n) st"
  proof (rule for_range_invar)
    show "?P 0 s" by (auto simp: on_screen_def)
  next
    fix i st
    assume i: "i < 0 + ?n" and P: "?P i st"
    then have f: "repainted s st" by blast
    note fr = repaintedD [OF f]
    have pre: "fb_shape st" "0 < g" "glyph_height (gfx st) = g" "0 \<le> g + int i - g" "g + int i < height st"
      using assms i fr by auto
    obtain st' where st': "for_range (\<lambda>row. move_pixel_up (g + int i) (int row)) 0 (unat (fb_width (gfx st))) st = Some st'"
      "repainted st st'" and px: "\<And>x y. on_screen st x y \<Longrightarrow> pixel st' x y =
         (if y = g + int i then d_bg (ssfn_dst st) else if y = g + int i - g then pixel st x (g + int i) else pixel st x y)"
      using row_moved [OF pre] by blast
    have "pixel st' x y = (if y < int (Suc i) then pixel s x (y + g)
        else if g \<le> y \<and> y < g + int (Suc i) then d_bg (ssfn_dst s) else pixel s x y)" if xy: "on_screen s x y" for x y
    proof -
      have row: "on_screen s x (g + int i)" using xy i assms(3) by (simp add: on_screen_def)
      have "pixel st x (g + int i) = pixel s x (g + int i)" using P row assms(3) by auto
      then show ?thesis
        using px [of x y] P xy assms(3) fr by (auto simp: add.commute)
    qed
    then show "\<exists>st'. ?body i st = Some st' \<and> ?P (Suc i) st'"
      using st' repainted_trans [OF f] assms(2) fr by auto
  qed
  then obtain st where st: "for_range ?body 0 ?n s = Some st" "?P (0 + ?n) st" by blast
  have "framebuffer_move_one_row_up s = Some st"
    using st(1) assms(2) by (simp add: framebuffer_move_one_row_up_def height_def)
  moreover have "pixel st x y = (if y + g < height s then pixel s x (y + g) else if g \<le> y then d_bg (ssfn_dst s) else pixel s x y)"
    if xy: "on_screen s x y" for x y
  proof (cases "g \<le> height s")
    case True
    then have n: "int (0 + ?n) = height s - g" by simp
    show ?thesis using st(2) xy assms(3) unfolding n by (auto simp: on_screen_def)
  next
    case False
    then show ?thesis using st(2) xy assms(3) by (auto simp: on_screen_def)
  qed
  ultimately show ?thesis using st(2) by blast
qed
end
