(* ===== verification/Framebuffer_Text.thy ===== *)
theory Framebuffer_Text
  imports Framebuffer
begin

text \<open>
  Text on the framebuffer: the cursor stays where the renderer can draw, and nothing is written outside
  the framebuffer, whatever the font contains.
\<close>

section \<open>The background\<close>

lemma for_range_paint:
  assumes "\<And>i s. i < n \<Longrightarrow> P i s \<Longrightarrow> \<exists>s'. f i s = Some s' \<and> P (Suc i) s'" "P 0 s"
  shows "\<exists>s'. for_range f 0 n s = Some s' \<and> P n s'"
  using for_range_invar [of P 0 s n f] assms by auto

lemma background_row:
  assumes "fb_shape s" "0 \<le> y" "y < height s"
  shows "\<exists>st. for_range (\<lambda>x st. framebuffer_draw_pixel (int x) y (d_bg (ssfn_dst st)) st) 0 (unat (fb_width (gfx s))) s = Some st \<and>
    repainted s st \<and> (\<forall>x y'. on_screen s x y' \<longrightarrow> pixel st x y' = (if y' = y then d_bg (ssfn_dst s) else pixel s x y'))"
proof -
  let ?P = "\<lambda>i st. repainted s st \<and> (\<forall>x y'. on_screen s x y' \<longrightarrow>
    pixel st x y' = (if x < int i \<and> y' = y then d_bg (ssfn_dst s) else pixel s x y'))"
  have w: "int (unat (fb_width (gfx s))) = width s" by (simp add: width_def)
  have "\<exists>st. for_range (\<lambda>x st. framebuffer_draw_pixel (int x) y (d_bg (ssfn_dst st)) st) 0 (unat (fb_width (gfx s))) s = Some st \<and>
      ?P (unat (fb_width (gfx s))) st"
  proof (rule for_range_paint)
    show "?P 0 s" by (auto simp: on_screen_def)
  next
    fix i st
    assume "i < unat (fb_width (gfx s))" and P: "?P i st"
    then have "int i < width s" using w by linarith
    then have on: "on_screen s (int i) y" using assms by (simp add: on_screen_def)
    have f: "repainted s st" using P by blast
    note fr = repaintedD [OF f]
    let ?st = "set_pixel (int i) y (d_bg (ssfn_dst s)) st"
    have "framebuffer_draw_pixel (int i) y (d_bg (ssfn_dst st)) st = Some ?st"
      using draw_pixel_on [of st "int i" y] fr assms(1) on by simp
    moreover have "pixel ?st x y' = (if x < int (Suc i) \<and> y' = y then d_bg (ssfn_dst s) else pixel s x y')" if xy: "on_screen s x y'" for x y'
      using pixel_set_pixel [of st "int i" y x y'] fr assms(1) on xy P by auto
    ultimately show "\<exists>st'. framebuffer_draw_pixel (int i) y (d_bg (ssfn_dst st)) st = Some st' \<and> ?P (Suc i) st'"
      using repainted_set [OF f] by blast
  qed
  then obtain st where st: "for_range (\<lambda>x st. framebuffer_draw_pixel (int x) y (d_bg (ssfn_dst st)) st) 0 (unat (fb_width (gfx s))) s = Some st"
    "?P (unat (fb_width (gfx s))) st" by blast
  have "pixel st x y' = (if y' = y then d_bg (ssfn_dst s) else pixel s x y')" if xy: "on_screen s x y'" for x y'
    using st(2) xy w by (auto simp: on_screen_def)
  with st show ?thesis by blast
qed

lemma background_painted:
  assumes "fb_shape st"
  shows "\<exists>st'. framebuffer_set_background_color c st = Some st' \<and>
    repainted (st\<lparr>ssfn_dst := (ssfn_dst st)\<lparr>d_bg := c\<rparr>\<rparr>) st' \<and> (\<forall>x y. on_screen st x y \<longrightarrow> pixel st' x y = c)"
proof -
  let ?s = "st\<lparr>ssfn_dst := (ssfn_dst st)\<lparr>d_bg := c\<rparr>\<rparr>"
  have same: "fb_shape ?s" "on_screen ?s = on_screen st" "height ?s = height st"
    using assms by (simp_all add: fb_shape_def on_screen_def width_def height_def stride_def fun_eq_iff)
  let ?P = "\<lambda>i s. repainted ?s s \<and> (\<forall>x y. on_screen st x y \<longrightarrow> y < int i \<longrightarrow> pixel s x y = c)"
  let ?f = "\<lambda>y st. for_range (\<lambda>x st. framebuffer_draw_pixel (int x) (int y) (d_bg (ssfn_dst st)) st) 0 (unat (fb_width (gfx st))) st"
  have h: "int (unat (fb_height (gfx st))) = height st" by (simp add: height_def)
  have "\<exists>s. for_range ?f 0 (unat (fb_height (gfx ?s))) ?s = Some s \<and> ?P (unat (fb_height (gfx ?s))) s"
  proof (rule for_range_paint)
    show "?P 0 ?s" by (auto simp: on_screen_def)
  next
    fix i s
    assume "i < unat (fb_height (gfx ?s))" and P: "?P i s"
    then have "i < unat (fb_height (gfx st))" by simp
    then have i: "int i < height st" using h by linarith
    have f: "repainted ?s s" using P by blast
    note fr = repaintedD [OF f]
    have pre: "fb_shape s" "0 \<le> int i" "int i < height s" using fr same i by simp_all
    obtain s' where s': "?f i s = Some s'" "repainted s s'"
      "\<And>x y'. on_screen s x y' \<Longrightarrow> pixel s' x y' = (if y' = int i then d_bg (ssfn_dst s) else pixel s x y')"
      using background_row [OF pre] by blast
    have "pixel s' x y = c" if "on_screen st x y" "y < int (Suc i)" for x y
      using s'(3) [of x y] that P fr same by (cases "y = int i") auto
    then show "\<exists>s'. ?f i s = Some s' \<and> ?P (Suc i) s'"
      using s'(1) repainted_trans [OF f s'(2)] by blast
  qed
  then obtain s where "for_range ?f 0 (unat (fb_height (gfx ?s))) ?s = Some s" "?P (unat (fb_height (gfx st))) s" by auto
  moreover have "y < int (unat (fb_height (gfx st)))" if "on_screen st x y" for x y
    using that h by (simp add: on_screen_def)
  ultimately show ?thesis by (auto simp: framebuffer_set_background_color_def)
qed

section \<open>The cursor\<close>

text \<open>What \<open>framebuffer_init\<close> sets up.\<close>

definition fb_set :: "fb_state \<Rightarrow> bool" where
  "fb_set st \<longleftrightarrow> fb_shape st \<and> 8 \<le> width st \<and> width st < 32000 \<and> 16 \<le> height st \<and> height st < 32000 \<and>
     glyph_width (gfx st) = 8 \<and> glyph_height (gfx st) = 16 \<and>
     d_w (ssfn_dst st) = width st \<and> d_h (ssfn_dst st) = height st \<and> d_p (ssfn_dst st) = fb_pitch (gfx st)"

text \<open>With the cursor at most one glyph beyond the edges.\<close>

definition fb_ok :: "fb_state \<Rightarrow> bool" where
  "fb_ok st \<longleftrightarrow> fb_set st \<and> 0 \<le> d_x (ssfn_dst st) \<and> d_x (ssfn_dst st) \<le> width st + 255 \<and>
     0 \<le> d_y (ssfn_dst st) \<and> d_y (ssfn_dst st) \<le> height st + 255"

text \<open>The geometry, the font, the framebuffer and the background are the same.\<close>

definition same_frame :: "fb_state \<Rightarrow> fb_state \<Rightarrow> bool" where
  "same_frame st st' \<longleftrightarrow> gfx st' = gfx st \<and> ssfn_src st' = ssfn_src st \<and> length (pixels st') = length (pixels st) \<and>
     d_bg (ssfn_dst st') = d_bg (ssfn_dst st) \<and> d_ptr (ssfn_dst st') = d_ptr (ssfn_dst st)"

lemma same_frame_refl [simp]: "same_frame st st"
  by (simp add: same_frame_def)

lemma same_frame_trans: "same_frame a b \<Longrightarrow> same_frame b c \<Longrightarrow> same_frame a c"
  by (simp add: same_frame_def)

lemma to_int16_small: "0 \<le> v \<Longrightarrow> v < 2 ^ 15 \<Longrightarrow> to_int16 v = v"
  unfolding to_int16_def by (intro signed_take_bit_int_eq_self) simp_all

lemma same_frame_shape:
  "same_frame st st' \<Longrightarrow> fb_shape st' = fb_shape st \<and> width st' = width st \<and> height st' = height st"
  by (simp add: same_frame_def fb_shape_def width_def height_def stride_def)

lemma set_cursor_frame [simp]:
  "gfx (set_cursor x y st) = gfx st" "same_frame st (set_cursor x y st)"
  "d_x (ssfn_dst (set_cursor x y st)) = to_int16 x" "d_y (ssfn_dst (set_cursor x y st)) = to_int16 y"
  "width (set_cursor x y st) = width st" "height (set_cursor x y st) = height st"
  "fb_set (set_cursor x y st) = fb_set st"
  by (simp_all add: set_cursor_def same_frame_def width_def height_def fb_set_def fb_shape_def stride_def)

lemma repainted_ok: "fb_ok st \<Longrightarrow> repainted st st' \<Longrightarrow> fb_ok st' \<and> same_frame st st'"
  by (auto simp: fb_ok_def fb_set_def same_frame_def repaintedD)

section \<open>Printing\<close>

text \<open>Before a glyph is drawn the cursor is on the screen.\<close>

lemma place_cursor_ok:
  assumes "fb_set st" "0 \<le> x" "x \<le> width st + 255" "0 \<le> y" "y \<le> height st + 255"
  shows "\<exists>st'. place_cursor x y st = Some st' \<and> fb_ok st' \<and> same_frame st st' \<and>
    d_x (ssfn_dst st') \<le> width st - 8 \<and> d_y (ssfn_dst st') < height st"
proof -
  note ok = assms(1)[unfolded fb_set_def]
  have small: "to_int16 x = x" "to_int16 y = y" "to_int16 (y + 16) = y + 16" "to_int16 0 = 0"
    "to_int16 (height st - 16) = height st - 16"
    using assms ok by (auto intro!: to_int16_small)
  let ?s1 = "set_cursor x y st"
  define s2 where "s2 = (if x + 8 > width st then set_cursor 0 (y + 16) ?s1 else ?s1)"
  have s2: "fb_set s2" "same_frame st s2" "0 \<le> d_x (ssfn_dst s2)" "d_x (ssfn_dst s2) \<le> width st - 8"
    "0 \<le> d_y (ssfn_dst s2)" "gfx s2 = gfx st" "width s2 = width st" "height s2 = height st"
    using assms small ok same_frame_trans [OF set_cursor_frame(2) set_cursor_frame(2)] by (auto simp: s2_def)
  have eq: "place_cursor x y st = (if height st \<le> d_y (ssfn_dst s2)
      then framebuffer_move_one_row_up (set_cursor 0 (height st - 16) s2) else Some s2)"
    using ok small by (simp add: place_cursor_def s2_def Let_def width_def height_def)
  show ?thesis
  proof (cases "height st \<le> d_y (ssfn_dst s2)")
    case True
    let ?s3 = "set_cursor 0 (height st - 16) s2"
    have s3: "fb_ok ?s3" using s2 ok small by (simp add: fb_ok_def)
    then have "fb_shape ?s3" "glyph_height (gfx ?s3) = 16" by (simp_all add: fb_ok_def fb_set_def)
    from move_up [OF this] obtain st' where st': "framebuffer_move_one_row_up ?s3 = Some st'" "repainted ?s3 st'" by auto
    have "same_frame st st'"
      using repainted_ok [OF s3 st'(2)] same_frame_trans [OF s2(2) set_cursor_frame(2)] same_frame_trans by blast
    then show ?thesis
      using st' repainted_ok [OF s3 st'(2)] repaintedD(3) [OF st'(2)] small True eq ok by auto
  next
    case False
    then show ?thesis using s2 eq by (auto simp: fb_ok_def)
  qed
qed

text \<open>The renderer, for any font.\<close>

lemma putc_ok:
  assumes "fb_ok st" "d_x (ssfn_dst st) \<le> width st" "d_y (ssfn_dst st) < height st"
  shows "\<exists>st'. putc u st = Some st' \<and> fb_ok st' \<and> same_frame st st'"
proof -
  note ok = assms(1)[unfolded fb_ok_def fb_set_def]
  let ?d = "ssfn_dst st"
  have advance: "to_int16 (d_x ?d + uint b) = d_x ?d + uint b" "to_int16 (d_y ?d + uint b) = d_y ?d + uint b" for b :: u8
    using ok assms uint_lt2p [of b] uint_ge_0 [of b] by (auto intro!: to_int16_small)
  have byte: "uint b \<le> 255" for b :: u8 using uint_lt2p [of b] by simp
  have bounds: "0 \<le> uint b" for b :: u8 by simp
  have room: "draw_ok ?d (uint (d_p ?d) div 4) (length (pixels st))" "uint (d_p ?d) mod 4 = 0"
    using ok by (auto simp: draw_ok_def fb_shape_def stride_def)
  show ?thesis
  proof (cases "ssfn_src st")
    case None
    then show ?thesis using assms(1) by (simp add: putc_def ssfn_putc_def Let_def)
  next
    case (Some f)
    consider "\<not> font_magic f \<or> d_ptr ?d = NULL \<or> d_p ?d = 0" | "font_magic f" "d_ptr ?d \<noteq> NULL" "d_p ?d \<noteq> 0" by blast
    then show ?thesis
    proof cases
      case 1
      then show ?thesis using assms(1) Some by (auto simp: putc_def ssfn_putc_def Let_def)
    next
      case 2
      have new: "fb_ok (st\<lparr>pixels := ps, ssfn_dst := ?d\<lparr>d_x := x, d_y := y\<rparr>\<rparr>) \<and>
          same_frame st (st\<lparr>pixels := ps, ssfn_dst := ?d\<lparr>d_x := x, d_y := y\<rparr>\<rparr>)"
        if "length ps = length (pixels st)" "0 \<le> x" "x \<le> width st + 255" "0 \<le> y" "y \<le> height st + 255" for ps x y
        using that ok by (simp add: fb_ok_def fb_set_def same_frame_def fb_shape_def width_def height_def stride_def)
      consider "u = 13" | "u = 10" | "u \<noteq> 13" "u \<noteq> 10" "ssfn_find f u (ucast (characters_offs f)) 0 = None"
        | chr where "u \<noteq> 13" "u \<noteq> 10" "ssfn_find f u (ucast (characters_offs f)) 0 = Some chr" by fastforce
      then show ?thesis
      proof cases
        case 1
        then show ?thesis
          using 2 Some new [of "pixels st" 0 "d_y ?d"] ok by (simp add: putc_def ssfn_putc_def Let_def)
      next
        case 2
        then show ?thesis
          using \<open>font_magic f\<close> \<open>d_ptr ?d \<noteq> NULL\<close> \<open>d_p ?d \<noteq> 0\<close> Some advance new [of "pixels st" 0 "d_y ?d + uint (f 11)"] ok
            assms(3) byte [of "f 11"] by (simp add: putc_def ssfn_putc_def Let_def font_height_def)
      next
        case 3
        then show ?thesis using 2 Some assms(1) by (simp add: putc_def ssfn_putc_def Let_def)
      next
        case 4
        obtain ps where ps: "ssfn_draw f chr ?d (pixels st) = Some ps" "length ps = length (pixels st)"
          using draw_inside [OF room] by blast
        show ?thesis
          using 2 4 Some ps advance new [of ps "d_x ?d + uint (f (chr + 4))" "d_y ?d + uint (f (chr + 5))"] ok assms
            byte [of "f (chr + 4)"] byte [of "f (chr + 5)"]
          by (simp add: putc_def ssfn_putc_def Let_def)
      qed
    qed
  qed
qed

text \<open>A character other than a backspace.\<close>

lemma print_char_ok:
  assumes "fb_ok st" "unicode \<noteq> 8" "unicode \<noteq> 9 \<or> (\<forall>s. fb_ok s \<longrightarrow> (\<exists>s'. tab s = Some s' \<and> fb_ok s' \<and> same_frame s s'))"
  shows "\<exists>st'. print_char_with tab unicode (d_x (ssfn_dst st)) (d_y (ssfn_dst st)) fg st = Some st' \<and> fb_ok st' \<and> same_frame st st'"
proof -
  obtain s where s: "place_cursor (d_x (ssfn_dst st)) (d_y (ssfn_dst st)) st = Some s" "fb_ok s" "same_frame st s"
    "d_x (ssfn_dst s) \<le> width st - 8" "d_y (ssfn_dst s) < height st"
    using place_cursor_ok [of st "d_x (ssfn_dst st)" "d_y (ssfn_dst st)"] assms(1) by (auto simp: fb_ok_def)
  note dims = same_frame_shape [OF s(3)]
  show ?thesis
  proof (cases "unicode = 9")
    case True
    then show ?thesis using s assms(3) same_frame_trans [OF s(3)] by (auto simp: print_char_with_def)
  next
    case False
    let ?s = "s\<lparr>ssfn_dst := (ssfn_dst s)\<lparr>d_fg := fg\<rparr>\<rparr>"
    have "fb_ok ?s" "same_frame s ?s" "width ?s = width s" "height ?s = height s"
      using s(2) by (simp_all add: fb_ok_def fb_set_def same_frame_def fb_shape_def width_def height_def stride_def)
    then obtain st' where "putc unicode ?s = Some st'" "fb_ok st'" "same_frame ?s st'"
      using putc_ok [of ?s unicode] s(4,5) dims by auto
    then show ?thesis
      using s False assms(2) same_frame_trans [OF s(3) same_frame_trans [OF \<open>same_frame s ?s\<close>]]
      by (auto simp: print_char_with_def)
  qed
qed

text \<open>The code points of a string.\<close>

function code_points :: "string \<Rightarrow> u32 list option" where
  "code_points s =
     (if s = [] then Some []
      else do {
        (c, t) \<leftarrow> ssfn_utf8 s;
        cs \<leftarrow> code_points t;
        Some (c # cs)
      })"
  by pat_completeness auto
termination
  by (relation "measure length") (auto dest: ssfn_utf8_shorter)

declare code_points.simps [simp del]

lemma print_string_ok:
  assumes "code_points s = Some cs" "8 \<notin> set cs" "fb_ok st"
    and "9 \<notin> set cs \<or> (\<forall>s. fb_ok s \<longrightarrow> (\<exists>s'. tab s = Some s' \<and> fb_ok s' \<and> same_frame s s'))"
  shows "\<exists>st'. print_string_with tab s fg st = Some st' \<and> fb_ok st' \<and> same_frame st st'"
  using assms
proof (induction cs arbitrary: s st)
  case Nil
  then have "s = []" by (subst (asm) code_points.simps) (auto split: if_splits Option.bind_splits)
  with Nil show ?case by (subst print_string_with.simps) simp
next
  case (Cons c cs)
  obtain t where t: "s \<noteq> []" "ssfn_utf8 s = Some (c, t)" "code_points t = Some cs"
    using Cons.prems(1) by (subst (asm) code_points.simps) (auto split: if_splits Option.bind_splits)
  obtain s1 where s1: "print_char_with tab c (d_x (ssfn_dst st)) (d_y (ssfn_dst st)) fg st = Some s1" "fb_ok s1" "same_frame st s1"
    using print_char_ok [of st c tab fg] Cons.prems(2-4) by auto
  obtain st' where "print_string_with tab t fg s1 = Some st'" "fb_ok st'" "same_frame s1 st'"
    using Cons.IH [OF t(3) _ s1(2)] Cons.prems(2,4) by auto
  then show ?case
    using t s1 same_frame_trans [OF s1(3)] by (subst print_string_with.simps) auto
qed

lemma print_tab_ok: "fb_ok st \<Longrightarrow> \<exists>st'. print_tab fg st = Some st' \<and> fb_ok st' \<and> same_frame st st'"
proof -
  assume ok: "fb_ok st"
  have cs: "code_points '' '' = Some [32]"
    by (subst code_points.simps, subst code_points.simps) (simp add: ssfn_utf8_def str_byte_def)
  have "\<exists>s'. for_range (\<lambda>i. print_string_with (\<lambda>st. None) '' '' fg) 0 4 st = Some s' \<and> (fb_ok s' \<and> same_frame st s')"
  proof (rule for_range_paint)
    show "fb_ok st \<and> same_frame st st" using ok by simp
  next
    fix s
    assume "fb_ok s \<and> same_frame st s"
    then show "\<exists>s'. print_string_with (\<lambda>st. None) '' '' fg s = Some s' \<and> (fb_ok s' \<and> same_frame st s')"
      using print_string_ok [OF cs, of s "\<lambda>st. None" fg] same_frame_trans by auto
  qed
  then show ?thesis unfolding print_tab_def by simp
qed

lemma framebuffer_print_string_ok:
  assumes "fb_ok st" "code_points s = Some cs" "8 \<notin> set cs"
  shows "\<exists>st'. framebuffer_print_string s fg st = Some st' \<and> fb_ok st' \<and> same_frame st st'"
  unfolding framebuffer_print_string_def
  by (rule print_string_ok [OF assms(2,3,1)]) (use print_tab_ok in blast)

section \<open>A small screen for the witnesses\<close>

definition screen_sample :: fb_state where
  "screen_sample = \<lparr>ssfn_src = Some (\<lambda>a. if a = 0 then 0x53 else if a = 1 then 0x46 else if a = 2 then 0x4E
       else if a = 3 then 0x32 else if a = 11 then 16 else if a = 16 then 32 else 0xFF),
     ssfn_dst = \<lparr>d_ptr = 0x1000, d_w = 16, d_h = 48, d_p = 64, d_x = 0, d_y = 0, d_fg = 0, d_bg = GFX_BLACK\<rparr>,
     pixels = replicate 768 0,
     gfx = \<lparr>fb_addr = 0x1000, fb_width = 16, fb_height = 48, fb_pitch = 64, fb_bpp = 32, glyph_width = 8, glyph_height = 16\<rparr>\<rparr>"

lemma screen_sample_ok: "fb_ok screen_sample"
  by (simp add: fb_ok_def fb_set_def fb_shape_def screen_sample_def width_def height_def stride_def)

section \<open>Properties\<close>

text \<open>
  C20: on a screen as \<open>framebuffer_init\<close> sets it up, whatever the font contains, printing a string
  that decodes and has no backspace returns, writes no pixel outside the framebuffer, and leaves the screen and the cursor
  well-formed: the state is one in which the next string can be printed.
\<close>

theorem framebuffer_print_string_well_formed:
  assumes "fb_ok st" "code_points s = Some cs" "8 \<notin> set cs"
  shows "\<exists>st'. framebuffer_print_string s fg st = Some st' \<and> fb_ok st' \<and> same_frame st st'"
  using framebuffer_print_string_ok [OF assms] .

theorem framebuffer_print_string_well_formed_witness:
  "\<exists>st'. framebuffer_print_string [CHR ''o'', CHR ''k'', CHR 0x09, CHR 0x0A, CHR 0xE2, CHR 0x94, CHR 0x80] GFX_WHITE screen_sample = Some st' \<and> fb_ok st'"
proof -
  have "code_points [CHR ''o'', CHR ''k'', CHR 0x09, CHR 0x0A, CHR 0xE2, CHR 0x94, CHR 0x80] = Some [111, 107, 9, 10, 0x2500]"
    by (simp add: code_points.simps ssfn_utf8_def str_byte_def)
  then show ?thesis
    using framebuffer_print_string_well_formed [OF screen_sample_ok, of _ _ GFX_WHITE] by fastforce
qed

text \<open>
  C15: scrolling moves every line of pixels up by one glyph and fills the lines that become free with the background
  (on a screen of at least two glyphs in height, so that no line is in both parts).
\<close>

theorem framebuffer_move_one_row_up_scrolls:
  assumes "fb_shape st" "glyph_height (gfx st) = g" "0 < g" "2 * g \<le> height st"
  shows "\<exists>st'. framebuffer_move_one_row_up st = Some st' \<and> repainted st st' \<and>
    (\<forall>x y. on_screen st x y \<longrightarrow> pixel st' x y = (if y + g < height st then pixel st x (y + g) else d_bg (ssfn_dst st)))"
proof -
  obtain st' where "framebuffer_move_one_row_up st = Some st'" "repainted st st'"
    and px: "\<And>x y. on_screen st x y \<Longrightarrow> pixel st' x y =
       (if y + g < height st then pixel st x (y + g) else if g \<le> y then d_bg (ssfn_dst st) else pixel st x y)"
    using move_up [OF assms(1-3)] by blast
  moreover have "pixel st' x y = (if y + g < height st then pixel st x (y + g) else d_bg (ssfn_dst st))" if "on_screen st x y" for x y
    using px [OF that] assms(4) by (auto split: if_splits)
  ultimately show ?thesis by blast
qed

theorem framebuffer_move_one_row_up_scrolls_witness:
  "\<exists>st'. framebuffer_move_one_row_up screen_sample = Some st' \<and> pixel st' 0 0 = pixel screen_sample 0 16"
proof -
  have "on_screen screen_sample 0 0" "height screen_sample = 48" "glyph_height (gfx screen_sample) = 16"
    by (simp_all add: on_screen_def screen_sample_def width_def height_def)
  then show ?thesis
    using framebuffer_move_one_row_up_scrolls [OF _ _, of screen_sample 16] screen_sample_ok by (auto simp: fb_ok_def fb_set_def)
qed

text \<open>
  \<open>framebuffer_init\<close> on a framebuffer whose lines are whole pixels: the screen is well-formed, the cursor is in
  the corner, and every pixel has the background colour.
\<close>

lemma framebuffer_init_ok:
  assumes "stivale2_get_tag tags first_tag STIVALE2_STRUCT_TAG_FRAMEBUFFER_ID = Some tag" "tag \<noteq> NULL"
    and "uint (framebuffer_pitch (info tag)) mod 4 = 0"
    and "8 \<le> uint (framebuffer_width (info tag))" "uint (framebuffer_width (info tag)) < 32000"
    and "16 \<le> uint (framebuffer_height (info tag))" "uint (framebuffer_height (info tag)) < 32000"
    and "4 * uint (framebuffer_width (info tag)) \<le> uint (framebuffer_pitch (info tag))"
    and "int (length (pixels st)) = uint (framebuffer_height (info tag)) * (uint (framebuffer_pitch (info tag)) div 4)"
  shows "\<exists>st'. framebuffer_init font tags info first_tag c st = Some st' \<and> fb_ok st' \<and>
    d_x (ssfn_dst st') = 0 \<and> d_y (ssfn_dst st') = 0 \<and> (\<forall>x y. on_screen st' x y \<longrightarrow> pixel st' x y = c)"
proof -
  let ?i = "info tag"
  define s where "s = st\<lparr>gfx := \<lparr>fb_addr = framebuffer_addr ?i, fb_width = framebuffer_width ?i,
      fb_height = framebuffer_height ?i, fb_pitch = framebuffer_pitch ?i,
      fb_bpp = framebuffer_bpp ?i, glyph_width = 8, glyph_height = 16\<rparr>,
    ssfn_src := Some font,
    ssfn_dst := (ssfn_dst st)\<lparr>d_ptr := framebuffer_addr ?i,
      d_w := to_int16 (uint (framebuffer_width ?i)), d_h := to_int16 (uint (framebuffer_height ?i)),
      d_p := framebuffer_pitch ?i, d_x := 0, d_y := 0\<rparr>\<rparr>"
  have run: "framebuffer_init font tags info first_tag c st = framebuffer_set_background_color c s"
    using assms(1,2) by (simp add: framebuffer_init_def s_def Let_def)
  have dims: "to_int16 (uint (framebuffer_width ?i)) = uint (framebuffer_width ?i)"
    "to_int16 (uint (framebuffer_height ?i)) = uint (framebuffer_height ?i)"
    using assms by (auto intro!: to_int16_small)
  have "uint (framebuffer_width ?i) \<le> uint (framebuffer_pitch ?i) div 4" using assms(8) by linarith
  then have shape: "fb_shape s"
    using assms by (simp add: fb_shape_def s_def width_def height_def stride_def)
  let ?s = "s\<lparr>ssfn_dst := (ssfn_dst s)\<lparr>d_bg := c\<rparr>\<rparr>"
  have ok: "fb_ok ?s"
    using shape assms dims by (simp add: fb_ok_def fb_set_def s_def fb_shape_def width_def height_def stride_def)
  obtain st' where st': "framebuffer_set_background_color c s = Some st'" "repainted ?s st'"
    "\<And>x y. on_screen s x y \<Longrightarrow> pixel st' x y = c"
    using background_painted [OF shape, of c] by blast
  have "on_screen st' = on_screen s"
    using repaintedD(9) [OF st'(2)] by (simp add: on_screen_def width_def height_def fun_eq_iff)
  then show ?thesis
    using run st' repainted_ok [OF ok st'(2)] repaintedD(3) [OF st'(2)] by (simp add: s_def)
qed

end
