(* ===== verification/Port_IO.thy ===== *)
theory Port_IO
  imports Prelude "HOL-Library.State_Monad"
begin

text \<open>
  \<open>libk/io\<close>: the port instructions of the processor. The devices behind the ports are not
  part of the kernel; they are a state \<open>'d\<close> and a \<open>'d bus\<close>, the answer of the devices
  to a read and to a write. Straight-line driver code is a program of the state monad over
  \<open>'d\<close>. \<open>trace_bus\<close> is the bus that records every access and answers from a list.
\<close>

record 'd bus =
  bus_in :: "u16 \<Rightarrow> 'd \<Rightarrow> u8 \<times> 'd"
  bus_out :: "u16 \<Rightarrow> u8 \<Rightarrow> 'd \<Rightarrow> 'd"

definition io_outb :: "'d bus \<Rightarrow> u16 \<Rightarrow> u8 \<Rightarrow> ('d, unit) state" where
  "io_outb bus port value = State (\<lambda>d. ((), bus_out bus port value d))"

definition io_inb :: "'d bus \<Rightarrow> u16 \<Rightarrow> ('d, u8) state" where
  "io_inb bus port = State (bus_in bus port)"

definition io_wait :: "'d bus \<Rightarrow> ('d, unit) state" where
  "io_wait bus = do { _ \<leftarrow> io_inb bus 0x80; State_Monad.return () }"

lemma run_io [simp]:
  "run_state (io_outb bus port value) d = ((), bus_out bus port value d)"
  "run_state (io_inb bus port) d = bus_in bus port d"
  "run_state (io_wait bus) d = ((), snd (bus_in bus 0x80 d))"
  by (simp_all add: io_outb_def io_inb_def io_wait_def split: prod.splits)

lemma run_bind:
  "run_state (do { x \<leftarrow> m; f x }) d = run_state (f (fst (run_state m d))) (snd (run_state m d))"
  by (simp split: prod.splits)

section \<open>The recording bus\<close>

datatype access = In u16 | Out u16 u8

record trace =
  replies :: "u8 list"
  accesses :: "access list"

definition trace_bus :: "trace bus" where
  "trace_bus =
     \<lparr>bus_in = (\<lambda>port d. (case replies d of
          [] \<Rightarrow> (0, d\<lparr>accesses := accesses d @ [In port]\<rparr>)
        | r # rs \<Rightarrow> (r, \<lparr>replies = rs, accesses = accesses d @ [In port]\<rparr>))),
      bus_out = (\<lambda>port v d. d\<lparr>accesses := accesses d @ [Out port v]\<rparr>)\<rparr>"

end
