(* ===== verification/Pic.thy ===== *)
theory Pic
  imports Port_IO
begin

text \<open>
  \<open>devices/pic\<close>: the driver of the two cascaded 8259A interrupt controllers, and the
  controllers themselves as the documentation describes them (initialisation words, mask
  register, end of interrupt), against which the driver is verified. \<open>1 << irq_line\<close> is a
  signed shift: it is undefined from 31 on.
\<close>

section \<open>The driver\<close>

definition PIC1_COMMAND :: u16 where "PIC1_COMMAND = 0x20"
definition PIC1_DATA :: u16 where "PIC1_DATA = PIC1_COMMAND + 1"
definition PIC2_COMMAND :: u16 where "PIC2_COMMAND = 0xA0"
definition PIC2_DATA :: u16 where "PIC2_DATA = PIC2_COMMAND + 1"
definition ICW4_8086 :: u8 where "ICW4_8086 = 0x01"

definition pic_disable :: "'d bus \<Rightarrow> ('d, unit) state" where
  "pic_disable bus = do {
     io_outb bus PIC2_DATA 0xFF;
     io_outb bus PIC1_DATA 0xFF
   }"

definition pic_remap :: "'d bus \<Rightarrow> ('d, unit) state" where
  "pic_remap bus = do {
     mask1 \<leftarrow> io_inb bus PIC1_DATA;
     mask2 \<leftarrow> io_inb bus PIC2_DATA;
     io_outb bus PIC1_COMMAND 0x11;
     io_outb bus PIC2_COMMAND 0x11;
     io_wait bus;
     io_outb bus PIC1_DATA 0x20;
     io_outb bus PIC2_DATA 0x28;
     io_wait bus;
     io_outb bus PIC1_DATA 0x04;
     io_outb bus PIC2_DATA 0x02;
     io_wait bus;
     io_outb bus PIC1_DATA 0x01;
     io_outb bus PIC2_DATA 0x01;
     io_wait bus;
     io_outb bus PIC1_DATA 0x00;
     io_outb bus PIC2_DATA 0x00;
     io_wait bus;
     io_outb bus PIC1_DATA ICW4_8086;
     io_wait bus;
     io_outb bus PIC2_DATA ICW4_8086;
     io_wait bus;
     io_outb bus PIC1_DATA mask1;
     io_outb bus PIC2_DATA mask2
   }"

text \<open>The port and the bit of a line, as both mask operations compute them.\<close>

definition line_port :: "u8 \<Rightarrow> u16 \<times> u8" where
  "line_port irq_line =
     (if irq_line < 8 then (PIC1_DATA, irq_line) else (PIC2_DATA, irq_line - 8))"

definition pic_set_mask :: "'d bus \<Rightarrow> u8 \<Rightarrow> 'd \<Rightarrow> 'd option" where
  "pic_set_mask bus irq_line d =
     (let (port, irq_line) = line_port irq_line
      in if unat irq_line < 31
         then Some (snd (run_state (do {
           v \<leftarrow> io_inb bus port;
           io_outb bus port (v OR ucast (push_bit (unat irq_line) 1 :: u32))
         }) d))
         else None)"

definition pic_clear_mask :: "'d bus \<Rightarrow> u8 \<Rightarrow> 'd \<Rightarrow> 'd option" where
  "pic_clear_mask bus irq_line d =
     (let (port, irq_line) = line_port irq_line
      in if unat irq_line < 31
         then Some (snd (run_state (do {
           v \<leftarrow> io_inb bus port;
           io_outb bus port (v AND ucast (NOT (push_bit (unat irq_line) 1 :: u32)))
         }) d))
         else None)"

definition pic_signal_EOI :: "'d bus \<Rightarrow> u64 \<Rightarrow> ('d, unit) state" where
  "pic_signal_EOI bus isr_number = do {
     (if isr_number \<ge> 40 then io_outb bus PIC2_COMMAND 0x20 else State_Monad.return ());
     io_outb bus PIC1_COMMAND 0x20
   }"

section \<open>The controller\<close>

text \<open>
  \<open>icw\<close> is the number of the initialisation word that the data port expects, 0 outside
  an initialisation.
\<close>

record pic8259 =
  imr :: u8
  vector_base :: u8
  cascade :: u8
  mode :: u8
  in_service :: u8
  icw :: nat
  wants_icw4 :: bool

definition pic_command :: "u8 \<Rightarrow> pic8259 \<Rightarrow> pic8259" where
  "pic_command v p =
     (if bit v 4 then p\<lparr>imr := 0, icw := 2, wants_icw4 := bit v 0\<rparr>
      else if bit v 3 then p
      else if drop_bit 5 v = 1 then p\<lparr>in_service := in_service p AND (in_service p - 1)\<rparr>
      else p)"

definition pic_data :: "u8 \<Rightarrow> pic8259 \<Rightarrow> pic8259" where
  "pic_data v p =
     (if icw p = 2 then p\<lparr>vector_base := v AND 0xF8, icw := 3\<rparr>
      else if icw p = 3 then p\<lparr>cascade := v, icw := (if wants_icw4 p then 4 else 0)\<rparr>
      else if icw p = 4 then p\<lparr>mode := v, icw := 0\<rparr>
      else p\<lparr>imr := v\<rparr>)"

text \<open>The two controllers on the bus; \<open>unused\<close> is what a read of any other port returns.\<close>

record pics =
  master :: pic8259
  slave :: pic8259
  unused :: u8

definition pics_bus :: "pics bus" where
  "pics_bus =
     \<lparr>bus_in = (\<lambda>port d.
        (if port = 0x21 then imr (master d) else if port = 0xA1 then imr (slave d) else unused d, d)),
      bus_out = (\<lambda>port v d.
        (if port = 0x20 then d\<lparr>master := pic_command v (master d)\<rparr>
         else if port = 0x21 then d\<lparr>master := pic_data v (master d)\<rparr>
         else if port = 0xA0 then d\<lparr>slave := pic_command v (slave d)\<rparr>
         else if port = 0xA1 then d\<lparr>slave := pic_data v (slave d)\<rparr>
         else d))\<rparr>"

lemmas ports = PIC1_COMMAND_def PIC1_DATA_def PIC2_COMMAND_def PIC2_DATA_def ICW4_8086_def

lemma pics_bus_in:
  "bus_in pics_bus 0x21 d = (imr (master d), d)"
  "bus_in pics_bus 0xA1 d = (imr (slave d), d)"
  "bus_in pics_bus 0x80 d = (unused d, d)"
  by (simp_all add: pics_bus_def)

lemma pics_bus_out:
  "bus_out pics_bus 0x20 v d = d\<lparr>master := pic_command v (master d)\<rparr>"
  "bus_out pics_bus 0x21 v d = d\<lparr>master := pic_data v (master d)\<rparr>"
  "bus_out pics_bus 0xA0 v d = d\<lparr>slave := pic_command v (slave d)\<rparr>"
  "bus_out pics_bus 0xA1 v d = d\<lparr>slave := pic_data v (slave d)\<rparr>"
  by (simp_all add: pics_bus_def)

section \<open>Lines\<close>

text \<open>The interrupt vector that a line of the pair raises, if it is not masked.\<close>

definition line_vector :: "pics \<Rightarrow> nat \<Rightarrow> u8" where
  "line_vector d k = (if k < 8 then vector_base (master d) + of_nat k else vector_base (slave d) + of_nat (k - 8))"

definition masked :: "pics \<Rightarrow> nat \<Rightarrow> bool" where
  "masked d k = (if k < 8 then bit (imr (master d)) k else bit (imr (slave d)) (k - 8))"

definition operational :: "pics \<Rightarrow> bool" where
  "operational d \<longleftrightarrow> icw (master d) = 0 \<and> icw (slave d) = 0"

lemma pic_remap_run:
  "run_state (pic_remap pics_bus) d = ((), d\<lparr>
     master := (master d)\<lparr>vector_base := 0x20, cascade := 4, mode := 1, icw := 0, wants_icw4 := True\<rparr>,
     slave := (slave d)\<lparr>vector_base := 0x28, cascade := 2, mode := 1, icw := 0, wants_icw4 := True\<rparr>\<rparr>)"
  by (simp add: pic_remap_def ports run_bind pics_bus_in pics_bus_out pic_command_def pic_data_def
      del: run_state_bind)

lemma line_port_low:
  assumes "irq < 16"
  shows "line_port irq = (if irq < 8 then (0x21, irq) else (0xA1, irq - 8))"
    and "unat (snd (line_port irq)) < 8" and "unat irq < 16"
    and "\<not> irq < 8 \<Longrightarrow> unat irq = unat (irq - 8) + 8"
proof -
  show n: "unat irq < 16" using assms by (simp add: word_less_nat_alt)
  show "line_port irq = (if irq < 8 then (0x21, irq) else (0xA1, irq - 8))"
    by (simp add: line_port_def ports)
  show rest: "unat irq = unat (irq - 8) + 8" if "\<not> irq < 8"
    using that by (simp add: not_less unat_sub word_le_nat_alt)
  show "unat (snd (line_port irq)) < 8"
    using n rest by (auto simp: line_port_def word_less_nat_alt)
qed

lemma line_bit: "i < 8 \<Longrightarrow> bit (ucast (2 ^ i :: u32) :: u8) k = (k = i)"
  "i < 8 \<Longrightarrow> k < 8 \<Longrightarrow> bit (ucast (NOT (2 ^ i :: u32)) :: u8) k = (k \<noteq> i)"
  by (auto simp: bit_simps)

lemma bit_all_ones: "k < 8 \<Longrightarrow> bit (0xFF :: int) k"
proof -
  assume "k < 8"
  moreover have "(0xFF :: int) = mask 8" by (simp add: mask_eq_exp_minus_1)
  ultimately show ?thesis by (simp only: bit_mask_iff) simp
qed

lemma u8_bit_less: "bit (w :: u8) k \<Longrightarrow> k < 8"
  using bit_imp_le_length [of w k] by simp

lemma pic_data_operational: "icw p = 0 \<Longrightarrow> pic_data v p = p\<lparr>imr := v\<rparr>"
  by (simp add: pic_data_def)

lemma set_mask_run:
  assumes "irq < 16" "operational d"
  shows "pic_set_mask pics_bus irq d = Some (if irq < 8
      then d\<lparr>master := (master d)\<lparr>imr := imr (master d) OR ucast (push_bit (unat irq) 1 :: u32)\<rparr>\<rparr>
      else d\<lparr>slave := (slave d)\<lparr>imr := imr (slave d) OR ucast (push_bit (unat (irq - 8)) 1 :: u32)\<rparr>\<rparr>)"
    and "pic_clear_mask pics_bus irq d = Some (if irq < 8
      then d\<lparr>master := (master d)\<lparr>imr := imr (master d) AND ucast (NOT (push_bit (unat irq) 1 :: u32))\<rparr>\<rparr>
      else d\<lparr>slave := (slave d)\<lparr>imr := imr (slave d) AND ucast (NOT (push_bit (unat (irq - 8)) 1 :: u32))\<rparr>\<rparr>)"
proof -
  note low = line_port_low [OF assms(1)]
  have defined: "unat (snd (line_port irq)) < 31" using low(2) by simp
  show "pic_set_mask pics_bus irq d = Some (if irq < 8
      then d\<lparr>master := (master d)\<lparr>imr := imr (master d) OR ucast (push_bit (unat irq) 1 :: u32)\<rparr>\<rparr>
      else d\<lparr>slave := (slave d)\<lparr>imr := imr (slave d) OR ucast (push_bit (unat (irq - 8)) 1 :: u32)\<rparr>\<rparr>)"
    using assms(2) defined unfolding low(1) by (cases "irq < 8")
      (simp_all add: pic_set_mask_def low(1) pics_bus_in pics_bus_out pic_data_operational operational_def)
  show "pic_clear_mask pics_bus irq d = Some (if irq < 8
      then d\<lparr>master := (master d)\<lparr>imr := imr (master d) AND ucast (NOT (push_bit (unat irq) 1 :: u32))\<rparr>\<rparr>
      else d\<lparr>slave := (slave d)\<lparr>imr := imr (slave d) AND ucast (NOT (push_bit (unat (irq - 8)) 1 :: u32))\<rparr>\<rparr>)"
    using assms(2) defined unfolding low(1) by (cases "irq < 8")
      (simp_all add: pic_clear_mask_def low(1) pics_bus_in pics_bus_out pic_data_operational operational_def)
qed

lemma remap_facts:
  assumes "run_state (pic_remap pics_bus) d = (u, d')"
  shows "operational d'" and "k < 16 \<Longrightarrow> line_vector d' k = of_nat (32 + k)"
    and "cascade (master d') = 4" "cascade (slave d') = 2" and "masked d' k = masked d k"
proof -
  have d': "d' = d\<lparr>
     master := (master d)\<lparr>vector_base := 0x20, cascade := 4, mode := 1, icw := 0, wants_icw4 := True\<rparr>,
     slave := (slave d)\<lparr>vector_base := 0x28, cascade := 2, mode := 1, icw := 0, wants_icw4 := True\<rparr>\<rparr>"
    using assms by (simp add: pic_remap_run)
  have "(0x28 :: u8) + of_nat (k - 8) = of_nat (32 + k)" if "\<not> k < 8"
    using that by (simp add: of_nat_diff)
  then show "k < 16 \<Longrightarrow> line_vector d' k = of_nat (32 + k)"
    by (auto simp: line_vector_def d')
  show "operational d'" "cascade (master d') = 4" "cascade (slave d') = 2" "masked d' k = masked d k"
    by (simp_all add: operational_def masked_def d')
qed

lemma line_index:
  assumes "(irq :: u8) < 16"
  shows "irq < 8 \<Longrightarrow> unat irq < 8" and "\<not> irq < 8 \<Longrightarrow> unat (irq - 8) < 8 \<and> unat irq = unat (irq - 8) + 8"
    and "k < 8 \<Longrightarrow> \<not> irq < 8 \<Longrightarrow> k \<noteq> unat irq" and "\<not> k < 8 \<Longrightarrow> irq < 8 \<Longrightarrow> k \<noteq> unat irq"
    and "\<not> k < 8 \<Longrightarrow> \<not> irq < 8 \<Longrightarrow> (k - 8 = unat (irq - 8)) = (k = unat irq)"
  using line_port_low [OF assms] by (auto simp: word_less_nat_alt)

lemma set_mask_facts:
  assumes "irq < 16" "operational d"
  shows "\<exists>d'. pic_set_mask pics_bus irq d = Some d' \<and> operational d' \<and>
      (\<forall>k. masked d' k \<longleftrightarrow> k = unat irq \<or> masked d k) \<and> (\<forall>k. line_vector d' k = line_vector d k)"
proof -
  have "masked (if irq < 8
      then d\<lparr>master := (master d)\<lparr>imr := imr (master d) OR ucast (push_bit (unat irq) 1 :: u32)\<rparr>\<rparr>
      else d\<lparr>slave := (slave d)\<lparr>imr := imr (slave d) OR ucast (push_bit (unat (irq - 8)) 1 :: u32)\<rparr>\<rparr>) k
      \<longleftrightarrow> k = unat irq \<or> masked d k" for k
    using line_index [OF assms(1)] line_index(3-5) [OF assms(1), of k]
    by (auto simp: masked_def bit_or_iff line_bit)
  then show ?thesis
    using assms(2) by (simp add: set_mask_run [OF assms] operational_def line_vector_def)
qed

lemma clear_mask_facts:
  assumes "irq < 16" "operational d"
  shows "\<exists>d'. pic_clear_mask pics_bus irq d = Some d' \<and> operational d' \<and>
      (\<forall>k. masked d' k \<longleftrightarrow> k \<noteq> unat irq \<and> masked d k)"
proof -
  have "masked (if irq < 8
      then d\<lparr>master := (master d)\<lparr>imr := imr (master d) AND ucast (NOT (push_bit (unat irq) 1 :: u32))\<rparr>\<rparr>
      else d\<lparr>slave := (slave d)\<lparr>imr := imr (slave d) AND ucast (NOT (push_bit (unat (irq - 8)) 1 :: u32))\<rparr>\<rparr>) k
      \<longleftrightarrow> k \<noteq> unat irq \<and> masked d k" for k
    using line_index [OF assms(1)] line_index(3-5) [OF assms(1), of k]
    by (auto simp: masked_def bit_and_iff line_bit dest: u8_bit_less)
  then show ?thesis
    using assms(2) by (simp add: set_mask_run [OF assms] operational_def)
qed

text \<open>All lines are masked, and nothing else changes.\<close>

lemma disabled_masks:
  assumes "operational d" "k < 16"
  shows "masked (snd (run_state (pic_disable pics_bus) d)) k"
    and "line_vector (snd (run_state (pic_disable pics_bus) d)) k = line_vector d k"
  using assms
  by (auto simp: pic_disable_def ports pics_bus_out pic_data_operational operational_def masked_def line_vector_def bit_all_ones)

section \<open>Properties\<close>

text \<open>C30: after \<open>pic_remap\<close> both controllers are out of their initialisation, line \<open>k\<close>
  raises vector \<open>32 + k\<close>, the slave is cascaded on line 2, and exactly the lines masked before
  are masked, whatever state the controllers were in.\<close>

theorem pic_remap_correct:
  assumes "run_state (pic_remap pics_bus) d = (u, d')"
  shows "operational d' \<and> (\<forall>k < 16. line_vector d' k = of_nat (32 + k)) \<and>
    cascade (master d') = 4 \<and> cascade (slave d') = 2 \<and> (\<forall>k. masked d' k = masked d k)"
  using remap_facts [OF assms] by blast

definition reset_pic :: pic8259 where
  "reset_pic = \<lparr>imr = 0xB8, vector_base = 8, cascade = 0, mode = 0, in_service = 0, icw = 0, wants_icw4 = False\<rparr>"

theorem pic_remap_correct_witness:
  "line_vector (snd (run_state (pic_remap pics_bus) \<lparr>master = reset_pic, slave = reset_pic, unused = 0\<rparr>)) 9 = 41"
  using pic_remap_correct [OF prod.collapse [symmetric],
      of "\<lparr>master = reset_pic, slave = reset_pic, unused = 0\<rparr>"] by simp

text \<open>For each of the sixteen lines \<open>pic_set_mask\<close> masks this line and
  \<open>pic_clear_mask\<close> unmasks it; every other line keeps its mask. \<open>pic_disable\<close> masks all.\<close>

theorem pic_masks_correct:
  assumes "irq < 16" "operational d"
  shows "(\<exists>d'. pic_set_mask pics_bus irq d = Some d' \<and> operational d' \<and>
      (\<forall>k. masked d' k \<longleftrightarrow> k = unat irq \<or> masked d k)) \<and>
    (\<exists>d'. pic_clear_mask pics_bus irq d = Some d' \<and> operational d' \<and>
      (\<forall>k. masked d' k \<longleftrightarrow> k \<noteq> unat irq \<and> masked d k)) \<and>
    masked (snd (run_state (pic_disable pics_bus) d)) (unat irq)"
proof -
  have "masked (snd (run_state (pic_disable pics_bus) d)) (unat irq)"
    using assms(2) line_index [OF assms(1)] line_port_low(3) [OF assms(1)]
    by (auto simp: pic_disable_def ports pics_bus_out pic_data_operational operational_def masked_def bit_all_ones)
  then show ?thesis
    using set_mask_facts [OF assms] clear_mask_facts [OF assms] by blast
qed

theorem pic_masks_correct_witness:
  "operational \<lparr>master = reset_pic, slave = reset_pic, unused = 0\<rparr> \<and>
   masked (snd (run_state (pic_disable pics_bus) \<lparr>master = reset_pic, slave = reset_pic, unused = 0\<rparr>)) 9"
proof -
  have "operational \<lparr>master = reset_pic, slave = reset_pic, unused = 0\<rparr>" by code_simp
  moreover have "unat (9 :: u8) = 9" by simp
  ultimately show ?thesis
    using pic_masks_correct [of 9 "\<lparr>master = reset_pic, slave = reset_pic, unused = 0\<rparr>"] by simp
qed

end
