(* ===== verification/Keyboard.thy ===== *)
theory Keyboard
  imports Pic
begin

text \<open>
  \<open>devices/ps2/keyboard\<close>: the key codes, the translation of scan codes, the interrupt
  handler with its modifier state, and the commands to the controller. The pointer to the
  function that receives the keys is an \<open>'h option\<close> (\<open>None\<close> is the null pointer it starts
  as); the interrupt handler returns the call that it makes. A read past the end of the scan code
  table and a call through the null pointer are undefined.
\<close>

named_theorems keycodes

section \<open>Key codes\<close>

definition KEY_SPACE :: u32 where [keycodes]: "KEY_SPACE = 32"
definition KEY_0 :: u32 where [keycodes]: "KEY_0 = 48"
definition KEY_1 :: u32 where [keycodes]: "KEY_1 = 49"
definition KEY_2 :: u32 where [keycodes]: "KEY_2 = 50"
definition KEY_3 :: u32 where [keycodes]: "KEY_3 = 51"
definition KEY_4 :: u32 where [keycodes]: "KEY_4 = 52"
definition KEY_5 :: u32 where [keycodes]: "KEY_5 = 53"
definition KEY_6 :: u32 where [keycodes]: "KEY_6 = 54"
definition KEY_7 :: u32 where [keycodes]: "KEY_7 = 55"
definition KEY_8 :: u32 where [keycodes]: "KEY_8 = 56"
definition KEY_9 :: u32 where [keycodes]: "KEY_9 = 57"
definition KEY_A :: u32 where [keycodes]: "KEY_A = 97"
definition KEY_B :: u32 where [keycodes]: "KEY_B = 98"
definition KEY_C :: u32 where [keycodes]: "KEY_C = 99"
definition KEY_D :: u32 where [keycodes]: "KEY_D = 100"
definition KEY_E :: u32 where [keycodes]: "KEY_E = 101"
definition KEY_F :: u32 where [keycodes]: "KEY_F = 102"
definition KEY_G :: u32 where [keycodes]: "KEY_G = 103"
definition KEY_H :: u32 where [keycodes]: "KEY_H = 104"
definition KEY_I :: u32 where [keycodes]: "KEY_I = 105"
definition KEY_J :: u32 where [keycodes]: "KEY_J = 106"
definition KEY_K :: u32 where [keycodes]: "KEY_K = 107"
definition KEY_L :: u32 where [keycodes]: "KEY_L = 108"
definition KEY_M :: u32 where [keycodes]: "KEY_M = 109"
definition KEY_N :: u32 where [keycodes]: "KEY_N = 110"
definition KEY_O :: u32 where [keycodes]: "KEY_O = 111"
definition KEY_P :: u32 where [keycodes]: "KEY_P = 112"
definition KEY_Q :: u32 where [keycodes]: "KEY_Q = 113"
definition KEY_R :: u32 where [keycodes]: "KEY_R = 114"
definition KEY_S :: u32 where [keycodes]: "KEY_S = 115"
definition KEY_T :: u32 where [keycodes]: "KEY_T = 116"
definition KEY_U :: u32 where [keycodes]: "KEY_U = 117"
definition KEY_V :: u32 where [keycodes]: "KEY_V = 118"
definition KEY_W :: u32 where [keycodes]: "KEY_W = 119"
definition KEY_X :: u32 where [keycodes]: "KEY_X = 120"
definition KEY_Y :: u32 where [keycodes]: "KEY_Y = 121"
definition KEY_Z :: u32 where [keycodes]: "KEY_Z = 122"
definition KEY_RETURN :: u32 where [keycodes]: "KEY_RETURN = 13"
definition KEY_ESCAPE :: u32 where [keycodes]: "KEY_ESCAPE = 0x1001"
definition KEY_BACKSPACE :: u32 where [keycodes]: "KEY_BACKSPACE = 8"
definition KEY_UP :: u32 where [keycodes]: "KEY_UP = 0x1100"
definition KEY_DOWN :: u32 where [keycodes]: "KEY_DOWN = 0x1101"
definition KEY_LEFT :: u32 where [keycodes]: "KEY_LEFT = 0x1102"
definition KEY_RIGHT :: u32 where [keycodes]: "KEY_RIGHT = 0x1103"
definition KEY_F1 :: u32 where [keycodes]: "KEY_F1 = 0x1201"
definition KEY_F2 :: u32 where [keycodes]: "KEY_F2 = 0x1202"
definition KEY_F3 :: u32 where [keycodes]: "KEY_F3 = 0x1203"
definition KEY_F4 :: u32 where [keycodes]: "KEY_F4 = 0x1204"
definition KEY_F5 :: u32 where [keycodes]: "KEY_F5 = 0x1205"
definition KEY_F6 :: u32 where [keycodes]: "KEY_F6 = 0x1206"
definition KEY_F7 :: u32 where [keycodes]: "KEY_F7 = 0x1207"
definition KEY_F8 :: u32 where [keycodes]: "KEY_F8 = 0x1208"
definition KEY_F9 :: u32 where [keycodes]: "KEY_F9 = 0x1209"
definition KEY_F10 :: u32 where [keycodes]: "KEY_F10 = 0x120a"
definition KEY_F11 :: u32 where [keycodes]: "KEY_F11 = 0x120b"
definition KEY_F12 :: u32 where [keycodes]: "KEY_F12 = 0x120b"
definition KEY_F13 :: u32 where [keycodes]: "KEY_F13 = 0x120c"
definition KEY_F14 :: u32 where [keycodes]: "KEY_F14 = 0x120d"
definition KEY_F15 :: u32 where [keycodes]: "KEY_F15 = 0x120e"
definition KEY_DOT :: u32 where [keycodes]: "KEY_DOT = 46"
definition KEY_COMMA :: u32 where [keycodes]: "KEY_COMMA = 44"
definition KEY_COLON :: u32 where [keycodes]: "KEY_COLON = 58"
definition KEY_SEMICOLON :: u32 where [keycodes]: "KEY_SEMICOLON = 59"
definition KEY_SLASH :: u32 where [keycodes]: "KEY_SLASH = 47"
definition KEY_BACKSLASH :: u32 where [keycodes]: "KEY_BACKSLASH = 92"
definition KEY_PLUS :: u32 where [keycodes]: "KEY_PLUS = 43"
definition KEY_MINUS :: u32 where [keycodes]: "KEY_MINUS = 45"
definition KEY_ASTERISK :: u32 where [keycodes]: "KEY_ASTERISK = 42"
definition KEY_EXCLAMATION :: u32 where [keycodes]: "KEY_EXCLAMATION = 33"
definition KEY_QUESTION :: u32 where [keycodes]: "KEY_QUESTION = 63"
definition KEY_QUOTEDOUBLE :: u32 where [keycodes]: "KEY_QUOTEDOUBLE = 34"
definition KEY_QUOTE :: u32 where [keycodes]: "KEY_QUOTE = 39"
definition KEY_EQUAL :: u32 where [keycodes]: "KEY_EQUAL = 61"
definition KEY_HASH :: u32 where [keycodes]: "KEY_HASH = 35"
definition KEY_PERCENT :: u32 where [keycodes]: "KEY_PERCENT = 37"
definition KEY_AMPERSAND :: u32 where [keycodes]: "KEY_AMPERSAND = 38"
definition KEY_UNDERSCORE :: u32 where [keycodes]: "KEY_UNDERSCORE = 95"
definition KEY_LEFTPARENTHESIS :: u32 where [keycodes]: "KEY_LEFTPARENTHESIS = 40"
definition KEY_RIGHTPARENTHESIS :: u32 where [keycodes]: "KEY_RIGHTPARENTHESIS = 41"
definition KEY_LEFTBRACKET :: u32 where [keycodes]: "KEY_LEFTBRACKET = 91"
definition KEY_RIGHTBRACKET :: u32 where [keycodes]: "KEY_RIGHTBRACKET = 93"
definition KEY_LEFTCURL :: u32 where [keycodes]: "KEY_LEFTCURL = 123"
definition KEY_RIGHTCURL :: u32 where [keycodes]: "KEY_RIGHTCURL = 125"
definition KEY_DOLLAR :: u32 where [keycodes]: "KEY_DOLLAR = 36"
definition KEY_POUND :: u32 where [keycodes]: "KEY_POUND = 36"
definition KEY_EURO :: u32 where [keycodes]: "KEY_EURO = 36"
definition KEY_LESS :: u32 where [keycodes]: "KEY_LESS = 60"
definition KEY_GREATER :: u32 where [keycodes]: "KEY_GREATER = 62"
definition KEY_BAR :: u32 where [keycodes]: "KEY_BAR = 124"
definition KEY_GRAVE :: u32 where [keycodes]: "KEY_GRAVE = 96"
definition KEY_TILDE :: u32 where [keycodes]: "KEY_TILDE = 126"
definition KEY_AT :: u32 where [keycodes]: "KEY_AT = 64"
definition KEY_CARRET :: u32 where [keycodes]: "KEY_CARRET = 94"
definition KEY_KP_0 :: u32 where [keycodes]: "KEY_KP_0 = 48"
definition KEY_KP_1 :: u32 where [keycodes]: "KEY_KP_1 = 49"
definition KEY_KP_2 :: u32 where [keycodes]: "KEY_KP_2 = 50"
definition KEY_KP_3 :: u32 where [keycodes]: "KEY_KP_3 = 51"
definition KEY_KP_4 :: u32 where [keycodes]: "KEY_KP_4 = 52"
definition KEY_KP_5 :: u32 where [keycodes]: "KEY_KP_5 = 53"
definition KEY_KP_6 :: u32 where [keycodes]: "KEY_KP_6 = 54"
definition KEY_KP_7 :: u32 where [keycodes]: "KEY_KP_7 = 55"
definition KEY_KP_8 :: u32 where [keycodes]: "KEY_KP_8 = 56"
definition KEY_KP_9 :: u32 where [keycodes]: "KEY_KP_9 = 57"
definition KEY_KP_PLUS :: u32 where [keycodes]: "KEY_KP_PLUS = 43"
definition KEY_KP_MINUS :: u32 where [keycodes]: "KEY_KP_MINUS = 45"
definition KEY_KP_DECIMAL :: u32 where [keycodes]: "KEY_KP_DECIMAL = 46"
definition KEY_KP_DIVIDE :: u32 where [keycodes]: "KEY_KP_DIVIDE = 47"
definition KEY_KP_ASTERISK :: u32 where [keycodes]: "KEY_KP_ASTERISK = 42"
definition KEY_KP_NUMLOCK :: u32 where [keycodes]: "KEY_KP_NUMLOCK = 0x300f"
definition KEY_KP_ENTER :: u32 where [keycodes]: "KEY_KP_ENTER = 0x3010"
definition KEY_TAB :: u32 where [keycodes]: "KEY_TAB = 9"
definition KEY_CAPSLOCK :: u32 where [keycodes]: "KEY_CAPSLOCK = 0x4001"
definition KEY_LSHIFT :: u32 where [keycodes]: "KEY_LSHIFT = 0x4002"
definition KEY_LCTRL :: u32 where [keycodes]: "KEY_LCTRL = 0x4003"
definition KEY_LALT :: u32 where [keycodes]: "KEY_LALT = 0x4004"
definition KEY_LWIN :: u32 where [keycodes]: "KEY_LWIN = 0x4005"
definition KEY_RSHIFT :: u32 where [keycodes]: "KEY_RSHIFT = 0x4006"
definition KEY_RCTRL :: u32 where [keycodes]: "KEY_RCTRL = 0x4007"
definition KEY_RALT :: u32 where [keycodes]: "KEY_RALT = 0x4008"
definition KEY_RWIN :: u32 where [keycodes]: "KEY_RWIN = 0x4009"
definition KEY_INSERT :: u32 where [keycodes]: "KEY_INSERT = 0x400a"
definition KEY_DELETE :: u32 where [keycodes]: "KEY_DELETE = 0x400b"
definition KEY_HOME :: u32 where [keycodes]: "KEY_HOME = 0x400c"
definition KEY_END :: u32 where [keycodes]: "KEY_END = 0x400d"
definition KEY_PAGEUP :: u32 where [keycodes]: "KEY_PAGEUP = 0x400e"
definition KEY_PAGEDOWN :: u32 where [keycodes]: "KEY_PAGEDOWN = 0x400f"
definition KEY_SCROLLLOCK :: u32 where [keycodes]: "KEY_SCROLLLOCK = 0x4010"
definition KEY_PAUSE :: u32 where [keycodes]: "KEY_PAUSE = 0x4011"
definition KEY_UNKNOWN :: u32 where [keycodes]: "KEY_UNKNOWN = 0x4012"
definition KEY_NUMKEYCODES :: u32 where [keycodes]: "KEY_NUMKEYCODES = 0x4013"

record KEY_INFO_t =
  keycode :: u32
  ascii_character :: u8

section \<open>State\<close>

definition KB_CONTROLLER_DATA :: u16 where "KB_CONTROLLER_DATA = 0x60"
definition KB_CONTROLLER_COMMAND :: u16 where "KB_CONTROLLER_COMMAND = 0x64"

record 'h keyboard =
  is_keyboard_active :: u8
  final_handler :: "'h option"
  ctrl :: u8
  alt :: u8
  shift :: u8
  capslock :: u8
  numlock :: u8
  scrolllock :: u8

definition keyboard_boot :: "'h keyboard" where
  "keyboard_boot = \<lparr>is_keyboard_active = 0, final_handler = None, ctrl = 0, alt = 0, shift = 0,
     capslock = 0, numlock = 0, scrolllock = 0\<rparr>"

definition standard_keycodes :: "u32 list" where
  "standard_keycodes =
    [KEY_UNKNOWN, KEY_ESCAPE, KEY_1, KEY_2, KEY_3, KEY_4, KEY_5, KEY_6, KEY_7, KEY_8, KEY_9, KEY_0,
     KEY_MINUS, KEY_EQUAL, KEY_BACKSPACE, KEY_TAB, KEY_Q, KEY_W, KEY_E, KEY_R, KEY_T, KEY_Y, KEY_U,
     KEY_I, KEY_O, KEY_P, KEY_LEFTBRACKET, KEY_RIGHTBRACKET, KEY_RETURN, KEY_LCTRL, KEY_A, KEY_S,
     KEY_D, KEY_F, KEY_G, KEY_H, KEY_J, KEY_K, KEY_L, KEY_SEMICOLON, KEY_QUOTE, KEY_GRAVE,
     KEY_LSHIFT, KEY_BACKSLASH, KEY_Z, KEY_X, KEY_C, KEY_V, KEY_B, KEY_N, KEY_M, KEY_COMMA,
     KEY_DOT, KEY_SLASH, KEY_RSHIFT, KEY_KP_ASTERISK, KEY_RALT, KEY_SPACE, KEY_CAPSLOCK, KEY_F1,
     KEY_F2, KEY_F3, KEY_F4, KEY_F5, KEY_F6, KEY_F7, KEY_F8, KEY_F9, KEY_F10, KEY_KP_NUMLOCK,
     KEY_SCROLLLOCK, KEY_HOME, KEY_KP_8, KEY_PAGEUP, KEY_KP_2, KEY_KP_3, KEY_KP_0, KEY_KP_DECIMAL,
     KEY_UNKNOWN, KEY_UNKNOWN, KEY_UNKNOWN, KEY_F11, KEY_F12]"

definition scancode_key :: "u8 \<Rightarrow> u32 option" where
  "scancode_key scancode =
     (if unat scancode < length standard_keycodes then Some (standard_keycodes ! unat scancode) else None)"

section \<open>Translation to characters\<close>

definition shift_symbol :: "u8 \<Rightarrow> u8" where
  "shift_symbol character =
     (if character = 48 then ucast KEY_RIGHTPARENTHESIS
      else if character = 49 then ucast KEY_EXCLAMATION
      else if character = 50 then ucast KEY_AT
      else if character = 51 then ucast KEY_HASH
      else if character = 52 then ucast KEY_DOLLAR
      else if character = 53 then ucast KEY_PERCENT
      else if character = 54 then ucast KEY_CARRET
      else if character = 55 then ucast KEY_AMPERSAND
      else if character = 56 then ucast KEY_ASTERISK
      else if character = 57 then ucast KEY_LEFTPARENTHESIS
      else if character = ucast KEY_COMMA then ucast KEY_LESS
      else if character = ucast KEY_DOT then ucast KEY_GREATER
      else if character = ucast KEY_SLASH then ucast KEY_QUESTION
      else if character = ucast KEY_SEMICOLON then ucast KEY_COLON
      else if character = ucast KEY_QUOTE then ucast KEY_QUOTEDOUBLE
      else if character = ucast KEY_LEFTBRACKET then ucast KEY_LEFTCURL
      else if character = ucast KEY_RIGHTBRACKET then ucast KEY_RIGHTCURL
      else if character = ucast KEY_GRAVE then ucast KEY_TILDE
      else if character = ucast KEY_MINUS then ucast KEY_UNDERSCORE
      else if character = ucast KEY_EQUAL then ucast KEY_PLUS
      else if character = ucast KEY_BACKSLASH then ucast KEY_BAR
      else character)"

definition keycode_to_ascii :: "'h keyboard \<Rightarrow> u32 \<Rightarrow> u8" where
  "keycode_to_ascii kb key =
     (let character = ucast key in
      if shift kb \<noteq> 0 \<and> capslock kb \<noteq> 0 then shift_symbol character
      else if shift kb \<noteq> 0 \<and> capslock kb = 0 then
        (let character = (if character \<ge> 97 \<and> character \<le> 122 then character - 32 else character)
         in shift_symbol character)
      else if shift kb = 0 \<and> capslock kb \<noteq> 0 then
        (if character \<ge> 97 \<and> character \<le> 122 then character - 32 else character)
      else character)"

section \<open>The interrupt handler\<close>

definition release_key :: "u32 \<Rightarrow> 'h keyboard \<Rightarrow> 'h keyboard" where
  "release_key key kb =
     (if key = KEY_LCTRL \<or> key = KEY_RCTRL then kb\<lparr>ctrl := 0\<rparr>
      else if key = KEY_LALT \<or> key = KEY_RALT then kb\<lparr>alt := 0\<rparr>
      else if key = KEY_LSHIFT \<or> key = KEY_RSHIFT then kb\<lparr>shift := 0\<rparr>
      else kb)"

definition press_key :: "u32 \<Rightarrow> 'h keyboard \<Rightarrow> 'h keyboard \<times> u8" where
  "press_key key kb =
     (if key = KEY_LCTRL \<or> key = KEY_RCTRL then (kb\<lparr>ctrl := 1\<rparr>, 0)
      else if key = KEY_LALT \<or> key = KEY_RALT then (kb\<lparr>alt := 1\<rparr>, 0)
      else if key = KEY_LSHIFT \<or> key = KEY_RSHIFT then (kb\<lparr>shift := 1\<rparr>, 0)
      else if key = KEY_CAPSLOCK then (kb\<lparr>capslock := (if capslock kb \<noteq> 0 then 0 else 1)\<rparr>, 0)
      else if key = KEY_KP_NUMLOCK then (kb\<lparr>numlock := (if numlock kb \<noteq> 0 then 0 else 1)\<rparr>, 0)
      else if key = KEY_SCROLLLOCK then (kb\<lparr>scrolllock := (if scrolllock kb \<noteq> 0 then 0 else 1)\<rparr>, 0)
      else if key \<le> 0x7F then (kb, keycode_to_ascii kb key)
      else (kb, 0))"

definition handle_scancode :: "u8 \<Rightarrow> 'h keyboard \<Rightarrow> ('h keyboard \<times> KEY_INFO_t) option" where
  "handle_scancode scancode kb =
     (if scancode AND 0x80 \<noteq> 0
      then map_option
        (\<lambda>key. (release_key key kb, \<lparr>keycode = KEY_UNKNOWN, ascii_character = 0\<rparr>))
        (scancode_key (scancode - 0x80))
      else map_option
        (\<lambda>key. (let (kb, c) = press_key key kb in (kb, \<lparr>keycode = key, ascii_character = c\<rparr>)))
        (scancode_key scancode))"

definition keyboard_irq_handler ::
    "'d bus \<Rightarrow> 'h keyboard \<Rightarrow> 'd \<Rightarrow> (('h \<times> KEY_INFO_t) option \<times> 'h keyboard \<times> 'd) option" where
  "keyboard_irq_handler bus kb d =
     (let (scancode, d) = run_state (io_inb bus KB_CONTROLLER_DATA) d in
      if is_keyboard_active kb = 0 then Some (None, kb, d)
      else do {
        (kb, key_info) \<leftarrow> handle_scancode scancode kb;
        handler \<leftarrow> final_handler kb;
        Some (Some (handler, key_info), kb, d)
      })"

definition activate_keyboard_processing :: "'h \<Rightarrow> 'h keyboard \<Rightarrow> 'h keyboard" where
  "activate_keyboard_processing handler kb = kb\<lparr>final_handler := Some handler, is_keyboard_active := 1\<rparr>"

definition disable_keyboard_processing :: "'h keyboard \<Rightarrow> 'h keyboard" where
  "disable_keyboard_processing kb = kb\<lparr>is_keyboard_active := 0\<rparr>"

section \<open>The controller\<close>

partial_function (option) keyboard_send_command :: "'d bus \<Rightarrow> u8 \<Rightarrow> 'd \<Rightarrow> 'd option" where
  "keyboard_send_command bus command_byte d =
     (let (v, d) = run_state (io_inb bus KB_CONTROLLER_COMMAND) d
      in if v AND 0x2 \<noteq> 0
         then keyboard_send_command bus command_byte
           (snd (run_state (io_outb bus KB_CONTROLLER_DATA command_byte) d))
         else Some d)"

partial_function (option) drain_data :: "'d bus \<Rightarrow> 'd \<Rightarrow> 'd option" where
  "drain_data bus d =
     (let (v, d) = run_state (io_inb bus KB_CONTROLLER_COMMAND) d
      in if v AND 0x1 \<noteq> 0
         then drain_data bus (snd (run_state (io_inb bus KB_CONTROLLER_DATA) d))
         else Some d)"

definition keyboard_init :: "'d bus \<Rightarrow> 'd \<Rightarrow> 'd option" where
  "keyboard_init bus d = do {
     d \<leftarrow> pic_clear_mask bus 1 d;
     d \<leftarrow> drain_data bus d;
     keyboard_send_command bus 0xF4 d
   }"

section \<open>Characters\<close>

text \<open>The characters that a US keyboard puts over another on a key, and the character that a key
  stands for.\<close>

definition shift_pairs :: "(u8 \<times> u8) list" where
  "shift_pairs = map (\<lambda>(c, s). (of_nat (of_char c), of_nat (of_char s)))
     (zip (''0123456789,./;'' @ [char_of (39 :: nat)] @ ''[]`-='' @ [char_of (92 :: nat)])
          ('')!@#$%^&*(<>?:'' @ [char_of (34 :: nat)] @ ''{}~_+|''))"

definition key_character :: "bool \<Rightarrow> bool \<Rightarrow> u8 \<Rightarrow> u8" where
  "key_character shifted caps c =
     (if c \<in> set (map (\<lambda>l. of_nat (of_char l)) ''abcdefghijklmnopqrstuvwxyz'')
      then if shifted \<noteq> caps then c - 32 else c
      else if shifted then (case map_of shift_pairs c of None \<Rightarrow> c | Some s \<Rightarrow> s)
      else c)"

lemma shift_symbol_pairs: "shift_symbol c = (case map_of shift_pairs c of None \<Rightarrow> c | Some s \<Rightarrow> s)"
  by (simp add: shift_symbol_def shift_pairs_def keycodes)

lemma lower_case_letter:
  "(c :: u8) \<in> set (map (\<lambda>l. of_nat (of_char l)) ''abcdefghijklmnopqrstuvwxyz'') \<longleftrightarrow> c \<ge> 97 \<and> c \<le> 122"
proof
  assume "c \<ge> 97 \<and> c \<le> 122"
  then have "unat c \<in> set [97..<123]"
    by (simp only: set_upt atLeastLessThan_iff word_le_nat_alt) simp
  then have "c \<in> set (map of_nat [97..<123])"
    unfolding set_map by (metis image_eqI of_nat_unat ucast_id)
  then show "c \<in> set (map (\<lambda>l. of_nat (of_char l)) ''abcdefghijklmnopqrstuvwxyz'')"
    by (simp add: upt_rec)
qed auto

lemma shift_symbol_letter: "c \<ge> 65 \<Longrightarrow> c \<le> 90 \<Longrightarrow> shift_symbol c = c"
  by (auto simp: shift_symbol_def keycodes)

lemma shift_symbol_lower: "c \<ge> 97 \<Longrightarrow> c \<le> 122 \<Longrightarrow> shift_symbol c = c"
  by (auto simp: shift_symbol_def keycodes)

lemma upper_range: "(c :: u8) \<ge> 97 \<Longrightarrow> c \<le> 122 \<Longrightarrow> c - 32 \<ge> 65 \<and> c - 32 \<le> 90"
  by (simp add: word_le_nat_alt unat_sub) arith

lemma scancode_low: "unat ((code :: u8) AND 0x7F) = unat (if code AND 0x80 \<noteq> 0 then code - 0x80 else code)"
proof -
  have "code AND 0x7F = take_bit 7 code"
    by (simp add: take_bit_eq_mask mask_eq_exp_minus_1)
  then have "unat (code AND 0x7F) = take_bit 7 (unat code)"
    by (simp only: unsigned_take_bit_eq)
  then have lhs: "unat (code AND 0x7F) = unat code mod 128"
    by (simp add: take_bit_eq_mod)
  have "code AND 0x80 \<noteq> 0 \<longleftrightarrow> bit code 7"
    using bit_iff_and_push_bit_not_eq_0 [of code 7] by simp
  moreover have "bit code 7 \<longleftrightarrow> odd (unat code div 128)"
  proof -
    have "bit code 7 \<longleftrightarrow> bit (unat code) 7" by (simp only: bit_unsigned_iff) simp
    then show ?thesis by (simp only: bit_iff_odd) simp
  qed
  ultimately have high: "code AND 0x80 \<noteq> 0 \<longleftrightarrow> odd (unat code div 128)" by simp
  have "unat code < 2 * 128" using unsigned_less [of code] by simp
  then have "unat code div 128 < 2" by (rule less_mult_imp_div_less)
  then consider "unat code div 128 = 0" | "unat code div 128 = 1" by linarith
  then show ?thesis
  proof cases
    case 1
    then show ?thesis using high lhs by (simp add: div_eq_0_iff)
  next
    case 2
    then have "unat code = 128 + unat code mod 128" using div_mult_mod_eq [of "unat code" 128] by simp
    moreover from this have "unat (code - 0x80) = unat code - 128"
      by (subst unat_sub) (simp_all add: word_le_nat_alt)
    ultimately show ?thesis using high lhs 2 by simp
  qed
qed

section \<open>Runs of the interrupt handler\<close>

definition code_bus :: "u8 \<Rightarrow> unit bus" where
  "code_bus c = \<lparr>bus_in = (\<lambda>port d. (c, d)), bus_out = (\<lambda>port v d. d)\<rparr>"

text \<open>One interrupt per scan code, and the keys that the receiver is called with.\<close>

primrec key_run :: "u8 list \<Rightarrow> 'h keyboard \<Rightarrow> (KEY_INFO_t list \<times> 'h keyboard) option" where
  "key_run [] kb = Some ([], kb)"
| "key_run (c # cs) kb = do {
     (call, kb, d) \<leftarrow> keyboard_irq_handler (code_bus c) kb ();
     (infos, kb) \<leftarrow> key_run cs kb;
     Some ((case call of None \<Rightarrow> infos | Some (h, info) \<Rightarrow> info # infos), kb)
   }"

definition code_key :: "u8 \<Rightarrow> u32" where
  "code_key c = standard_keycodes ! unat (c AND 0x7F)"

definition is_break :: "u8 \<Rightarrow> bool" where
  "is_break c \<longleftrightarrow> c AND 0x80 \<noteq> 0"

definition in_table :: "u8 \<Rightarrow> bool" where
  "in_table c \<longleftrightarrow> unat (c AND 0x7F) < 83"

text \<open>Whether the last event of one of the keys was a press; \<open>b\<close> if there was no event.\<close>

definition held :: "u32 set \<Rightarrow> bool \<Rightarrow> u8 list \<Rightarrow> bool" where
  "held keys b cs = (let es = filter (\<lambda>c. code_key c \<in> keys) cs in if es = [] then b else \<not> is_break (last es))"

definition presses :: "u32 \<Rightarrow> u8 list \<Rightarrow> nat" where
  "presses key cs = length (filter (\<lambda>c. code_key c = key \<and> \<not> is_break c) cs)"

lemma held_append: "held keys b (cs @ cs') = held keys (held keys b cs) cs'"
  by (simp add: held_def Let_def)

lemma presses_append: "presses key (cs @ cs') = presses key cs + presses key cs'"
  by (simp add: presses_def)

text \<open>What a run of scan codes makes of the modifiers of a keyboard.\<close>

definition follows :: "u8 list \<Rightarrow> 'h keyboard \<Rightarrow> 'h keyboard \<Rightarrow> bool" where
  "follows cs kb kb' \<longleftrightarrow>
     is_keyboard_active kb' = is_keyboard_active kb \<and> final_handler kb' = final_handler kb \<and>
     (shift kb' \<noteq> 0) = held {KEY_LSHIFT, KEY_RSHIFT} (shift kb \<noteq> 0) cs \<and>
     (ctrl kb' \<noteq> 0) = held {KEY_LCTRL, KEY_RCTRL} (ctrl kb \<noteq> 0) cs \<and>
     (alt kb' \<noteq> 0) = held {KEY_LALT, KEY_RALT} (alt kb \<noteq> 0) cs \<and>
     (capslock kb' \<noteq> 0) = ((capslock kb \<noteq> 0) \<noteq> odd (presses KEY_CAPSLOCK cs)) \<and>
     (numlock kb' \<noteq> 0) = ((numlock kb \<noteq> 0) \<noteq> odd (presses KEY_KP_NUMLOCK cs)) \<and>
     (scrolllock kb' \<noteq> 0) = ((scrolllock kb \<noteq> 0) \<noteq> odd (presses KEY_SCROLLLOCK cs))"

lemma follows_Nil: "follows [] kb kb"
  by (simp add: follows_def held_def presses_def)

lemma follows_append: "follows cs kb kb1 \<Longrightarrow> follows cs' kb1 kb2 \<Longrightarrow> follows (cs @ cs') kb kb2"
  unfolding follows_def held_append presses_append by (simp add: not_iff) blast

lemma scancode_key_in_table:
  assumes "in_table c"
  shows "scancode_key (if is_break c then c - 0x80 else c) = Some (code_key c)"
  using assms unfolding in_table_def code_key_def is_break_def scancode_low
  by (simp add: scancode_key_def standard_keycodes_def)

definition modifiers :: "u32 list" where
  "modifiers = [KEY_LCTRL, KEY_RCTRL, KEY_LALT, KEY_RALT, KEY_LSHIFT, KEY_RSHIFT, KEY_CAPSLOCK,
     KEY_KP_NUMLOCK, KEY_SCROLLLOCK]"

lemma single_event:
  "held keys b [c] = (if code_key c \<in> keys then \<not> is_break c else b)"
  "presses key [c] = (if code_key c = key \<and> \<not> is_break c then 1 else 0)"
  by (simp_all add: held_def presses_def)

lemma modifier_steps:
  "is_break c \<Longrightarrow> follows [c] kb (release_key (code_key c) kb)"
  "\<not> is_break c \<Longrightarrow> follows [c] kb (fst (press_key (code_key c) kb))"
proof -
  define k where "k = code_key c"
  consider (modifier) "k \<in> set modifiers" | (other) "k \<notin> set modifiers" by blast
  then have "(is_break c \<longrightarrow> follows [c] kb (release_key k kb)) \<and>
    (\<not> is_break c \<longrightarrow> follows [c] kb (fst (press_key k kb)))"
  proof cases
    case modifier
    then show ?thesis
      unfolding follows_def single_event k_def [symmetric] modifiers_def list.set
      by (elim insertE emptyE; simp add: release_key_def press_key_def keycodes)
  next
    case other
    then show ?thesis
      unfolding follows_def single_event k_def [symmetric] modifiers_def
      by (simp add: release_key_def press_key_def)
  qed
  then show "is_break c \<Longrightarrow> follows [c] kb (release_key (code_key c) kb)"
    "\<not> is_break c \<Longrightarrow> follows [c] kb (fst (press_key (code_key c) kb))"
    by (simp_all add: k_def)
qed

lemma handle_scancode_follows:
  assumes "in_table c"
  obtains kb' info where "handle_scancode c kb = Some (kb', info)" "follows [c] kb kb'"
proof (cases "is_break c")
  case True
  then have "handle_scancode c kb =
      Some (release_key (code_key c) kb, \<lparr>keycode = KEY_UNKNOWN, ascii_character = 0\<rparr>)"
    using scancode_key_in_table [OF assms] by (simp add: handle_scancode_def is_break_def)
  then show ?thesis using modifier_steps(1) [OF True] by (rule that)
next
  case False
  then have "handle_scancode c kb = Some (fst (press_key (code_key c) kb),
      \<lparr>keycode = code_key c, ascii_character = snd (press_key (code_key c) kb)\<rparr>)"
    using scancode_key_in_table [OF assms] by (simp add: handle_scancode_def is_break_def case_prod_unfold Let_def)
  then show ?thesis using modifier_steps(2) [OF False] by (rule that)
qed

lemma key_run_follows:
  assumes "\<forall>c \<in> set cs. in_table c" "is_keyboard_active kb \<noteq> 0" "final_handler kb = Some h"
  shows "\<exists>infos kb'. key_run cs kb = Some (infos, kb') \<and> length infos = length cs \<and> follows cs kb kb'"
  using assms
proof (induction cs arbitrary: kb)
  case (Cons c cs)
  obtain kb1 info where one: "handle_scancode c kb = Some (kb1, info)" "follows [c] kb kb1"
    using handle_scancode_follows [of c kb] Cons.prems(1) by auto
  then have "is_keyboard_active kb1 \<noteq> 0" "final_handler kb1 = Some h"
    using Cons.prems(2,3) by (auto simp: follows_def)
  with Cons.IH [of kb1] Cons.prems(1) obtain infos kb2 where
    run: "key_run cs kb1 = Some (infos, kb2)" "length infos = length cs" "follows cs kb1 kb2" by auto
  show ?case
    using one run Cons.prems(2) \<open>final_handler kb1 = Some h\<close> follows_append [OF one(2) run(3)]
    by (simp add: keyboard_irq_handler_def code_bus_def)
qed (simp add: follows_Nil)

lemma send_command_busy:
  assumes "ready AND 2 = 0"
  shows "\<forall>v \<in> set busy. v AND 2 \<noteq> 0 \<Longrightarrow>
    keyboard_send_command trace_bus c \<lparr>replies = busy @ ready # rest, accesses = as\<rparr> =
      Some \<lparr>replies = rest, accesses = as @ concat (map (\<lambda>_. [In 0x64, Out 0x60 c]) busy) @ [In 0x64]\<rparr>"
proof (induction busy arbitrary: as)
  case Nil
  then show ?case
    using assms by (subst keyboard_send_command.simps)
      (simp add: trace_bus_def KB_CONTROLLER_COMMAND_def)
next
  case (Cons v busy)
  then show ?case
    by (subst keyboard_send_command.simps)
      (simp add: trace_bus_def KB_CONTROLLER_COMMAND_def KB_CONTROLLER_DATA_def)
qed

section \<open>Properties\<close>

text \<open>C33: the character of a key under the four combinations of shift and caps lock is the one of
  the keyboard layout: a letter is upper case when exactly one of them is on, and shift alone
  decides on the symbol of every other key.\<close>

theorem keycode_to_ascii_layout:
  "keycode_to_ascii kb key = key_character (shift kb \<noteq> 0) (capslock kb \<noteq> 0) (ucast key)"
proof -
  have "ucast key \<ge> (97 :: u8) \<Longrightarrow> ucast key \<le> (122 :: u8) \<Longrightarrow> shift_symbol (ucast key - 32) = ucast key - 32"
    using upper_range shift_symbol_letter by blast
  then show ?thesis
    unfolding keycode_to_ascii_def key_character_def lower_case_letter shift_symbol_pairs [symmetric]
    using shift_symbol_lower [of "ucast key"] by (auto simp: Let_def)
qed

text \<open>C34: the keyboard interrupt is always defined while keys are not processed; while they are,
  it is undefined exactly when no receiver is installed or the scan code lies past the table of 83
  entries. The table follows the scan codes up to 0x49 only: the entries meant for 0x50 to 0x58
  stand at 0x4A to 0x52.\<close>

theorem keyboard_irq_defined:
  "(keyboard_irq_handler bus kb d = None \<longleftrightarrow>
     is_keyboard_active kb \<noteq> 0 \<and>
     (final_handler kb = None \<or> 83 \<le> unat (fst (bus_in bus 0x60 d) AND 0x7F))) \<and>
   scancode_key 0x49 = Some KEY_PAGEUP \<and>
   map scancode_key [0x4A, 0x4B, 0x4C, 0x4D] = map Some [KEY_KP_2, KEY_KP_3, KEY_KP_0, KEY_KP_DECIMAL] \<and>
   map scancode_key [0x51, 0x52, 0x57, 0x58] = [Some KEY_F11, Some KEY_F12, None, None]"
proof -
  obtain code d' where read: "bus_in bus 0x60 d = (code, d')" by fastforce
  have len: "length standard_keycodes = 83" by (simp add: standard_keycodes_def)
  have rest: "scancode_key 0x49 = Some KEY_PAGEUP \<and>
    map scancode_key [0x4A, 0x4B, 0x4C, 0x4D] = map Some [KEY_KP_2, KEY_KP_3, KEY_KP_0, KEY_KP_DECIMAL] \<and>
    map scancode_key [0x51, 0x52, 0x57, 0x58] = [Some KEY_F11, Some KEY_F12, None, None]"
    by code_simp
  have low: "unat (code AND 0x7F) = unat (if code AND 0x80 \<noteq> 0 then code - 0x80 else code)"
    by (rule scancode_low)
  have final: "handle_scancode code kb = Some (kb', info) \<Longrightarrow> final_handler kb' = final_handler kb" for kb' info
    by (auto simp: handle_scancode_def release_key_def press_key_def split: if_splits)
  have "handle_scancode code kb = None \<longleftrightarrow> 83 \<le> unat (code AND 0x7F)"
    unfolding low by (auto simp: handle_scancode_def scancode_key_def len)
  then have "keyboard_irq_handler bus kb d = None \<longleftrightarrow>
     is_keyboard_active kb \<noteq> 0 \<and> (final_handler kb = None \<or> 83 \<le> unat (code AND 0x7F))"
    using final by (cases "handle_scancode code kb"; cases "final_handler kb")
      (auto simp: keyboard_irq_handler_def KB_CONTROLLER_DATA_def read)
  then show ?thesis using rest by (simp add: read)
qed

text \<open>\<open>keyboard_send_command\<close> writes the command once for every poll that finds the
  controller busy, and not at all when it is ready: a controller that is ready never gets the
  command.\<close>

theorem keyboard_send_command_writes_while_busy:
  assumes "\<forall>v \<in> set busy. v AND 2 \<noteq> 0" "ready AND 2 = 0"
  shows "keyboard_send_command trace_bus c \<lparr>replies = busy @ ready # rest, accesses = as\<rparr> =
    Some \<lparr>replies = rest, accesses = as @ concat (map (\<lambda>_. [In 0x64, Out 0x60 c]) busy) @ [In 0x64]\<rparr>"
  using send_command_busy [OF assms(2,1)] .

theorem keyboard_send_command_writes_while_busy_witness:
  "keyboard_send_command trace_bus 0xF4 \<lparr>replies = [0x1C], accesses = []\<rparr> =
    Some \<lparr>replies = [], accesses = [In 0x64]\<rparr>"
  using keyboard_send_command_writes_while_busy [of "[]" "0x1C" "0xF4" "[]" "[]"] by simp

text \<open>C36: after any run of scan codes of the table on a freshly activated keyboard, every
  interrupt has called the receiver once, a shift, control or alt flag is set exactly when the last
  event of one of its two keys was a press, and a lock is on exactly when its key was pressed an
  odd number of times.\<close>

theorem keyboard_modifiers_track_keys:
  assumes "\<forall>c \<in> set cs. in_table c"
  shows "\<exists>infos kb'.
    key_run cs (activate_keyboard_processing h keyboard_boot) = Some (infos, kb') \<and>
    length infos = length cs \<and>
    (shift kb' \<noteq> 0) = held {KEY_LSHIFT, KEY_RSHIFT} False cs \<and>
    (ctrl kb' \<noteq> 0) = held {KEY_LCTRL, KEY_RCTRL} False cs \<and>
    (alt kb' \<noteq> 0) = held {KEY_LALT, KEY_RALT} False cs \<and>
    (capslock kb' \<noteq> 0) = odd (presses KEY_CAPSLOCK cs) \<and>
    (numlock kb' \<noteq> 0) = odd (presses KEY_KP_NUMLOCK cs) \<and>
    (scrolllock kb' \<noteq> 0) = odd (presses KEY_SCROLLLOCK cs)"
  using key_run_follows [OF assms, of "activate_keyboard_processing h keyboard_boot" h]
  by (auto simp: follows_def activate_keyboard_processing_def keyboard_boot_def)

theorem keyboard_modifiers_track_keys_witness:
  "\<exists>infos kb'. key_run [0x2A, 0x36, 0xAA] (activate_keyboard_processing () keyboard_boot) = Some (infos, kb') \<and>
     shift kb' = 0"
proof -
  have "\<forall>c \<in> set [0x2A, 0x36, 0xAA]. in_table c" by (simp add: in_table_def)
  moreover have "held {KEY_LSHIFT, KEY_RSHIFT} False [0x2A, 0x36, 0xAA] = False" by code_simp
  ultimately show ?thesis
    using keyboard_modifiers_track_keys [of "[0x2A, 0x36, 0xAA]" "()"] by auto
qed

end
