(* ===== verification/Kprintf.thy ===== *)
theory Kprintf
  imports Prelude
begin

text \<open>
  \<open>libk/kprintf/kprintf.c\<close>: formatted output. The output function is a parameter
  \<open>out c s idx maxlen\<close> on a state \<open>s\<close> (the buffer, or whatever a callback changes). A C
  string is the list of its characters before the terminator; the variable arguments are a list
  of 64-bit integers and strings, and reading an argument that is not there, or of the wrong
  kind, is undefined. \<open>long\<close> and \<open>long long\<close> have 64 bits. The floating-point
  conversions are compiled out of the kernel. Output positions are natural numbers.
\<close>

section \<open>Flags\<close>

definition PRINTF_NTOA_BUFFER_SIZE :: nat where
  "PRINTF_NTOA_BUFFER_SIZE = 32"

definition FLAGS_ZEROPAD :: u32 where "FLAGS_ZEROPAD = push_bit 0 1"
definition FLAGS_LEFT :: u32 where "FLAGS_LEFT = push_bit 1 1"
definition FLAGS_PLUS :: u32 where "FLAGS_PLUS = push_bit 2 1"
definition FLAGS_SPACE :: u32 where "FLAGS_SPACE = push_bit 3 1"
definition FLAGS_HASH :: u32 where "FLAGS_HASH = push_bit 4 1"
definition FLAGS_UPPERCASE :: u32 where "FLAGS_UPPERCASE = push_bit 5 1"
definition FLAGS_CHAR :: u32 where "FLAGS_CHAR = push_bit 6 1"
definition FLAGS_SHORT :: u32 where "FLAGS_SHORT = push_bit 7 1"
definition FLAGS_LONG :: u32 where "FLAGS_LONG = push_bit 8 1"
definition FLAGS_LONG_LONG :: u32 where "FLAGS_LONG_LONG = push_bit 9 1"
definition FLAGS_PRECISION :: u32 where "FLAGS_PRECISION = push_bit 10 1"

definition has :: "u32 \<Rightarrow> u32 \<Rightarrow> bool" where
  "has flags f \<longleftrightarrow> flags AND f \<noteq> 0"

section \<open>Output functions\<close>

type_synonym 's out_fct = "char \<Rightarrow> 's \<Rightarrow> nat \<Rightarrow> u64 \<Rightarrow> 's option"

definition NUL :: char where
  "NUL = char_of (0 :: nat)"

definition out_buffer :: "char list out_fct" where
  "out_buffer character buffer idx maxlen =
     (if idx < unat maxlen
      then if idx < length buffer then Some (buffer[idx := character]) else None
      else Some buffer)"

definition out_null :: "'s out_fct" where
  "out_null character buffer idx maxlen = Some buffer"

definition out_fct :: "(char \<Rightarrow> 's \<Rightarrow> 's) \<Rightarrow> 's out_fct" where
  "out_fct fct character arg idx maxlen =
     (if character \<noteq> NUL then Some (fct character arg) else Some arg)"

text \<open>A run of output calls, each with the next position.\<close>

primrec out_list :: "'s out_fct \<Rightarrow> u64 \<Rightarrow> char list \<Rightarrow> 's \<times> nat \<Rightarrow> ('s \<times> nat) option" where
  "out_list out maxlen [] st = Some st"
| "out_list out maxlen (c # cs) st = (let (s, idx) = st in
     Option.bind (out c s idx maxlen) (\<lambda>s'. out_list out maxlen cs (s', idx + 1)))"

section \<open>Strings and digits\<close>

primrec strnlen_s :: "string \<Rightarrow> u64 \<Rightarrow> nat" where
  "strnlen_s [] maxsize = 0"
| "strnlen_s (c # s) maxsize =
     (if c = NUL \<or> maxsize = 0 then 0 else Suc (strnlen_s s (maxsize - 1)))"

definition is_digit :: "char \<Rightarrow> bool" where
  "is_digit ch \<longleftrightarrow> of_char ch \<ge> (48 :: nat) \<and> of_char ch \<le> (57 :: nat)"

primrec atoi_from :: "string \<Rightarrow> u32 \<Rightarrow> u32 \<times> string" where
  "atoi_from [] i = (i, [])"
| "atoi_from (c # s) i =
     (if is_digit c then atoi_from s (i * 10 + of_nat (of_char c - 48)) else (i, c # s))"

definition atoi :: "string \<Rightarrow> u32 \<times> string" where
  "atoi s = atoi_from s 0"

section \<open>Integers\<close>

text \<open>
  \<open>buf\<close> is the filled part of the conversion buffer, its length is \<open>len\<close>.
\<close>

definition out_rev :: "'s out_fct \<Rightarrow> u64 \<Rightarrow> char list \<Rightarrow> u32 \<Rightarrow> u32 \<Rightarrow> 's \<times> nat \<Rightarrow> ('s \<times> nat) option" where
  "out_rev out maxlen buf width flags st = do {
     let start_idx = snd st;
     st \<leftarrow> (if \<not> has flags FLAGS_LEFT \<and> \<not> has flags FLAGS_ZEROPAD
            then out_list out maxlen (replicate (unat width - length buf) CHR '' '') st else Some st);
     st \<leftarrow> out_list out maxlen (rev buf) st;
     (if has flags FLAGS_LEFT
      then out_list out maxlen (replicate (unat width - (snd st - start_idx)) CHR '' '') st else Some st)
   }"

text \<open>\<open>while (len < limit && len < PRINTF_NTOA_BUFFER_SIZE) buf[len++] = '0';\<close>\<close>

function pad_zeros :: "nat \<Rightarrow> char list \<Rightarrow> char list" where
  "pad_zeros limit buf =
     (if length buf < limit \<and> length buf < PRINTF_NTOA_BUFFER_SIZE
      then pad_zeros limit (buf @ [CHR ''0'']) else buf)"
  by pat_completeness auto
termination
  by (relation "measure (\<lambda>(limit, buf). limit - length buf)") auto

declare pad_zeros.simps [simp del]

definition append_ntoa :: "char \<Rightarrow> char list \<Rightarrow> char list" where
  "append_ntoa c buf = (if length buf < PRINTF_NTOA_BUFFER_SIZE then buf @ [c] else buf)"

definition ntoa_zeros :: "char list \<Rightarrow> bool \<Rightarrow> u32 \<Rightarrow> u32 \<Rightarrow> u32 \<Rightarrow> char list \<times> u32" where
  "ntoa_zeros buf negative prec width flags =
     (if \<not> has flags FLAGS_LEFT then
        (let width = (if width \<noteq> 0 \<and> has flags FLAGS_ZEROPAD \<and>
                         (negative \<or> has flags (FLAGS_PLUS OR FLAGS_SPACE)) then width - 1 else width);
             buf = pad_zeros (unat prec) buf;
             buf = (if has flags FLAGS_ZEROPAD then pad_zeros (unat width) buf else buf)
         in (buf, width))
      else (buf, width))"

definition ntoa_hash :: "char list \<Rightarrow> u32 \<Rightarrow> u32 \<Rightarrow> u32 \<Rightarrow> u32 \<Rightarrow> char list" where
  "ntoa_hash buf base prec width flags =
     (if has flags FLAGS_HASH then
        (let buf = (if \<not> has flags FLAGS_PRECISION \<and> buf \<noteq> [] \<and>
                       (length buf = unat prec \<or> length buf = unat width)
                    then (let buf = butlast buf in if buf \<noteq> [] \<and> base = 16 then butlast buf else buf)
                    else buf);
             buf = (if base = 16 \<and> \<not> has flags FLAGS_UPPERCASE \<and> length buf < PRINTF_NTOA_BUFFER_SIZE
                    then buf @ [CHR ''x'']
                    else if base = 16 \<and> has flags FLAGS_UPPERCASE \<and> length buf < PRINTF_NTOA_BUFFER_SIZE
                    then buf @ [CHR ''X'']
                    else if base = 2 \<and> length buf < PRINTF_NTOA_BUFFER_SIZE
                    then buf @ [CHR ''b'']
                    else buf)
         in append_ntoa (CHR ''0'') buf)
      else buf)"

definition ntoa_sign :: "char list \<Rightarrow> bool \<Rightarrow> u32 \<Rightarrow> char list" where
  "ntoa_sign buf negative flags =
     (if length buf < PRINTF_NTOA_BUFFER_SIZE then
        if negative then buf @ [CHR ''-'']
        else if has flags FLAGS_PLUS then buf @ [CHR ''+'']
        else if has flags FLAGS_SPACE then buf @ [CHR '' '']
        else buf
      else buf)"

definition ntoa_format ::
    "'s out_fct \<Rightarrow> u64 \<Rightarrow> char list \<Rightarrow> bool \<Rightarrow> u32 \<Rightarrow> u32 \<Rightarrow> u32 \<Rightarrow> u32 \<Rightarrow> 's \<times> nat \<Rightarrow>
     ('s \<times> nat) option" where
  "ntoa_format out maxlen buf negative base prec width flags st =
     (let (buf, width) = ntoa_zeros buf negative prec width flags;
          buf = ntoa_hash buf base prec width flags;
          buf = ntoa_sign buf negative flags
      in out_rev out maxlen buf width flags st)"

definition digit_char :: "bool \<Rightarrow> nat \<Rightarrow> char" where
  "digit_char uppercase digit =
     (if digit < 10 then char_of (48 + digit)
      else char_of ((if uppercase then 65 else 97) + digit - 10))"

text \<open>The digits of \<open>value\<close>, least significant first: the \<open>do\<close> loop.\<close>

function ntoa_digits :: "u64 \<Rightarrow> bool \<Rightarrow> u64 \<Rightarrow> char list \<Rightarrow> char list" where
  "ntoa_digits base uppercase value buf =
     (let buf = buf @ [digit_char uppercase (unat (value mod base))];
          value = value div base
      in if value \<noteq> 0 \<and> length buf < PRINTF_NTOA_BUFFER_SIZE
         then ntoa_digits base uppercase value buf else buf)"
  by pat_completeness auto
termination
  by (relation "measure (\<lambda>(base, uppercase, value, buf). PRINTF_NTOA_BUFFER_SIZE - length buf)") auto

declare ntoa_digits.simps [simp del]

definition ntoa_long ::
    "'s out_fct \<Rightarrow> u64 \<Rightarrow> u64 \<Rightarrow> bool \<Rightarrow> u64 \<Rightarrow> u32 \<Rightarrow> u32 \<Rightarrow> u32 \<Rightarrow> 's \<times> nat \<Rightarrow> ('s \<times> nat) option" where
  "ntoa_long out maxlen value negative base prec width flags st =
     (let flags = (if value = 0 then flags AND NOT FLAGS_HASH else flags);
          buf = (if \<not> has flags FLAGS_PRECISION \<or> value \<noteq> 0
                 then ntoa_digits base (has flags FLAGS_UPPERCASE) value [] else [])
      in ntoa_format out maxlen buf negative (ucast base) prec width flags st)"

definition ntoa_long_long ::
    "'s out_fct \<Rightarrow> u64 \<Rightarrow> u64 \<Rightarrow> bool \<Rightarrow> u64 \<Rightarrow> u32 \<Rightarrow> u32 \<Rightarrow> u32 \<Rightarrow> 's \<times> nat \<Rightarrow> ('s \<times> nat) option" where
  "ntoa_long_long out maxlen value negative base prec width flags st =
     (let flags = (if value = 0 then flags AND NOT FLAGS_HASH else flags);
          buf = (if \<not> has flags FLAGS_PRECISION \<or> value \<noteq> 0
                 then ntoa_digits base (has flags FLAGS_UPPERCASE) value [] else [])
      in ntoa_format out maxlen buf negative (ucast base) prec width flags st)"

section \<open>Arguments\<close>

datatype va_arg = Va_Int u64 | Va_Str string

fun va_word :: "va_arg list \<Rightarrow> (u64 \<times> va_arg list) option" where
  "va_word (Va_Int w # va) = Some (w, va)"
| "va_word _ = None"

fun va_string :: "va_arg list \<Rightarrow> (string \<times> va_arg list) option" where
  "va_string (Va_Str s # va) = Some (s, va)"
| "va_string _ = None"

text \<open>\<open>va_arg(va, int)\<close>\<close>

definition va_int :: "va_arg list \<Rightarrow> (int \<times> va_arg list) option" where
  "va_int va = map_option (\<lambda>(w, va). (to_int32 w, va)) (va_word va)"

text \<open>\<open>value > 0 ? value : 0 - value\<close> for a signed type of \<open>n + 1\<close> bits; the least value overflows.\<close>

definition c_abs :: "nat \<Rightarrow> int \<Rightarrow> int option" where
  "c_abs n v = (if v > 0 then Some v else if v = - (2 ^ n) then None else Some (- v))"

section \<open>Parsing a conversion\<close>

fun parse_flags :: "string \<Rightarrow> u32 \<Rightarrow> u32 \<times> string" where
  "parse_flags [] flags = (flags, [])"
| "parse_flags (c # format) flags =
     (if c = CHR ''0'' then parse_flags format (flags OR FLAGS_ZEROPAD)
      else if c = CHR ''-'' then parse_flags format (flags OR FLAGS_LEFT)
      else if c = CHR ''+'' then parse_flags format (flags OR FLAGS_PLUS)
      else if c = CHR '' '' then parse_flags format (flags OR FLAGS_SPACE)
      else if c = CHR ''#'' then parse_flags format (flags OR FLAGS_HASH)
      else (flags, c # format))"

definition next_is :: "(char \<Rightarrow> bool) \<Rightarrow> string \<Rightarrow> bool" where
  "next_is P format = (case format of [] \<Rightarrow> False | c # _ \<Rightarrow> P c)"

definition parse_width ::
    "string \<Rightarrow> u32 \<Rightarrow> va_arg list \<Rightarrow> (u32 \<times> u32 \<times> string \<times> va_arg list) option" where
  "parse_width format flags va =
     (if next_is is_digit format
      then (let (width, format) = atoi format in Some (flags, width, format, va))
      else if next_is (\<lambda>c. c = CHR ''*'') format then do {
        (w, va) \<leftarrow> va_int va;
        if w < 0 then if w = - (2 ^ 31) then None
          else Some (flags OR FLAGS_LEFT, word_of_int (- w), tl format, va)
        else Some (flags, word_of_int w, tl format, va)
      }
      else Some (flags, 0, format, va))"

definition parse_precision ::
    "string \<Rightarrow> u32 \<Rightarrow> va_arg list \<Rightarrow> (u32 \<times> u32 \<times> string \<times> va_arg list) option" where
  "parse_precision format flags va =
     (if next_is (\<lambda>c. c = CHR ''.'') format then
        (let flags = flags OR FLAGS_PRECISION; format = tl format in
         if next_is is_digit format
         then (let (precision, format) = atoi format in Some (flags, precision, format, va))
         else if next_is (\<lambda>c. c = CHR ''*'') format then do {
           (prec, va) \<leftarrow> va_int va;
           Some (flags, if prec > 0 then word_of_int prec else 0, tl format, va)
         }
         else Some (flags, 0, format, va))
      else Some (flags, 0, format, va))"

definition parse_length :: "string \<Rightarrow> u32 \<Rightarrow> u32 \<times> string" where
  "parse_length format flags =
     (if next_is (\<lambda>c. c = CHR ''l'') format then
        (let flags = flags OR FLAGS_LONG; format = tl format in
         if next_is (\<lambda>c. c = CHR ''l'') format then (flags OR FLAGS_LONG_LONG, tl format)
         else (flags, format))
      else if next_is (\<lambda>c. c = CHR ''h'') format then
        (let flags = flags OR FLAGS_SHORT; format = tl format in
         if next_is (\<lambda>c. c = CHR ''h'') format then (flags OR FLAGS_CHAR, tl format)
         else (flags, format))
      else if next_is (\<lambda>c. c \<in> {CHR ''t'', CHR ''j'', CHR ''z''}) format
      then (flags OR FLAGS_LONG, tl format)
      else (flags, format))"

record spec =
  sp_flags :: u32
  sp_width :: u32
  sp_precision :: u32
  sp_char :: char

text \<open>
  Everything between the percent sign and the specifier. A format that ends here makes the code
  read past its terminator.
\<close>

definition parse_spec :: "string \<Rightarrow> va_arg list \<Rightarrow> (spec \<times> string \<times> va_arg list) option" where
  "parse_spec format va = do {
     let (flags, format) = parse_flags format 0;
     (flags, width, format, va) \<leftarrow> parse_width format flags va;
     (flags, precision, format, va) \<leftarrow> parse_precision format flags va;
     let (flags, format) = parse_length format flags;
     (case format of
        [] \<Rightarrow> None
      | c # format \<Rightarrow>
          if c = NUL then None
          else Some (\<lparr>sp_flags = flags, sp_width = width, sp_precision = precision, sp_char = c\<rparr>,
                     format, va))
   }"

section \<open>The conversions\<close>

definition int_flags :: "char \<Rightarrow> u32 \<Rightarrow> u32" where
  "int_flags c flags =
     (let flags = (if c \<in> {CHR ''x'', CHR ''X'', CHR ''o'', CHR ''b''} then flags
                   else flags AND NOT FLAGS_HASH);
          flags = (if c = CHR ''X'' then flags OR FLAGS_UPPERCASE else flags);
          flags = (if c \<noteq> CHR ''i'' \<and> c \<noteq> CHR ''d'' then flags AND NOT (FLAGS_PLUS OR FLAGS_SPACE)
                   else flags)
      in if has flags FLAGS_PRECISION then flags AND NOT FLAGS_ZEROPAD else flags)"

definition int_base :: "char \<Rightarrow> u64" where
  "int_base c =
     (if c = CHR ''x'' \<or> c = CHR ''X'' then 16 else if c = CHR ''o'' then 8
      else if c = CHR ''b'' then 2 else 10)"

definition put_integer ::
    "'s out_fct \<Rightarrow> u64 \<Rightarrow> spec \<Rightarrow> va_arg list \<Rightarrow> 's \<times> nat \<Rightarrow> (('s \<times> nat) \<times> va_arg list) option" where
  "put_integer out maxlen sp va st = do {
     let c = sp_char sp;
     let base = int_base c;
     let flags = int_flags c (sp_flags sp);
     (w, va) \<leftarrow> va_word va;
     st \<leftarrow>
       (if c = CHR ''i'' \<or> c = CHR ''d'' then
          if has flags FLAGS_LONG_LONG then do {
            let value = sint w;
            v \<leftarrow> c_abs 63 value;
            ntoa_long_long out maxlen (word_of_int v) (value < 0) base (sp_precision sp) (sp_width sp) flags st
          }
          else if has flags FLAGS_LONG then do {
            let value = sint w;
            v \<leftarrow> c_abs 63 value;
            ntoa_long out maxlen (word_of_int v) (value < 0) base (sp_precision sp) (sp_width sp) flags st
          }
          else do {
            let value = (if has flags FLAGS_CHAR then sint (ucast w :: u8)
                         else if has flags FLAGS_SHORT then sint (ucast w :: u16) else to_int32 w);
            v \<leftarrow> c_abs 31 value;
            ntoa_long out maxlen (word_of_int v) (value < 0) base (sp_precision sp) (sp_width sp) flags st
          }
        else
          if has flags FLAGS_LONG_LONG
          then ntoa_long_long out maxlen w False base (sp_precision sp) (sp_width sp) flags st
          else if has flags FLAGS_LONG
          then ntoa_long out maxlen w False base (sp_precision sp) (sp_width sp) flags st
          else do {
            let value = (if has flags FLAGS_CHAR then ucast (ucast w :: u8)
                         else if has flags FLAGS_SHORT then ucast (ucast w :: u16)
                         else ucast (ucast w :: u32));
            ntoa_long out maxlen value False base (sp_precision sp) (sp_width sp) flags st
          });
     Some (st, va)
   }"

definition put_char ::
    "'s out_fct \<Rightarrow> u64 \<Rightarrow> spec \<Rightarrow> va_arg list \<Rightarrow> 's \<times> nat \<Rightarrow> (('s \<times> nat) \<times> va_arg list) option" where
  "put_char out maxlen sp va st = do {
     let pad = replicate (unat (sp_width sp) - 1) CHR '' '';
     st \<leftarrow> (if \<not> has (sp_flags sp) FLAGS_LEFT then out_list out maxlen pad st else Some st);
     (w, va) \<leftarrow> va_word va;
     st \<leftarrow> out_list out maxlen [char_of (unat (ucast w :: u8))] st;
     st \<leftarrow> (if has (sp_flags sp) FLAGS_LEFT then out_list out maxlen pad st else Some st);
     Some (st, va)
   }"

primrec c_prefix :: "string \<Rightarrow> nat \<Rightarrow> bool \<Rightarrow> string" where
  "c_prefix [] precision limited = []"
| "c_prefix (c # p) precision limited =
     (if c \<noteq> NUL \<and> (\<not> limited \<or> precision \<noteq> 0) then c # c_prefix p (precision - 1) limited else [])"

definition put_string ::
    "'s out_fct \<Rightarrow> u64 \<Rightarrow> spec \<Rightarrow> va_arg list \<Rightarrow> 's \<times> nat \<Rightarrow> (('s \<times> nat) \<times> va_arg list) option" where
  "put_string out maxlen sp va st = do {
     (p, va) \<leftarrow> va_string va;
     let precision = unat (sp_precision sp);
     let l = strnlen_s p (if precision \<noteq> 0 then ucast (sp_precision sp) else - 1);
     let l = (if has (sp_flags sp) FLAGS_PRECISION then min l precision else l);
     let pad = replicate (unat (sp_width sp) - l) CHR '' '';
     st \<leftarrow> (if \<not> has (sp_flags sp) FLAGS_LEFT then out_list out maxlen pad st else Some st);
     st \<leftarrow> out_list out maxlen (c_prefix p precision (has (sp_flags sp) FLAGS_PRECISION)) st;
     st \<leftarrow> (if has (sp_flags sp) FLAGS_LEFT then out_list out maxlen pad st else Some st);
     Some (st, va)
   }"

definition put_pointer ::
    "'s out_fct \<Rightarrow> u64 \<Rightarrow> spec \<Rightarrow> va_arg list \<Rightarrow> 's \<times> nat \<Rightarrow> (('s \<times> nat) \<times> va_arg list) option" where
  "put_pointer out maxlen sp va st = do {
     (w, va) \<leftarrow> va_word va;
     st \<leftarrow> ntoa_long_long out maxlen w False 16 (sp_precision sp) 16
       (sp_flags sp OR FLAGS_ZEROPAD OR FLAGS_UPPERCASE) st;
     Some (st, va)
   }"

definition put_spec ::
    "'s out_fct \<Rightarrow> u64 \<Rightarrow> spec \<Rightarrow> va_arg list \<Rightarrow> 's \<times> nat \<Rightarrow> (('s \<times> nat) \<times> va_arg list) option" where
  "put_spec out maxlen sp va st =
     (if sp_char sp \<in> {CHR ''d'', CHR ''i'', CHR ''u'', CHR ''x'', CHR ''X'', CHR ''o'', CHR ''b''}
      then put_integer out maxlen sp va st
      else if sp_char sp = CHR ''c'' then put_char out maxlen sp va st
      else if sp_char sp = CHR ''s'' then put_string out maxlen sp va st
      else if sp_char sp = CHR ''p'' then put_pointer out maxlen sp va st
      else map_option (\<lambda>st. (st, va)) (out_list out maxlen [sp_char sp] st))"

section \<open>The format loop\<close>

lemma parse_flags_length: "parse_flags format flags = (flags', format') \<Longrightarrow> length format' \<le> length format"
  by (induction format flags rule: parse_flags.induct) (auto split: if_splits)

lemma atoi_from_length: "atoi_from format i = (n, format') \<Longrightarrow> length format' \<le> length format"
  by (induction format arbitrary: i) (auto split: if_splits intro: le_SucI)

lemma parse_width_length:
  "parse_width format flags va = Some (flags', width, format', va') \<Longrightarrow> length format' \<le> length format"
  by (auto simp: parse_width_def atoi_def split: if_splits prod.splits Option.bind_splits
      dest: atoi_from_length)

lemma parse_precision_length:
  "parse_precision format flags va = Some (flags', width, format', va') \<Longrightarrow> length format' \<le> length format"
  by (auto simp: parse_precision_def atoi_def Let_def split: if_splits prod.splits Option.bind_splits
      dest!: atoi_from_length)

lemma parse_length_length: "parse_length format flags = (flags', format') \<Longrightarrow> length format' \<le> length format"
  by (auto simp: parse_length_def Let_def split: if_splits)

lemma parse_spec_length:
  assumes "parse_spec format va = Some (sp, format', va')"
  shows "length format' < length format"
  using assms unfolding parse_spec_def Let_def
  by (auto split: prod.splits Option.bind_splits list.splits if_splits
      dest!: parse_flags_length parse_width_length parse_precision_length parse_length_length)

function vsnprintf_loop ::
    "'s out_fct \<Rightarrow> u64 \<Rightarrow> string \<Rightarrow> va_arg list \<Rightarrow> 's \<times> nat \<Rightarrow> ('s \<times> nat) option" where
  "vsnprintf_loop out maxlen [] va st = Some st"
| "vsnprintf_loop out maxlen (c # format) va st =
     (if c = NUL then Some st
      else if c \<noteq> CHR ''%'' then do {
        st \<leftarrow> out_list out maxlen [c] st;
        vsnprintf_loop out maxlen format va st
      }
      else do {
        (sp, format', va') \<leftarrow> parse_spec format va;
        (st', va'') \<leftarrow> put_spec out maxlen sp va' st;
        vsnprintf_loop out maxlen format' va'' st'
      })"
  by pat_completeness auto
termination
  by (relation "measure (\<lambda>(out, maxlen, format, va, st). length format)")
    (auto dest: parse_spec_length)

definition vsnprintf_any ::
    "'s out_fct \<Rightarrow> bool \<Rightarrow> u64 \<Rightarrow> string \<Rightarrow> va_arg list \<Rightarrow> 's \<Rightarrow> ('s \<times> int) option" where
  "vsnprintf_any out null maxlen format va buffer = do {
     let out = (if null then out_null else out);
     (s, idx) \<leftarrow> vsnprintf_loop out maxlen format va (buffer, 0);
     s \<leftarrow> out NUL s (if idx < unat maxlen then idx else unat (maxlen - 1)) maxlen;
     Some (s, to_int32 (of_nat idx))
   }"

definition sprintf :: "bool \<Rightarrow> char list \<Rightarrow> string \<Rightarrow> va_arg list \<Rightarrow> (char list \<times> int) option" where
  "sprintf null buffer format va = vsnprintf_any out_buffer null (- 1) format va buffer"

definition snprintf ::
    "bool \<Rightarrow> char list \<Rightarrow> u64 \<Rightarrow> string \<Rightarrow> va_arg list \<Rightarrow> (char list \<times> int) option" where
  "snprintf null buffer count format va = vsnprintf_any out_buffer null count format va buffer"

definition vsnprintf ::
    "bool \<Rightarrow> char list \<Rightarrow> u64 \<Rightarrow> string \<Rightarrow> va_arg list \<Rightarrow> (char list \<times> int) option" where
  "vsnprintf null buffer count format va = vsnprintf_any out_buffer null count format va buffer"

definition fctprintf :: "(char \<Rightarrow> 's \<Rightarrow> 's) \<Rightarrow> 's \<Rightarrow> string \<Rightarrow> va_arg list \<Rightarrow> ('s \<times> int) option" where
  "fctprintf fct arg format va = vsnprintf_any (out_fct fct) False (- 1) format va arg"

end
