(* ===== verification/Kprintf_Text.thy ===== *)
theory Kprintf_Text
  imports Kprintf
begin

text \<open>
  What \<open>_vsnprintf\<close> prints: a reference that computes the text of a format as a list of
  characters, the interface of an output function, and the lemma that the code sends exactly
  this text through any output function that keeps the interface.
\<close>

section \<open>The text of a conversion\<close>

definition spaces :: "nat \<Rightarrow> char list" where
  "spaces n = replicate n CHR '' ''"

definition rev_text :: "char list \<Rightarrow> u32 \<Rightarrow> u32 \<Rightarrow> char list" where
  "rev_text buf width flags =
     (if has flags FLAGS_LEFT then rev buf @ spaces (unat width - length buf)
      else (if has flags FLAGS_ZEROPAD then [] else spaces (unat width - length buf)) @ rev buf)"

definition format_digits :: "char list \<Rightarrow> bool \<Rightarrow> u32 \<Rightarrow> u32 \<Rightarrow> u32 \<Rightarrow> u32 \<Rightarrow> char list" where
  "format_digits buf negative base prec width flags =
     (let (buf, width) = ntoa_zeros buf negative prec width flags
      in rev_text (ntoa_sign (ntoa_hash buf base prec width flags) negative flags) width flags)"

definition ntoa_text :: "u64 \<Rightarrow> bool \<Rightarrow> u64 \<Rightarrow> u32 \<Rightarrow> u32 \<Rightarrow> u32 \<Rightarrow> char list" where
  "ntoa_text value negative base prec width flags =
     (let flags = (if value = 0 then flags AND NOT FLAGS_HASH else flags);
          buf = (if \<not> has flags FLAGS_PRECISION \<or> value \<noteq> 0
                 then ntoa_digits base (has flags FLAGS_UPPERCASE) value [] else [])
      in format_digits buf negative (ucast base) prec width flags)"

definition signed_arg :: "u32 \<Rightarrow> u64 \<Rightarrow> (int \<times> int) option" where
  "signed_arg flags w =
     (let wide = has flags FLAGS_LONG_LONG \<or> has flags FLAGS_LONG;
          value = (if wide then sint w
                   else if has flags FLAGS_CHAR then sint (ucast w :: u8)
                   else if has flags FLAGS_SHORT then sint (ucast w :: u16) else to_int32 w)
      in map_option (Pair value) (c_abs (if wide then 63 else 31) value))"

definition unsigned_arg :: "u32 \<Rightarrow> u64 \<Rightarrow> u64" where
  "unsigned_arg flags w =
     (if has flags FLAGS_LONG_LONG \<or> has flags FLAGS_LONG then w
      else if has flags FLAGS_CHAR then ucast (ucast w :: u8)
      else if has flags FLAGS_SHORT then ucast (ucast w :: u16) else ucast (ucast w :: u32))"

definition integer_text :: "spec \<Rightarrow> va_arg list \<Rightarrow> (char list \<times> va_arg list) option" where
  "integer_text sp va = do {
     let c = sp_char sp;
     let flags = int_flags c (sp_flags sp);
     (w, va) \<leftarrow> va_word va;
     t \<leftarrow> (if c = CHR ''i'' \<or> c = CHR ''d''
           then map_option (\<lambda>(value, v). ntoa_text (word_of_int v) (value < 0) (int_base c)
                  (sp_precision sp) (sp_width sp) flags) (signed_arg flags w)
           else Some (ntoa_text (unsigned_arg flags w) False (int_base c)
                  (sp_precision sp) (sp_width sp) flags));
     Some (t, va)
   }"

text \<open>Padding on the left, or on the right under the minus flag.\<close>

definition padded :: "u32 \<Rightarrow> nat \<Rightarrow> char list \<Rightarrow> char list" where
  "padded flags n t = (if has flags FLAGS_LEFT then t @ spaces n else spaces n @ t)"

definition spec_text :: "spec \<Rightarrow> va_arg list \<Rightarrow> (char list \<times> va_arg list) option" where
  "spec_text sp va =
     (if sp_char sp \<in> {CHR ''d'', CHR ''i'', CHR ''u'', CHR ''x'', CHR ''X'', CHR ''o'', CHR ''b''}
      then integer_text sp va
      else if sp_char sp = CHR ''c'' then
        map_option (\<lambda>(w, va). (padded (sp_flags sp) (unat (sp_width sp) - 1)
          [char_of (unat (ucast w :: u8))], va)) (va_word va)
      else if sp_char sp = CHR ''s'' then
        map_option (\<lambda>(p, va).
          (let precision = unat (sp_precision sp);
               l = strnlen_s p (if precision \<noteq> 0 then ucast (sp_precision sp) else - 1);
               l = (if has (sp_flags sp) FLAGS_PRECISION then min l precision else l)
           in (padded (sp_flags sp) (unat (sp_width sp) - l)
                 (c_prefix p precision (has (sp_flags sp) FLAGS_PRECISION)), va))) (va_string va)
      else if sp_char sp = CHR ''p'' then
        map_option (\<lambda>(w, va). (ntoa_text w False 16 (sp_precision sp) 16
          (sp_flags sp OR FLAGS_ZEROPAD OR FLAGS_UPPERCASE), va)) (va_word va)
      else Some ([sp_char sp], va))"

function format_text :: "string \<Rightarrow> va_arg list \<Rightarrow> char list option" where
  "format_text [] va = Some []"
| "format_text (c # format) va =
     (if c = NUL then Some []
      else if c \<noteq> CHR ''%'' then map_option (\<lambda>t. c # t) (format_text format va)
      else do {
        (sp, format', va') \<leftarrow> parse_spec format va;
        (u, va'') \<leftarrow> spec_text sp va';
        map_option (\<lambda>t. u @ t) (format_text format' va'')
      })"
  by pat_completeness auto
termination
  by (relation "measure (\<lambda>(format, va). length format)") (auto dest: parse_spec_length)

section \<open>The interface of an output function\<close>

text \<open>
  \<open>run t s\<close> is the state after the text \<open>t\<close> has been sent, character by character from
  position 0 on, to an output function that started in state \<open>s\<close>; \<open>None\<close> if a call on
  the way was undefined.
\<close>

locale output_sink =
  fixes out :: "'s out_fct" and maxlen :: u64 and run :: "char list \<Rightarrow> 's \<Rightarrow> 's option"
  assumes run_nil: "run [] s = Some s"
    and run_snoc: "run (t @ [c]) s = Option.bind (run t s) (\<lambda>r. out c r (length t) maxlen)"
begin

text \<open>The state and the position after \<open>t\<close>.\<close>

definition sent :: "char list \<Rightarrow> 's \<Rightarrow> ('s \<times> nat) option" where
  "sent t s = map_option (\<lambda>r. (r, length t)) (run t s)"

lemma sent_nil: "sent [] s = Some (s, 0)"
  by (simp add: sent_def run_nil)

lemma sent_list: "Option.bind (sent t s) (out_list out maxlen u) = sent (t @ u) s"
proof (induction u arbitrary: t)
  case (Cons c u)
  have "Option.bind (sent t s) (out_list out maxlen (c # u)) =
      Option.bind (sent (t @ [c]) s) (out_list out maxlen u)"
    by (cases "run t s") (simp_all add: sent_def run_snoc bind_map_option comp_def)
  then show ?case using Cons.IH [of "t @ [c]"] by (simp del: out_list.simps)
next
  case Nil
  then show ?case by (cases "run t s") (simp_all add: sent_def)
qed

lemma sent_SomeD: "sent t s = Some st \<Longrightarrow> snd st = length t"
  by (auto simp: sent_def)

lemma sent_list_Some: "sent t s = Some st \<Longrightarrow> out_list out maxlen u st = sent (t @ u) s"
  using sent_list [of t s u] by simp

lemma sent_seq:
  "Option.bind (sent t s) (\<lambda>st. Option.bind (out_list out maxlen u st) k) = Option.bind (sent (t @ u) s) k"
  by (simp flip: sent_list)

lemma sent_left:
  "Option.bind (sent (t @ u) s) (\<lambda>st. out_list out maxlen (replicate (n - (snd st - length t)) c) st) =
    sent (t @ u @ replicate (n - length u) c) s"
proof (cases "sent (t @ u) s")
  case (Some st)
  then show ?thesis using sent_list_Some [OF Some] sent_SomeD [OF Some] by simp
next
  case None
  then show ?thesis using sent_list [of "t @ u" s] by simp
qed

lemma bind_Some: "Option.bind x Some = x"
  by (cases x) simp_all

lemma sent_rev:
  assumes "sent t s = Some st"
  shows "out_rev out maxlen buf width flags st = sent (t @ rev_text buf width flags) s"
  by (cases "has flags FLAGS_LEFT"; cases "has flags FLAGS_ZEROPAD")
    (simp_all add: out_rev_def rev_text_def spaces_def sent_list_Some [OF assms] sent_SomeD [OF assms]
      sent_seq sent_left sent_list bind_Some)

lemma sent_format:
  assumes "sent t s = Some st"
  shows "ntoa_format out maxlen buf negative base prec width flags st =
    sent (t @ format_digits buf negative base prec width flags) s"
  by (cases "ntoa_zeros buf negative prec width flags")
    (simp add: ntoa_format_def format_digits_def sent_rev [OF assms] Let_def)

lemma sent_ntoa:
  assumes "sent t s = Some st"
  shows "ntoa_long out maxlen v negative base prec width flags st =
      sent (t @ ntoa_text v negative base prec width flags) s"
    and "ntoa_long_long out maxlen v negative base prec width flags st =
      sent (t @ ntoa_text v negative base prec width flags) s"
  by (simp_all add: ntoa_long_def ntoa_long_long_def ntoa_text_def sent_format [OF assms] Let_def)

text \<open>An operation that prints a text and consumes arguments.\<close>

definition prints :: "char list \<Rightarrow> 's \<Rightarrow> (char list \<times> 'a) option \<Rightarrow> (('s \<times> nat) \<times> 'a) option" where
  "prints t s result = Option.bind result (\<lambda>(u, va). map_option (\<lambda>st. (st, va)) (sent (t @ u) s))"

lemma put_integer_prints:
  assumes "sent t s = Some st"
  shows "put_integer out maxlen sp va st = prints t s (integer_text sp va)"
proof (cases "va_word va")
  case None
  then show ?thesis by (simp add: put_integer_def integer_text_def prints_def Let_def)
next
  case (Some wv)
  obtain w va' where wv: "wv = (w, va')" by (cases wv)
  note ntoa = sent_ntoa [OF assms]
  have pair: "Option.bind x (\<lambda>st. Some (st, va')) = map_option (\<lambda>st. (st, va')) x" for x :: "('s \<times> nat) option"
    by (simp add: map_conv_bind_option comp_def)
  show ?thesis
  proof (cases "sp_char sp = CHR ''i'' \<or> sp_char sp = CHR ''d''")
    case True
    then show ?thesis
      using Some wv
      by (cases "c_abs 63 (sint w)"; cases "has (int_flags (sp_char sp) (sp_flags sp)) FLAGS_LONG_LONG";
          cases "has (int_flags (sp_char sp) (sp_flags sp)) FLAGS_LONG")
        (simp_all add: put_integer_def integer_text_def prints_def Let_def signed_arg_def ntoa pair
          split: Option.bind_splits)
  next
    case False
    then show ?thesis
      using Some wv
      by (simp add: put_integer_def integer_text_def prints_def Let_def unsigned_arg_def ntoa pair)
  qed
qed

text \<open>A text with its padding, on the left or on the right.\<close>

lemma put_char_prints:
  assumes "sent t s = Some st"
  shows "put_char out maxlen sp va st = prints t s (map_option (\<lambda>(w, va).
    (padded (sp_flags sp) (unat (sp_width sp) - 1) [char_of (unat (ucast w :: u8))], va)) (va_word va))"
proof (cases "va_word va")
  case (Some wv)
  then show ?thesis
    by (cases "has (sp_flags sp) FLAGS_LEFT") (simp_all add: put_char_def prints_def spaces_def padded_def
        sent_list_Some [OF assms] sent_seq map_conv_bind_option comp_def case_prod_unfold Let_def
        del: out_list.simps)
qed (simp add: put_char_def prints_def Let_def split: Option.bind_splits)

lemma put_string_prints:
  assumes "sent t s = Some st"
  shows "put_string out maxlen sp va st = prints t s (map_option (\<lambda>(p, va).
    (let precision = unat (sp_precision sp);
         l = strnlen_s p (if precision \<noteq> 0 then ucast (sp_precision sp) else - 1);
         l = (if has (sp_flags sp) FLAGS_PRECISION then min l precision else l)
     in (padded (sp_flags sp) (unat (sp_width sp) - l)
           (c_prefix p precision (has (sp_flags sp) FLAGS_PRECISION)), va))) (va_string va))"
proof (cases "va_string va")
  case (Some pv)
  then show ?thesis
    by (cases "has (sp_flags sp) FLAGS_LEFT") (simp_all add: put_string_def prints_def spaces_def padded_def
        sent_list_Some [OF assms] sent_seq map_conv_bind_option comp_def case_prod_unfold Let_def
        del: out_list.simps)
qed (simp add: put_string_def prints_def)

lemma put_spec_prints:
  assumes "sent t s = Some st"
  shows "put_spec out maxlen sp va st = prints t s (spec_text sp va)"
proof -
  have pointer: "put_pointer out maxlen sp va st = prints t s (map_option (\<lambda>(w, va).
        (ntoa_text w False 16 (sp_precision sp) 16
          (sp_flags sp OR FLAGS_ZEROPAD OR FLAGS_UPPERCASE), va)) (va_word va))"
    by (cases "va_word va")
      (auto simp: put_pointer_def sent_ntoa [OF assms] prints_def map_conv_bind_option comp_def)
  have other: "map_option (\<lambda>st. (st, va)) (out_list out maxlen [sp_char sp] st) =
      prints t s (Some ([sp_char sp], va))"
    by (simp add: prints_def sent_list_Some [OF assms] del: out_list.simps)
  show ?thesis
    unfolding put_spec_def spec_text_def
    using put_integer_prints [OF assms, of sp va] put_char_prints [OF assms, of sp va]
      put_string_prints [OF assms, of sp va] pointer other by presburger
qed

lemma sent_bind_prints:
  "Option.bind (prints t s result) f = Option.bind result (\<lambda>(u, va). Option.bind (sent (t @ u) s) (\<lambda>st. f (st, va)))"
  by (cases result) (auto simp: prints_def bind_map_option comp_def)

lemma sent_loop:
  "sent t s = Some st \<Longrightarrow> vsnprintf_loop out maxlen format va st =
    Option.bind (format_text format va) (\<lambda>u. sent (t @ u) s)"
proof (induction format va arbitrary: t st rule: format_text.induct)
  case (1 va)
  then show ?case by simp
next
  case (2 c format va)
  consider "c = NUL" | "c \<noteq> NUL" "c \<noteq> CHR ''%''" | "c \<noteq> NUL" "c = CHR ''%''" by blast
  then show ?case
  proof cases
    case 1
    with "2.prems" show ?thesis by simp
  next
    case 2
    have one: "out_list out maxlen [c] st = sent (t @ [c]) s" by (rule sent_list_Some [OF "2.prems"])
    show ?thesis
    proof (cases "sent (t @ [c]) s")
      case None
      then have "sent (t @ c # u) s = None" for u
        using sent_list [of "t @ [c]" s u] by simp
      with 2 one None show ?thesis
        by (cases "format_text format va") (simp_all del: out_list.simps)
    next
      case (Some st')
      then show ?thesis
        using 2 one "2.IH"(1) [OF 2 Some]
        by (simp del: out_list.simps add: bind_map_option comp_def)
    qed
  next
    case 3
    show ?thesis
    proof (cases "parse_spec format va")
      case None
      with 3 show ?thesis by simp
    next
      case (Some r)
      obtain sp format' va' where r: "r = (sp, format', va')" by (cases r)
      show ?thesis
      proof (cases "spec_text sp va'")
        case None
        with 3 Some r show ?thesis
          using put_spec_prints [OF "2.prems", of sp va'] by (simp add: prints_def)
      next
        case (Some q)
        obtain u va'' where q: "q = (u, va'')" by (cases q)
        show ?thesis
        proof (cases "sent (t @ u) s")
          case None
          then have "sent (t @ u @ w) s = None" for w
            using sent_list [of "t @ u" s w] by simp
          then show ?thesis
            using 3 \<open>parse_spec format va = Some r\<close> r \<open>spec_text sp va' = Some q\<close> q None put_spec_prints [OF "2.prems", of sp va']
            by (cases "format_text format' va''") (simp_all add: prints_def)
        next
          case (Some st')
          note st' = this
          have "vsnprintf_loop out maxlen format' va'' st' =
              Option.bind (format_text format' va'') (\<lambda>w. sent ((t @ u) @ w) s)"
            using "2.IH"(2) 3 \<open>parse_spec format va = Some r\<close> r \<open>spec_text sp va' = Some q\<close> q st' by blast
          then show ?thesis
            using 3 \<open>parse_spec format va = Some r\<close> r \<open>spec_text sp va' = Some q\<close> q st' put_spec_prints [OF "2.prems", of sp va']
            by (simp add: prints_def bind_map_option comp_def)
        qed
      qed
    qed
  qed
qed

lemma vsnprintf_any_run:
  "vsnprintf_any out False maxlen format va s =
    Option.bind (format_text format va) (\<lambda>t. Option.bind (run t s) (\<lambda>r.
      map_option (\<lambda>r. (r, to_int32 (of_nat (length t))))
        (out NUL r (if length t < unat maxlen then length t else unat (maxlen - 1)) maxlen)))"
proof -
  have "vsnprintf_loop out maxlen format va (s, 0) = Option.bind (format_text format va) (\<lambda>u. sent u s)"
    using sent_loop [OF sent_nil] by simp
  then show ?thesis
    by (simp add: vsnprintf_any_def sent_def bind_map_option comp_def map_conv_bind_option Let_def)
qed

end

end
