(* ===== verification/Kprintf_Props.thy ===== *)
theory Kprintf_Props
  imports Kprintf_Text
begin

text \<open>
  The output functions of the kernel as instances of the interface, and the properties of
  formatted output: what ends up in a buffer, what a callback sees, and which text an integer
  is printed as.
\<close>

section \<open>The output functions\<close>

definition buffer_run :: "u64 \<Rightarrow> char list \<Rightarrow> char list \<Rightarrow> char list option" where
  "buffer_run maxlen t b =
     (if min (length t) (unat maxlen) \<le> length b
      then Some (take (unat maxlen) t @ drop (min (length t) (unat maxlen)) b) else None)"

interpretation buffer_sink: output_sink out_buffer maxlen "buffer_run maxlen" for maxlen
proof unfold_locales
  fix s c t
  show "buffer_run maxlen [] s = Some s" by (simp add: buffer_run_def)
  show "buffer_run maxlen (t @ [c]) s =
      Option.bind (buffer_run maxlen t s) (\<lambda>r. out_buffer c r (length t) maxlen)"
  proof (cases "length t < unat maxlen \<and> length t < length s")
    case True
    then have "drop (length t) s = s ! length t # drop (Suc (length t)) s"
      by (intro Cons_nth_drop_Suc [symmetric]) simp
    moreover have "min (length t) (unat maxlen) = length t" "min (length t + 1) (unat maxlen) = length t + 1"
      using True by simp_all
    ultimately show ?thesis
      using True by (simp add: out_buffer_def buffer_run_def list_update_append) arith
  next
    case False
    then show ?thesis by (auto simp: out_buffer_def buffer_run_def min_def)
  qed
qed

interpretation null_sink: output_sink out_null maxlen "\<lambda>t. Some" for maxlen
  by unfold_locales (simp_all add: out_null_def)

interpretation callback_sink: output_sink "out_fct fct" maxlen
  "\<lambda>t s. Some (fold fct (filter (\<lambda>c. c \<noteq> NUL) t) s)" for fct maxlen
  by unfold_locales (simp_all add: out_fct_def)

section \<open>Digits\<close>

definition digit_val :: "char \<Rightarrow> nat" where
  "digit_val c = (let n = of_char c in if n < 58 then n - 48 else if n < 91 then n - 55 else n - 87)"

text \<open>The number that a list of digits denotes, least significant digit first.\<close>

primrec digits_val :: "nat \<Rightarrow> char list \<Rightarrow> nat" where
  "digits_val base [] = 0"
| "digits_val base (c # cs) = digit_val c + base * digits_val base cs"

lemma digit_char_val: "d < 16 \<Longrightarrow> digit_val (digit_char up d) = d"
proof -
  assume "d < 16"
  then have "d \<in> set [0..<16]" by simp
  then show ?thesis
    by (simp add: upt_rec) (elim disjE; simp add: digit_val_def digit_char_def Let_def)
qed

lemma digits_val_append:
  "digits_val base (xs @ ys) = digits_val base xs + base ^ length xs * digits_val base ys"
  by (induction xs) (simp_all add: algebra_simps)

lemma ntoa_digits_val:
  assumes "2 \<le> unat base" "unat base \<le> 16" "length buf < 32"
  shows "\<exists>ds. ntoa_digits base up v buf = buf @ ds \<and> ds \<noteq> [] \<and> length buf + length ds \<le> 32 \<and>
    digits_val (unat base) ds = unat v mod unat base ^ (32 - length buf) \<and>
    (length ds = 1 \<or> unat base ^ (length ds - 1) \<le> unat v)"
  using assms(3)
proof (induction "32 - length buf" arbitrary: v buf)
  case (Suc k)
  let ?B = "unat base" and ?c = "digit_char up (unat (v mod base))"
  have "unat v mod ?B < 16"
    using mod_less_divisor [of ?B "unat v"] assms(1,2) by linarith
  then have d: "digit_val ?c = unat v mod ?B"
    by (simp add: digit_char_val unat_mod)
  have k: "32 - length buf = Suc k" "k = 32 - length (buf @ [?c])" using Suc.hyps(2) by simp_all
  show ?case
  proof (cases "v div base \<noteq> 0 \<and> length (buf @ [?c]) < PRINTF_NTOA_BUFFER_SIZE")
    case True
    then have more: "length (buf @ [?c]) < 32" by (simp add: PRINTF_NTOA_BUFFER_SIZE_def)
    obtain ds where ds: "ntoa_digits base up (v div base) (buf @ [?c]) = (buf @ [?c]) @ ds" "ds \<noteq> []"
      "length (buf @ [?c]) + length ds \<le> 32"
      "digits_val ?B ds = unat (v div base) mod ?B ^ k"
      "length ds = 1 \<or> ?B ^ (length ds - 1) \<le> unat (v div base)"
      using Suc.hyps(1) [OF k(2) more, of "v div base"] k(2) by metis
    have "ntoa_digits base up v buf = buf @ (?c # ds)"
      using True ds(1) by (subst ntoa_digits.simps) (simp add: Let_def)
    moreover have "digits_val ?B (?c # ds) = unat v mod ?B ^ Suc k"
      using d ds(4) mod_mult2_eq [of "unat v" ?B "?B ^ k"] by (simp add: unat_div)
    moreover have "?B ^ length ds \<le> unat v"
    proof -
      have "unat (v div base) \<noteq> 0"
        using True by (simp add: unat_eq_zero)
      then have "?B ^ (length ds - 1) \<le> unat v div ?B"
        using ds(5) by (auto simp: unat_div)
      then have "?B ^ (length ds - 1) * ?B \<le> unat v"
        using assms(1) by (simp add: less_eq_div_iff_mult_less_eq)
      moreover have "?B ^ length ds = ?B ^ (length ds - 1) * ?B"
        using ds(2) by (cases ds) simp_all
      ultimately show ?thesis by simp
    qed
    ultimately show ?thesis
      unfolding k(1) using ds(3) by (intro exI [of _ "?c # ds"]) simp
  next
    case False
    then have "ntoa_digits base up v buf = buf @ [?c]"
      by (subst ntoa_digits.simps) (auto simp: Let_def)
    moreover have "unat v mod ?B = unat v mod ?B ^ Suc k"
    proof (cases "v div base = 0")
      case True
      then have "unat v div ?B = 0" by (metis unat_div unat_eq_zero)
      then have "unat v < ?B" using assms(1) by (simp add: div_eq_0_iff)
      moreover have "?B ^ 1 \<le> ?B ^ Suc k"
        using assms(1) by (intro power_increasing) simp_all
      ultimately have "unat v < ?B ^ Suc k"
        unfolding power_one_right by (rule order_less_le_trans)
      with \<open>unat v < ?B\<close> show ?thesis by (simp only: mod_less)
    next
      case False
      then have "k = 0"
        using \<open>\<not> (v div base \<noteq> 0 \<and> _)\<close> k(1) by (simp add: PRINTF_NTOA_BUFFER_SIZE_def)
      then show ?thesis by simp
    qed
    ultimately show ?thesis
      using d k(1) Suc.prems by (intro exI [of _ "[?c]"]) simp
  qed
qed simp

text \<open>The usual notation of a number: no leading zero, most significant digit first.\<close>

fun show_base :: "nat \<Rightarrow> nat \<Rightarrow> char list" where
  "show_base base n =
     (if base < 2 \<or> n < base then [digit_char False n]
      else show_base base (n div base) @ [digit_char False (n mod base)])"

declare show_base.simps [simp del]

lemma ntoa_digits_show:
  assumes "2 \<le> unat base"
  shows "length buf < 32 \<Longrightarrow> unat v < unat base ^ (32 - length buf) \<Longrightarrow>
    rev (ntoa_digits base False v buf) = show_base (unat base) (unat v) @ rev buf"
proof (induction "32 - length buf" arbitrary: v buf)
  case (Suc k)
  let ?B = "unat base" and ?c = "digit_char False (unat (v mod base))"
  have k: "32 - length buf = Suc k" "k = 32 - length (buf @ [?c])" using Suc.hyps(2) by simp_all
  show ?case
  proof (cases "v div base = 0")
    case True
    then have "unat v div ?B = 0" by (metis unat_div unat_eq_zero)
    then have "unat v < ?B" using assms by (simp add: div_eq_0_iff)
    with True show ?thesis
      by (subst ntoa_digits.simps, subst show_base.simps) (simp add: Let_def unat_mod)
  next
    case False
    then have "unat v div ?B \<noteq> 0" by (metis unat_div unat_eq_zero)
    then have ge: "?B \<le> unat v" using assms by (auto simp: div_eq_0_iff)
    have "unat v < ?B ^ Suc k" using Suc.prems(2) k(1) by simp
    then have lt: "unat v div ?B < ?B ^ k"
      using assms by (simp add: less_mult_imp_div_less mult.commute)
    have "0 < k"
      using lt \<open>unat v div ?B \<noteq> 0\<close> by (cases k) simp_all
    then have more: "length (buf @ [?c]) < 32" using k(2) by simp
    have "rev (ntoa_digits base False (v div base) (buf @ [?c])) =
        show_base ?B (unat (v div base)) @ rev (buf @ [?c])"
      using Suc.hyps(1) [OF k(2) more] lt k(2) by (simp add: unat_div)
    then show ?thesis
      using False more ge assms
      by (subst ntoa_digits.simps, subst show_base.simps)
        (simp add: Let_def unat_mod unat_div PRINTF_NTOA_BUFFER_SIZE_def)
  qed
qed simp

section \<open>Plain conversions\<close>

lemma show_base_lt:
  assumes "unat (v :: u64) < unat (base :: u64) ^ 32" "2 \<le> unat base"
  shows "rev (ntoa_digits base False v []) = show_base (unat base) (unat v)"
  using ntoa_digits_show [OF assms(2), of "[]" v] assms(1) by simp

lemma parse_plain:
  assumes "c \<in> {CHR ''d'', CHR ''u'', CHR ''x'', CHR ''o''}"
  shows "parse_spec [c] va = Some (\<lparr>sp_flags = 0, sp_width = 0, sp_precision = 0, sp_char = c\<rparr>, [], va)"
    and "parse_spec [CHR ''l'', CHR ''l'', c] va =
      Some (\<lparr>sp_flags = FLAGS_LONG OR FLAGS_LONG_LONG, sp_width = 0, sp_precision = 0, sp_char = c\<rparr>, [], va)"
proof -
  have c: "is_digit c = False" "(c = NUL) = False" "(c = CHR ''*'') = False" "(c = CHR ''.'') = False"
    "(c = CHR ''l'') = False" "(c = CHR ''h'') = False" "(c = CHR ''t'') = False" "(c = CHR ''j'') = False"
    "(c = CHR ''z'') = False" "parse_flags [c] 0 = (0, [c])"
    using assms by (elim insertE emptyE; simp only:; code_simp)+
  have l: "is_digit CHR ''l'' = False" "parse_flags [CHR ''l'', CHR ''l'', c] 0 = (0, [CHR ''l'', CHR ''l'', c])"
    by (code_simp, simp)
  show "parse_spec [c] va = Some (\<lparr>sp_flags = 0, sp_width = 0, sp_precision = 0, sp_char = c\<rparr>, [], va)"
    by (simp add: parse_spec_def parse_width_def parse_precision_def parse_length_def next_is_def c
        del: parse_flags.simps)
  show "parse_spec [CHR ''l'', CHR ''l'', c] va =
      Some (\<lparr>sp_flags = FLAGS_LONG OR FLAGS_LONG_LONG, sp_width = 0, sp_precision = 0, sp_char = c\<rparr>, [], va)"
    by (simp add: parse_spec_def parse_width_def parse_precision_def parse_length_def next_is_def c l
        del: parse_flags.simps)
qed

lemma format_text_plain:
  assumes "c \<in> {CHR ''d'', CHR ''u'', CHR ''x'', CHR ''o''}"
  shows "format_text [CHR ''%'', c] va = map_option fst (integer_text
      \<lparr>sp_flags = 0, sp_width = 0, sp_precision = 0, sp_char = c\<rparr> va)"
    and "format_text [CHR ''%'', CHR ''l'', CHR ''l'', c] va = map_option fst (integer_text
      \<lparr>sp_flags = FLAGS_LONG OR FLAGS_LONG_LONG, sp_width = 0, sp_precision = 0, sp_char = c\<rparr> va)"
proof -
  have c: "sp_char sp = c \<Longrightarrow> spec_text sp va = integer_text sp va" for sp
    using assms by (auto simp: spec_text_def)
  have pct: "(CHR ''%'' = NUL) = False" by code_simp
  show "format_text [CHR ''%'', c] va = map_option fst (integer_text
      \<lparr>sp_flags = 0, sp_width = 0, sp_precision = 0, sp_char = c\<rparr> va)"
    by (simp add: parse_plain [OF assms] c pct map_conv_bind_option comp_def case_prod_unfold)
  show "format_text [CHR ''%'', CHR ''l'', CHR ''l'', c] va = map_option fst (integer_text
      \<lparr>sp_flags = FLAGS_LONG OR FLAGS_LONG_LONG, sp_width = 0, sp_precision = 0, sp_char = c\<rparr> va)"
    by (simp add: parse_plain [OF assms] c pct map_conv_bind_option comp_def case_prod_unfold)
qed

lemma digits_fit:
  assumes "2 \<le> unat base" "unat base \<le> 16" "unat v < unat base ^ 31"
  shows "length (ntoa_digits base up v []) < 32"
proof -
  obtain ds where ds: "ntoa_digits base up v [] = ds" "length ds = 1 \<or> unat base ^ (length ds - 1) \<le> unat v"
    using ntoa_digits_val [OF assms(1,2), of "[]" up v] by auto
  show ?thesis
  proof (cases "length ds = 1")
    case False
    with ds(2) assms(3) have "unat base ^ (length ds - 1) < unat base ^ 31" by linarith
    then have "length ds - 1 < 31"
      using assms(1) by (intro power_less_imp_less_exp [of "unat base" "length ds - 1" 31]) linarith+
    then show ?thesis by (simp add: ds(1))
  qed (simp add: ds(1))
qed

lemma ntoa_text_plain:
  assumes flags: "flags \<in> {0, FLAGS_LONG OR FLAGS_LONG_LONG}"
    and base: "2 \<le> unat base" "unat base \<le> 16" and fits: "unat v < unat base ^ 31"
  shows "ntoa_text v negative base 0 0 flags =
    (if negative then [CHR ''-''] else []) @ show_base (unat base) (unat v)"
proof -
  have "unat base ^ 31 \<le> unat base ^ 32" using base(1) by (intro power_increasing) simp_all
  then have shown: "rev (ntoa_digits base False v []) = show_base (unat base) (unat v)"
    using fits by (intro show_base_lt base) linarith
  have off: "has flags FLAGS_HASH = False" "has flags FLAGS_PRECISION = False" "has flags FLAGS_UPPERCASE = False"
    "has flags FLAGS_LEFT = False" "has flags FLAGS_ZEROPAD = False" "has flags FLAGS_PLUS = False"
    "has flags FLAGS_SPACE = False" "flags AND NOT FLAGS_HASH = flags"
    using flags by (auto simp: has_def FLAGS_HASH_def FLAGS_PRECISION_def FLAGS_UPPERCASE_def FLAGS_LEFT_def
        FLAGS_ZEROPAD_def FLAGS_PLUS_def FLAGS_SPACE_def FLAGS_LONG_def FLAGS_LONG_LONG_def)
  show ?thesis
    using digits_fit [OF base fits, of False] shown
    by (cases "v = 0"; cases negative) (simp_all add: ntoa_text_def format_digits_def ntoa_zeros_def
        ntoa_hash_def ntoa_sign_def rev_text_def off Let_def pad_zeros.simps spaces_def
        PRINTF_NTOA_BUFFER_SIZE_def)
qed

lemma int_base_plain:
  "int_base CHR ''d'' = 10" "int_base CHR ''u'' = 10" "int_base CHR ''x'' = 16" "int_base CHR ''o'' = 8"
  by (simp_all add: int_base_def)

lemma int_flags_plain:
  assumes "c \<in> {CHR ''d'', CHR ''u'', CHR ''x'', CHR ''o''}" "flags \<in> {0, FLAGS_LONG OR FLAGS_LONG_LONG}"
  shows "int_flags c flags = flags"
  using assms by (elim insertE emptyE; simp only:; code_simp)

lemma flag_bits:
  "has 0 f = False" "has (FLAGS_LONG OR FLAGS_LONG_LONG) FLAGS_LONG_LONG = True"
  by (simp_all add: has_def FLAGS_LONG_def FLAGS_LONG_LONG_def)

lemma fits_base:
  "unat (v :: u64) < unat (10 :: u64) ^ 31" "unat v < unat (16 :: u64) ^ 31" "unat v < unat (8 :: u64) ^ 31"
proof -
  have "unat v < 2 ^ LENGTH(64)" by (rule unsigned_less)
  then show "unat v < unat (10 :: u64) ^ 31" "unat v < unat (16 :: u64) ^ 31" "unat v < unat (8 :: u64) ^ 31"
    by simp_all
qed

lemma integer_text_unsigned:
  assumes "c \<in> {CHR ''u'', CHR ''x'', CHR ''o''}" and base: "int_base c = base"
    and fl: "flags \<in> {0, FLAGS_LONG OR FLAGS_LONG_LONG}"
  shows "map_option fst (integer_text \<lparr>sp_flags = flags, sp_width = 0, sp_precision = 0, sp_char = c\<rparr> (Va_Int w # va)) =
    Some (show_base (unat base) (unat (unsigned_arg flags w)))"
proof -
  have "2 \<le> unat base \<and> unat base \<le> 16 \<and> unat (unsigned_arg flags w) < unat base ^ 31"
    using assms(1) unfolding base [symmetric]
    by (elim insertE emptyE; simp only: int_base_plain fits_base; simp)
  then show ?thesis
    using assms(1) int_flags_plain [OF _ fl, of c]
    by (auto simp: integer_text_def Let_def base ntoa_text_plain [OF fl])
qed

text \<open>The usual decimal notation of an integer.\<close>

definition signed_text :: "int \<Rightarrow> char list" where
  "signed_text i = (if i < 0 then [CHR ''-''] else []) @ show_base 10 (nat \<bar>i\<bar>)"

lemma integer_text_signed:
  assumes fl: "flags \<in> {0, FLAGS_LONG OR FLAGS_LONG_LONG}" and w: "signed_arg flags w = Some (i, v)"
    and v: "v = \<bar>i\<bar>" "v < 2 ^ 64"
  shows "map_option fst (integer_text
      \<lparr>sp_flags = flags, sp_width = 0, sp_precision = 0, sp_char = CHR ''d''\<rparr> (Va_Int w # va)) =
    Some (signed_text i)"
proof -
  have "unat (word_of_int v :: u64) = nat \<bar>i\<bar>"
    using v take_bit_int_eq_self_iff [of 64 v] by (simp add: unsigned_of_int)
  then show ?thesis
    using int_flags_plain [OF _ fl, of "CHR ''d''"] w ntoa_text_plain [OF fl _ _ fits_base(1), of "word_of_int v"]
    by (simp add: integer_text_def Let_def int_base_plain signed_text_def)
qed

lemma signed_arg_int:
  assumes "to_int32 w \<noteq> - (2 ^ 31)"
  shows "signed_arg 0 w = Some (to_int32 w, \<bar>to_int32 w\<bar>)" and "\<bar>to_int32 w\<bar> < 2 ^ 64"
proof -
  show "signed_arg 0 w = Some (to_int32 w, \<bar>to_int32 w\<bar>)"
    using assms by (auto simp: signed_arg_def flag_bits c_abs_def Let_def)
  have "- (2 ^ 31) \<le> to_int32 w" "to_int32 w < 2 ^ 31"
    by (simp_all only: to_int32_def signed_take_bit_int_greater_eq_minus_exp signed_take_bit_int_less_exp)
  then show "\<bar>to_int32 w\<bar> < 2 ^ 64" by simp
qed

lemma signed_arg_long:
  assumes "sint w \<noteq> - (2 ^ 63)"
  shows "signed_arg (FLAGS_LONG OR FLAGS_LONG_LONG) w = Some (sint w, \<bar>sint w\<bar>)" and "\<bar>sint w\<bar> < 2 ^ 64"
proof -
  show "signed_arg (FLAGS_LONG OR FLAGS_LONG_LONG) w = Some (sint w, \<bar>sint w\<bar>)"
    using assms by (auto simp: signed_arg_def flag_bits c_abs_def Let_def)
  have "- (2 ^ (LENGTH(64) - 1)) \<le> sint w" "sint w < 2 ^ (LENGTH(64) - 1)"
    by (rule sint_ge, rule sint_lt)
  then show "\<bar>sint w\<bar> < 2 ^ 64" by simp
qed

section \<open>Whole strings\<close>

text \<open>The text and its terminator in the buffer.\<close>

lemma buffer_terminated:
  "Option.bind (buffer_run count t buf) (\<lambda>r. map_option (\<lambda>r. (r, n))
      (out_buffer NUL r (if length t < unat count then length t else unat (count - 1)) count)) =
    (if count = 0 then Some (buf, n)
     else if min (length t) (unat count - 1) < length buf
     then Some (take (unat count - 1) t @ [NUL] @ drop (min (length t) (unat count - 1) + 1) buf, n)
     else None)"
proof (cases "count = 0")
  case True
  then show ?thesis by (simp add: out_buffer_def buffer_run_def)
next
  case False
  then have n: "0 < unat count" "unat (count - 1) = unat count - 1"
    by (simp_all add: unat_gt_0 unat_minus_one)
  define k where "k = min (length t) (unat count - 1)"
  have pos: "(if length t < unat count then length t else unat (count - 1)) = k"
    using n by (auto simp: k_def)
  have lt: "k < unat count" using n by (auto simp: k_def)
  show ?thesis
  proof (cases "k < length buf")
    case True
    then have fits: "min (length t) (unat count) \<le> length buf" using n by (auto simp: k_def)
    define r where "r = take (unat count) t @ drop (min (length t) (unat count)) buf"
    have "length r = length buf" using fits by (auto simp: r_def)
    moreover have "r[k := NUL] = take (unat count - 1) t @ [NUL] @ drop (k + 1) buf"
      using True lt n fits
      by (auto simp: r_def upd_conv_take_nth_drop k_def min_def take_Cons' drop_Cons' not_less)
    ultimately show ?thesis
      using True lt False fits unfolding pos k_def [symmetric]
      by (simp add: out_buffer_def buffer_run_def r_def)
  next
    case no: False
    then show ?thesis
      using lt n \<open>count \<noteq> 0\<close> unfolding pos k_def [symmetric]
      by (auto simp: out_buffer_def buffer_run_def k_def min_def split: if_splits)
  qed
qed

section \<open>Properties\<close>

lemma buffer_printed:
  "vsnprintf_any out_buffer False count format va buf =
    Option.bind (format_text format va) (\<lambda>t.
      if count = 0 then Some (buf, to_int32 (of_nat (length t)))
      else if min (length t) (unat count - 1) < length buf
      then Some (take (unat count - 1) t @ [NUL] @ drop (min (length t) (unat count - 1) + 1) buf,
                 to_int32 (of_nat (length t)))
      else None)"
  unfolding buffer_sink.vsnprintf_any_run
  by (intro Option.bind_cong refl) (simp add: buffer_terminated)

text \<open>C26: \<open>snprintf\<close> writes the text of the format into the buffer, cut to \<open>count - 1\<close> characters
  and followed by a terminator; the rest of the buffer is untouched, nothing is written for a
  count of 0, and the result is the length of the whole text. It writes past the buffer exactly when the
  position of the terminator lies outside it.\<close>

theorem snprintf_writes_text:
  "snprintf False buf count format va =
    Option.bind (format_text format va) (\<lambda>t.
      if count = 0 then Some (buf, to_int32 (of_nat (length t)))
      else if min (length t) (unat count - 1) < length buf
      then Some (take (unat count - 1) t @ [NUL] @ drop (min (length t) (unat count - 1) + 1) buf,
                 to_int32 (of_nat (length t)))
      else None)"
  unfolding snprintf_def by (rule buffer_printed)





end
