(* ===== verification/Kprintf_Seq.thy ===== *)
theory Kprintf_Seq
  imports Kprintf_Props
begin

text \<open>
  The text of a format piece by piece: literal text, strings, decimal integers and
  64-bit integers as sixteen hexadecimal digits, each followed by the rest of the format.
\<close>

lemma format_literal:
  "\<forall>c \<in> set l. c \<noteq> NUL \<and> c \<noteq> CHR ''%'' \<Longrightarrow> format_text (l @ f) va = map_option ((@) l) (format_text f va)"
proof (induction l)
  case Nil
  have "(@) [] = (\<lambda>t :: char list. t)" by auto
  then show ?case by (simp add: option.map_ident)
next
  case (Cons c l)
  have "(@) (c # l) = (\<lambda>t. c # l @ t)" by auto
  with Cons show ?case by (simp add: option.map_comp comp_def)
qed

lemma parse_char:
  assumes "c \<in> {CHR ''d'', CHR ''s''}"
  shows "parse_spec (c # f) va = Some (\<lparr>sp_flags = 0, sp_width = 0, sp_precision = 0, sp_char = c\<rparr>, f, va)"
proof -
  have c: "is_digit c = False" "(c = NUL) = False" "(c = CHR ''*'') = False" "(c = CHR ''.'') = False"
    "(c = CHR ''l'') = False" "(c = CHR ''h'') = False" "(c = CHR ''t'') = False" "(c = CHR ''j'') = False"
    "(c = CHR ''z'') = False"
    using assms by (elim insertE emptyE; simp only:; code_simp)+
  have "parse_flags (c # f) 0 = (0, c # f)" using assms by auto
  then show ?thesis
    by (simp add: parse_spec_def parse_width_def parse_precision_def parse_length_def next_is_def c
        del: parse_flags.simps)
qed

lemma format_conversion:
  assumes "parse_spec f va = Some (sp, f', va')" "spec_text sp va' = Some (u, va'')"
  shows "format_text (CHR ''%'' # f) va = map_option ((@) u) (format_text f' va'')"
proof -
  have "(CHR ''%'' = NUL) = False" by code_simp
  then show ?thesis using assms by simp
qed

lemma c_prefix_whole: "NUL \<notin> set p \<Longrightarrow> c_prefix p n False = p"
  by (induction p arbitrary: n) auto

lemma format_string:
  assumes "NUL \<notin> set p"
  shows "format_text (''%s'' @ f) (Va_Str p # va) = map_option ((@) p) (format_text f va)"
proof -
  let ?sp = "\<lparr>sp_flags = 0, sp_width = 0, sp_precision = 0, sp_char = CHR ''s''\<rparr>"
  have "spec_text ?sp (Va_Str p # va) = Some (p, va)"
    by (simp add: spec_text_def padded_def spaces_def flag_bits c_prefix_whole [OF assms] Let_def)
  then show ?thesis
    using format_conversion [OF parse_char [of "CHR ''s''" f "Va_Str p # va"]] by simp
qed

lemma integer_text_rest: "integer_text sp (Va_Int w # va) = Some (t, va') \<Longrightarrow> va' = va"
  by (auto simp: integer_text_def Let_def split: Option.bind_splits if_splits)

lemma format_decimal:
  assumes "to_int32 w \<noteq> - (2 ^ 31)"
  shows "format_text (''%d'' @ f) (Va_Int w # va) = map_option ((@) (signed_text (to_int32 w))) (format_text f va)"
proof -
  let ?sp = "\<lparr>sp_flags = 0, sp_width = 0, sp_precision = 0, sp_char = CHR ''d''\<rparr>"
  have "map_option fst (integer_text ?sp (Va_Int w # va)) = Some (signed_text (to_int32 w))"
    using integer_text_signed [OF _ signed_arg_int(1) refl signed_arg_int(2), of w va] assms by simp
  then obtain va' where "integer_text ?sp (Va_Int w # va) = Some (signed_text (to_int32 w), va')" by auto
  with integer_text_rest [OF this] have "spec_text ?sp (Va_Int w # va) = Some (signed_text (to_int32 w), va)"
    by (simp add: spec_text_def)
  then show ?thesis
    using format_conversion [OF parse_char [of "CHR ''d''" f "Va_Int w # va"]] by simp
qed

section \<open>Sixteen hexadecimal digits\<close>

definition hex16 :: "u64 \<Rightarrow> char list" where
  "hex16 w = rev (pad_zeros 16 (ntoa_digits 16 False w []))"

lemma pad_zeros_length: "n \<le> 32 \<Longrightarrow> length (pad_zeros n buf) = max n (length buf)"
  by (induction n buf rule: pad_zeros.induct)
    (subst pad_zeros.simps, auto simp: PRINTF_NTOA_BUFFER_SIZE_def max_def)

lemma pad_zeros_set: "set (pad_zeros n buf) \<subseteq> insert CHR ''0'' (set buf)"
  by (induction n buf rule: pad_zeros.induct) (subst pad_zeros.simps, auto)

lemma hex16_length: "length (hex16 w) = 16"
proof -
  have "unat w < 2 ^ LENGTH(64)" by (rule unsigned_less)
  then have less: "unat w < 16 ^ 16" by simp
  obtain ds where ds: "ntoa_digits 16 False w [] = ds" "ds \<noteq> []" "length ds = 1 \<or> 16 ^ (length ds - 1) \<le> unat w"
    using ntoa_digits_val [of 16 "[]" False w] by auto
  have "length ds \<le> 16"
  proof (rule ccontr)
    assume long: "\<not> length ds \<le> 16"
    then have "(16 :: nat) ^ 16 \<le> 16 ^ (length ds - 1)" by (intro power_increasing) auto
    with ds(3) less long show False by auto
  qed
  then show ?thesis by (simp add: hex16_def ds pad_zeros_length)
qed

text \<open>The characters of numbers.\<close>

definition digit_chars :: "char set" where
  "digit_chars = set ''0123456789abcdefABCDEF''"

lemma digit_char_digits: "d < 16 \<Longrightarrow> digit_char up d \<in> digit_chars"
proof -
  assume "d < 16"
  moreover have "\<forall>d \<in> set [0..<16]. \<forall>up \<in> set [False, True]. digit_char up d \<in> digit_chars"
    unfolding digit_chars_def by code_simp
  ultimately show ?thesis by (cases up) auto
qed

lemma digit_chars_not_nul: "NUL \<notin> digit_chars" "NUL \<noteq> CHR ''-''"
  unfolding digit_chars_def by code_simp+

lemma ntoa_digits_digits:
  "unat base \<le> 16 \<Longrightarrow> base \<noteq> 0 \<Longrightarrow> set buf \<subseteq> digit_chars \<Longrightarrow> set (ntoa_digits base up v buf) \<subseteq> digit_chars"
proof (induction base up v buf rule: ntoa_digits.induct)
  case (1 base up v buf)
  have "unat (v mod base) < 16"
    using "1.prems"(1,2) by (simp add: unat_mod unat_gt_0 order_less_le_trans [OF mod_less_divisor])
  then have "set (buf @ [digit_char up (unat (v mod base))]) \<subseteq> digit_chars"
    using "1.prems"(3) digit_char_digits by simp
  with 1 show ?case by (subst ntoa_digits.simps) (simp add: Let_def)
qed

lemma hex16_digits: "set (hex16 w) \<subseteq> digit_chars"
proof -
  have "CHR ''0'' \<in> digit_chars" unfolding digit_chars_def by simp
  then show ?thesis
    using pad_zeros_set [of 16 "ntoa_digits 16 False w []"] ntoa_digits_digits [of 16 "[]" False w]
    by (auto simp: hex16_def)
qed

lemma hex16_not_nul: "NUL \<notin> set (hex16 w)"
  using hex16_digits digit_chars_not_nul by blast

lemma show_base_digits: "2 \<le> base \<Longrightarrow> base \<le> 16 \<Longrightarrow> set (show_base base n) \<subseteq> digit_chars"
proof (induction base n rule: show_base.induct)
  case (1 base n)
  have "n mod base < 16" using mod_less_divisor [of base n] "1.prems" by linarith
  then have "digit_char False (n mod base) \<in> digit_chars" by (rule digit_char_digits)
  moreover have "n < base \<Longrightarrow> digit_char False n \<in> digit_chars"
    using "1.prems" by (intro digit_char_digits) simp
  ultimately show ?case
    using 1 by (subst show_base.simps) (auto simp: not_less)
qed

lemma signed_text_digits: "set (signed_text i) \<subseteq> insert CHR ''-'' digit_chars"
  using show_base_digits [of 10 "nat \<bar>i\<bar>"] by (auto simp: signed_text_def)

lemma signed_text_not_nul: "NUL \<notin> set (signed_text i)"
  using signed_text_digits digit_chars_not_nul by blast

lemma format_hex16:
  "format_text (''%.16llx'' @ f) (Va_Int w # va) = map_option ((@) (hex16 w)) (format_text f va)"
proof -
  let ?fl = "(FLAGS_PRECISION OR FLAGS_LONG) OR FLAGS_LONG_LONG"
  let ?sp = "\<lparr>sp_flags = ?fl, sp_width = 0, sp_precision = 16, sp_char = CHR ''x''\<rparr>"
  have chars: "(CHR ''x'' = NUL) = False" "is_digit CHR ''.'' = False" "is_digit CHR ''1''" "is_digit CHR ''6''"
    "is_digit CHR ''l'' = False" by code_simp+
  have parse: "parse_spec (''.16llx'' @ f) (Va_Int w # va) = Some (?sp, f, Va_Int w # va)"
    by (simp add: parse_spec_def parse_width_def parse_precision_def parse_length_def next_is_def chars atoi_def)
  have has: "has ?fl FLAGS_PRECISION" "has ?fl FLAGS_LONG_LONG" "\<not> has ?fl FLAGS_HASH" "\<not> has ?fl FLAGS_LEFT"
    "\<not> has ?fl FLAGS_ZEROPAD" "\<not> has ?fl FLAGS_PLUS" "\<not> has ?fl FLAGS_SPACE" "\<not> has ?fl FLAGS_UPPERCASE"
    by (code_simp)+
  have "int_flags CHR ''x'' ?fl = ?fl" "?fl AND NOT FLAGS_HASH = ?fl" by code_simp+
  moreover have "pad_zeros 16 [] = pad_zeros 16 (ntoa_digits 16 False 0 [])" by code_simp
  moreover have "length (pad_zeros 16 (ntoa_digits 16 False w [])) = 16"
    using hex16_length [of w] by (simp add: hex16_def)
  ultimately have "ntoa_text w False 16 16 0 ?fl = hex16 w"
    using has by (cases "w = 0") (simp_all add: ntoa_text_def format_digits_def ntoa_zeros_def ntoa_hash_def
        ntoa_sign_def rev_text_def Let_def spaces_def hex16_def PRINTF_NTOA_BUFFER_SIZE_def)
  then have "spec_text ?sp (Va_Int w # va) = Some (hex16 w, va)"
    using has \<open>int_flags CHR ''x'' ?fl = ?fl\<close>
    by (simp add: spec_text_def integer_text_def Let_def unsigned_arg_def int_base_def)
  then show ?thesis
    using format_conversion [OF parse] by simp
qed

end
