(* ===== verification/Serial.thy ===== *)
theory Serial
  imports Port_IO
begin

text \<open>
  \<open>devices/serial\<close>: the driver of the first serial port. Its waiting loops may not end, so
  they are partial functions: \<open>None\<close> is a loop that waits for ever. A C string is the list
  of its characters before the terminator.
\<close>

definition COM1 :: u16 where "COM1 = 0x3f8"

definition TERM_BLACK :: string where "TERM_BLACK = char_of (27 :: nat) # ''[0;30m''"
definition TERM_RED :: string where "TERM_RED = char_of (27 :: nat) # ''[0;31m''"
definition TERM_GREEN :: string where "TERM_GREEN = char_of (27 :: nat) # ''[0;32m''"
definition TERM_YELLOW :: string where "TERM_YELLOW = char_of (27 :: nat) # ''[0;33m''"
definition TERM_BLUE :: string where "TERM_BLUE = char_of (27 :: nat) # ''[0;34m''"
definition TERM_PURPLE :: string where "TERM_PURPLE = char_of (27 :: nat) # ''[0;35m''"
definition TERM_CYAN :: string where "TERM_CYAN = char_of (27 :: nat) # ''[0;36m''"
definition TERM_WHITE :: string where "TERM_WHITE = char_of (27 :: nat) # ''[0;37m''"
definition TERM_COLOR_RESET :: string where "TERM_COLOR_RESET = char_of (27 :: nat) # ''[0m''"

definition serial_init :: "'d bus \<Rightarrow> ('d, unit) state" where
  "serial_init bus = do {
     io_outb bus (COM1 + 1) 0x00;
     io_outb bus (COM1 + 3) 0x80;
     io_outb bus (COM1 + 0) 0x03;
     io_outb bus (COM1 + 1) 0x00;
     io_outb bus (COM1 + 3) 0x03;
     io_outb bus (COM1 + 2) 0xC7;
     io_outb bus (COM1 + 4) 0x0B
   }"

definition is_serial_received :: "'d bus \<Rightarrow> ('d, u8) state" where
  "is_serial_received bus = do { v \<leftarrow> io_inb bus (COM1 + 5); State_Monad.return (v AND 1) }"

partial_function (option) wait_received :: "'d bus \<Rightarrow> 'd \<Rightarrow> 'd option" where
  "wait_received bus d =
     (let (v, d) = run_state (is_serial_received bus) d
      in if v = 0 then wait_received bus d else Some d)"

definition serial_recv :: "'d bus \<Rightarrow> 'd \<Rightarrow> (u8 \<times> 'd) option" where
  "serial_recv bus d = map_option (run_state (io_inb bus COM1)) (wait_received bus d)"

definition is_transmit_empty :: "'d bus \<Rightarrow> ('d, u8) state" where
  "is_transmit_empty bus = do { v \<leftarrow> io_inb bus (COM1 + 5); State_Monad.return (v AND 0x20) }"

partial_function (option) wait_transmit :: "'d bus \<Rightarrow> 'd \<Rightarrow> 'd option" where
  "wait_transmit bus d =
     (let (v, d) = run_state (is_transmit_empty bus) d
      in if v = 0 then wait_transmit bus d else Some d)"

definition serial_send_char :: "'d bus \<Rightarrow> char \<Rightarrow> 'd \<Rightarrow> 'd option" where
  "serial_send_char bus c d =
     map_option (\<lambda>d. snd (run_state (io_outb bus COM1 (of_nat (of_char c))) d)) (wait_transmit bus d)"

primrec serial_send_string :: "'d bus \<Rightarrow> string \<Rightarrow> 'd \<Rightarrow> 'd option" where
  "serial_send_string bus [] d = Some d"
| "serial_send_string bus (c # s) d =
     Option.bind (serial_send_char bus c d) (serial_send_string bus s)"

definition serial_set_color :: "'d bus \<Rightarrow> string \<Rightarrow> 'd \<Rightarrow> 'd option" where
  "serial_set_color bus color_code d =
     (case color_code of
        a # b # _ \<Rightarrow> if a \<noteq> char_of (27 :: nat) \<or> b \<noteq> CHR ''['' then Some d
                     else serial_send_string bus color_code d
      | _ \<Rightarrow> Some d)"

section \<open>A port that drains\<close>

text \<open>
  What the driver relies on: the transmitter reports ready (bit 5 of the line status) exactly
  when it has no more work, \<open>busy\<close> bounds the polls until then, polling sends nothing, and
  a character written while ready is sent.
\<close>

definition drains :: "'d bus \<Rightarrow> ('d \<Rightarrow> nat) \<Rightarrow> ('d \<Rightarrow> u8 list) \<Rightarrow> bool" where
  "drains bus busy sent \<longleftrightarrow>
     (\<forall>d. (fst (bus_in bus (COM1 + 5) d) AND 0x20 = 0 \<longleftrightarrow> busy d \<noteq> 0) \<and>
          busy (snd (bus_in bus (COM1 + 5) d)) = busy d - 1 \<and>
          sent (snd (bus_in bus (COM1 + 5) d)) = sent d) \<and>
     (\<forall>d c. busy d = 0 \<longrightarrow> sent (bus_out bus COM1 c d) = sent d @ [c])"

lemma wait_transmit_drains:
  assumes "drains bus busy sent"
  shows "\<exists>d'. wait_transmit bus d = Some d' \<and> busy d' = 0 \<and> sent d' = sent d"
proof (induction "busy d" arbitrary: d)
  case 0
  then show ?case
    using assms by (subst wait_transmit.simps)
      (auto simp: is_transmit_empty_def run_bind drains_def simp del: run_state_bind)
next
  case (Suc n)
  let ?d = "snd (bus_in bus (COM1 + 5) d)"
  have "n = busy ?d" "sent ?d = sent d" "fst (bus_in bus (COM1 + 5) d) AND 0x20 = 0"
    using assms Suc.hyps(2) unfolding drains_def by auto
  with Suc.hyps(1) [of ?d] show ?case
    by (subst wait_transmit.simps) (auto simp: is_transmit_empty_def run_bind simp del: run_state_bind)
qed

lemma serial_send_char_drains:
  assumes "drains bus busy sent"
  shows "\<exists>d'. serial_send_char bus c d = Some d' \<and> sent d' = sent d @ [of_nat (of_char c)]"
  using wait_transmit_drains [OF assms, of d] assms by (auto simp: serial_send_char_def drains_def)

lemma serial_string_sent:
  assumes "drains bus busy sent"
  shows "\<exists>d'. serial_send_string bus s d = Some d' \<and> sent d' = sent d @ map (\<lambda>c. of_nat (of_char c)) s"
proof (induction s arbitrary: d)
  case (Cons c s)
  obtain d1 where d1: "serial_send_char bus c d = Some d1" "sent d1 = sent d @ [of_nat (of_char c)]"
    using serial_send_char_drains [OF assms] by blast
  with Cons.IH [of d1] show ?case by auto
qed simp

section \<open>Properties\<close>

text \<open>On a port that drains, \<open>serial_send_string\<close> returns, and has sent the characters of
  the string, each once and in order.\<close>

theorem serial_send_string_delivers:
  assumes "drains bus busy sent"
  shows "\<exists>d'. serial_send_string bus s d = Some d' \<and>
    sent d' = sent d @ map (\<lambda>c. of_nat (of_char c)) s"
  by (rule serial_string_sent [OF assms])

text \<open>A transmitter that needs three polls for a character.\<close>

definition slow_port :: "(nat \<times> u8 list) bus" where
  "slow_port = \<lparr>bus_in = (\<lambda>port d. (if fst d = 0 then 0x60 else 0, (fst d - 1, snd d))),
     bus_out = (\<lambda>port c d. (3, snd d @ [c]))\<rparr>"

theorem serial_send_string_delivers_witness:
  "\<exists>d'. serial_send_string slow_port ''ok'' (2, []) = Some d' \<and> snd d' = [0x6F, 0x6B]"
proof -
  have "drains slow_port fst snd"
    by (simp add: drains_def slow_port_def)
  then show ?thesis
    using serial_send_string_delivers [of slow_port fst snd "''ok''" "(2, [])"] by simp
qed

end
