(* ===== verification/Log.thy ===== *)
theory Log
  imports Kprintf_Seq Serial
begin

text \<open>
  \<open>libk/debug\<close>, \<open>libk/stdio\<close> and \<open>libk/log\<close>: formatted output to the serial port and to the
  screen, through static buffers of 5120 bytes that \<open>vsnprintf\<close> is given without a limit. The screen is
  a parameter \<open>screen string color s\<close> on a state \<open>s\<close> (the framebuffer's \<open>print_string\<close>).
\<close>

section \<open>Buffers\<close>

record log_buffers =
  debug_buffer :: "char list"
  printk_buffer :: "char list"
  log_buffer :: "char list"

definition boot_buffers :: log_buffers where
  "boot_buffers = \<lparr>debug_buffer = replicate 5120 NUL, printk_buffer = replicate 5120 NUL,
     log_buffer = replicate 5120 NUL\<rparr>"

text \<open>The C string in a buffer.\<close>

definition c_string :: "char list \<Rightarrow> string" where
  "c_string buf = takeWhile (\<lambda>c. c \<noteq> NUL) buf"

section \<open>Printing\<close>

type_synonym 's screen = "string \<Rightarrow> u32 \<Rightarrow> 's \<Rightarrow> 's option"

definition debug ::
    "'d bus \<Rightarrow> string \<Rightarrow> va_arg list \<Rightarrow> log_buffers \<times> 'd \<Rightarrow> (log_buffers \<times> 'd) option" where
  "debug bus fmt va st = do {
     let (b, d) = st;
     (buf, n) \<leftarrow> vsnprintf False (debug_buffer b) (- 1) fmt va;
     d \<leftarrow> serial_send_string bus (c_string buf) d;
     Some (b\<lparr>debug_buffer := buf\<rparr>, d)
   }"

definition printk ::
    "'s screen \<Rightarrow> u32 \<Rightarrow> string \<Rightarrow> va_arg list \<Rightarrow> log_buffers \<times> 's \<Rightarrow> (log_buffers \<times> 's) option" where
  "printk screen foreground_color fmt va st = do {
     let (b, s) = st;
     (buf, n) \<leftarrow> vsnprintf False (printk_buffer b) (- 1) fmt va;
     s \<leftarrow> screen (c_string buf) foreground_color s;
     Some (b\<lparr>printk_buffer := buf\<rparr>, s)
   }"

section \<open>Logging\<close>

datatype status = INFO | WARNING | ERROR

definition GFX_RED :: u32 where "GFX_RED = 0xFFBF616A"
definition GFX_YELLOW :: u32 where "GFX_YELLOW = 0xFFEBCA8B"
definition GFX_CYAN :: u32 where "GFX_CYAN = 0xFF88C0D0"

text \<open>The arrow between the position and the message, in UTF-8.\<close>

definition arrow :: string where
  "arrow = map char_of [0xE2, 0x94, 0x80, 0xE2, 0x86, 0x92 :: nat]"

definition status_color :: "status \<Rightarrow> string" where
  "status_color status = (case status of INFO \<Rightarrow> TERM_CYAN | WARNING \<Rightarrow> TERM_YELLOW | ERROR \<Rightarrow> TERM_RED)"

definition status_tag :: "status \<Rightarrow> string" where
  "status_tag status =
     (case status of INFO \<Rightarrow> ''[INFO]    | '' | WARNING \<Rightarrow> ''[WARNING] | '' | ERROR \<Rightarrow> ''[ERROR]   | '')"

definition serial_color :: "'d bus \<Rightarrow> string \<Rightarrow> log_buffers \<times> 'd \<Rightarrow> (log_buffers \<times> 'd) option" where
  "serial_color bus color st = map_option (Pair (fst st)) (serial_set_color bus color (snd st))"

definition serial_log_impl ::
    "'d bus \<Rightarrow> string \<Rightarrow> u64 \<Rightarrow> status \<Rightarrow> string \<Rightarrow> va_arg list \<Rightarrow> log_buffers \<times> 'd \<Rightarrow> (log_buffers \<times> 'd) option" where
  "serial_log_impl bus description line_nr status fmt va st = do {
     (buf, n) \<leftarrow> vsnprintf False (log_buffer (fst st)) (- 1) fmt va;
     let st = ((fst st)\<lparr>log_buffer := buf\<rparr>, snd st);
     st \<leftarrow> serial_color bus (status_color status) st;
     st \<leftarrow> debug bus (status_tag status) [] st;
     st \<leftarrow> debug bus (''%s:%d '' @ arrow @ '' %s'') [Va_Str description, Va_Int line_nr, Va_Str (c_string buf)] st;
     serial_color bus TERM_COLOR_RESET st
   }"

definition kernel_log_impl ::
    "'s screen \<Rightarrow> string \<Rightarrow> u64 \<Rightarrow> status \<Rightarrow> string \<Rightarrow> va_arg list \<Rightarrow> log_buffers \<times> 's \<Rightarrow> (log_buffers \<times> 's) option" where
  "kernel_log_impl screen description line_nr status fmt va st = do {
     (buf, n) \<leftarrow> vsnprintf False (log_buffer (fst st)) (- 1) fmt va;
     let st = ((fst st)\<lparr>log_buffer := buf\<rparr>, snd st);
     let color = (case status of INFO \<Rightarrow> GFX_CYAN | WARNING \<Rightarrow> GFX_YELLOW | ERROR \<Rightarrow> GFX_RED);
     printk screen color (status_tag status @ ''%s:%d '' @ arrow @ '' %s'')
       [Va_Str description, Va_Int line_nr, Va_Str (c_string buf)] st
   }"

section \<open>What is printed\<close>

lemma vsnprintf_unlimited:
  assumes "length t < 2 ^ 64 - 2" "format_text fmt va = Some t"
  shows "vsnprintf False buf (- 1) fmt va =
    (if length t < length buf then Some (t @ [NUL] @ drop (length t + 1) buf, to_int32 (of_nat (length t))) else None)"
proof -
  have "unat (- 1 :: u64) = 2 ^ 64 - 1" by (simp add: unsigned_minus_1_eq_mask mask_eq_exp_minus_1)
  then have "min (length t) (unat (- 1 :: u64) - 1) = length t" "take (unat (- 1 :: u64) - 1) t = t"
    using assms(1) by simp_all
  then show ?thesis
    unfolding vsnprintf_def buffer_printed assms(2) Option.bind.bind_lunit by simp
qed

lemma c_string_text: "NUL \<notin> set t \<Longrightarrow> c_string (t @ [NUL] @ r) = t"
  by (induction t) (auto simp: c_string_def)

text \<open>The bytes of a text.\<close>

abbreviation bytes :: "string \<Rightarrow> u8 list" where
  "bytes t \<equiv> map (\<lambda>c. of_nat (of_char c)) t"

definition buffers_ok :: "log_buffers \<Rightarrow> bool" where
  "buffers_ok b \<longleftrightarrow> length (debug_buffer b) = 5120 \<and> length (printk_buffer b) = 5120 \<and> length (log_buffer b) = 5120"

text \<open>An operation returns, and sends exactly the text \<open>t\<close>.\<close>

definition sends :: "('d \<Rightarrow> u8 list) \<Rightarrow> string \<Rightarrow> (log_buffers \<times> 'd \<Rightarrow> (log_buffers \<times> 'd) option) \<Rightarrow> bool" where
  "sends sent t f \<longleftrightarrow>
     (\<forall>b d. buffers_ok b \<longrightarrow>
       (\<exists>b' d'. f (b, d) = Some (b', d') \<and> buffers_ok b' \<and> sent d' = sent d @ bytes t))"

lemma sends_bind:
  assumes "sends sent t f" "sends sent u g"
  shows "sends sent (t @ u) (\<lambda>st. Option.bind (f st) g)"
  unfolding sends_def
proof (intro allI impI)
  fix b d
  assume "buffers_ok b"
  then obtain b1 d1 where one: "f (b, d) = Some (b1, d1)" "buffers_ok b1" "sent d1 = sent d @ bytes t"
    using assms(1) unfolding sends_def by blast
  then obtain b2 d2 where two: "g (b1, d1) = Some (b2, d2)" "buffers_ok b2" "sent d2 = sent d1 @ bytes u"
    using assms(2) unfolding sends_def by blast
  show "\<exists>b' d'. Option.bind (f (b, d)) g = Some (b', d') \<and> buffers_ok b' \<and> sent d' = sent d @ bytes (t @ u)"
    using one two by simp
qed

lemma vsnprintf_fits:
  assumes "format_text fmt va = Some t" "length t < 5120" "length buf = 5120"
  shows "vsnprintf False buf (- 1) fmt va = Some (t @ [NUL] @ drop (length t + 1) buf, to_int32 (of_nat (length t)))"
  using vsnprintf_unlimited [of t fmt va buf] assms by simp

lemma debug_sends:
  assumes "drains bus busy sent" "format_text fmt va = Some t" "NUL \<notin> set t" "length t < 5120"
  shows "sends sent t (debug bus fmt va)"
  unfolding sends_def
proof (intro allI impI)
  fix b d
  assume ok: "buffers_ok b"
  obtain d' where d': "serial_send_string bus t d = Some d'" "sent d' = sent d @ bytes t"
    using serial_string_sent [OF assms(1)] by blast
  have len: "length (debug_buffer b) = 5120" using ok by (simp add: buffers_ok_def)
  note run = vsnprintf_fits [OF assms(2,4) len]
  have "debug bus fmt va (b, d) = Some (b\<lparr>debug_buffer := t @ [NUL] @ drop (length t + 1) (debug_buffer b)\<rparr>, d')"
    using d'(1) c_string_text [OF assms(3)] by (simp add: debug_def run)
  then show "\<exists>b' d'. debug bus fmt va (b, d) = Some (b', d') \<and> buffers_ok b' \<and> sent d' = sent d @ bytes t"
    using ok d'(2) assms(4) by (auto simp: buffers_ok_def)
qed

lemma debug_overflow:
  assumes "format_text fmt va = Some t" "length (debug_buffer b) \<le> length t" "length t < 2 ^ 64 - 2"
  shows "debug bus fmt va (b, d) = None"
  using vsnprintf_unlimited [OF assms(3,1)] assms(2) by (simp add: debug_def)

lemma color_sends:
  assumes "drains bus busy sent" "color = char_of (27 :: nat) # CHR ''['' # rest"
  shows "sends sent color (serial_color bus color)"
  unfolding sends_def
proof (intro allI impI)
  fix b d
  assume "buffers_ok b"
  moreover obtain d' where "serial_send_string bus color d = Some d'" "sent d' = sent d @ bytes color"
    using serial_string_sent [OF assms(1)] by blast
  ultimately show "\<exists>b' d'. serial_color bus color (b, d) = Some (b', d') \<and> buffers_ok b' \<and> sent d' = sent d @ bytes color"
    by (simp add: serial_color_def serial_set_color_def assms(2))
qed

lemma printk_shows:
  assumes "format_text fmt va = Some t" "NUL \<notin> set t" "length t < 5120" "buffers_ok b"
  shows "\<exists>b'. buffers_ok b' \<and>
    printk screen color fmt va (b, s) = map_option (Pair b') (screen t color s)"
proof -
  have len: "length (printk_buffer b) = 5120" using assms(4) by (simp add: buffers_ok_def)
  note run = vsnprintf_fits [OF assms(1,3) len]
  let ?b = "b\<lparr>printk_buffer := t @ [NUL] @ drop (length t + 1) (printk_buffer b)\<rparr>"
  have "printk screen color fmt va (b, s) = map_option (Pair ?b) (screen t color s)"
    using c_string_text [OF assms(2)] by (simp add: printk_def run map_conv_bind_option comp_def)
  moreover have "buffers_ok ?b" using assms(3,4) by (simp add: buffers_ok_def)
  ultimately show ?thesis by blast
qed

section \<open>The log line\<close>

definition log_line :: "string \<Rightarrow> u64 \<Rightarrow> string \<Rightarrow> string" where
  "log_line description line_nr msg =
     description @ '':'' @ signed_text (to_int32 line_nr) @ '' '' @ arrow @ '' '' @ msg"

lemma log_line_format:
  assumes "NUL \<notin> set description" "NUL \<notin> set msg" "to_int32 line_nr \<noteq> - (2 ^ 31)"
  shows "format_text (''%s:%d '' @ arrow @ '' %s'') [Va_Str description, Va_Int line_nr, Va_Str msg] =
      Some (log_line description line_nr msg)"
    and "NUL \<notin> set (log_line description line_nr msg)"
proof -
  have lit: "\<forall>c \<in> set '':''. c \<noteq> NUL \<and> c \<noteq> CHR ''%''"
    "\<forall>c \<in> set ('' '' @ arrow @ '' ''). c \<noteq> NUL \<and> c \<noteq> CHR ''%''"
    by code_simp+
  have nul: "NUL \<notin> set '':''" "NUL \<notin> set '' ''" "NUL \<notin> set arrow"
    by code_simp+
  have split: "''%s:%d '' @ arrow @ '' %s'' = ''%s'' @ '':'' @ ''%d'' @ ('' '' @ arrow @ '' '') @ ''%s'' @ []"
    by simp
  show "format_text (''%s:%d '' @ arrow @ '' %s'') [Va_Str description, Va_Int line_nr, Va_Str msg] =
      Some (log_line description line_nr msg)"
    unfolding split format_string [OF assms(1)] format_literal [OF lit(1)] format_decimal [OF assms(3)]
      format_literal [OF lit(2)] format_string [OF assms(2)]
    by (simp add: log_line_def)
  show "NUL \<notin> set (log_line description line_nr msg)"
    using assms(1,2) nul signed_text_not_nul [of "to_int32 line_nr"]
    unfolding log_line_def set_append Un_iff by blast
qed

lemma status_colors:
  "\<exists>rest. status_color status = char_of (27 :: nat) # CHR ''['' # rest"
  "\<exists>rest. TERM_COLOR_RESET = char_of (27 :: nat) # CHR ''['' # rest"
  by (cases status; simp add: status_color_def TERM_CYAN_def TERM_YELLOW_def TERM_RED_def)
    (simp add: TERM_COLOR_RESET_def)

lemma status_tag_text:
  "format_text (status_tag status) [] = Some (status_tag status)" "NUL \<notin> set (status_tag status)"
  "length (status_tag status) < 5120"
proof -
  have "\<forall>c \<in> set (status_tag status). c \<noteq> NUL \<and> c \<noteq> CHR ''%''"
    by (cases status; simp only:; code_simp)
  from format_literal [OF this, of "[]" "[]"] this
  show "format_text (status_tag status) [] = Some (status_tag status)" "NUL \<notin> set (status_tag status)" by auto
  show "length (status_tag status) < 5120" by (cases status) (simp_all add: status_tag_def)
qed

lemma serial_log_sends:
  assumes "drains bus busy sent" "format_text fmt va = Some msg"
    "NUL \<notin> set msg" "NUL \<notin> set description" "to_int32 line_nr \<noteq> - (2 ^ 31)"
    "length (log_line description line_nr msg) < 5120"
  shows "sends sent (status_color status @ status_tag status @ log_line description line_nr msg @ TERM_COLOR_RESET)
    (serial_log_impl bus description line_nr status fmt va)"
proof -
  have short: "length msg < 5120" using assms(6) by (simp add: log_line_def)
  note line = log_line_format [OF assms(4,3,5)]
  obtain r1 r2 where colors: "status_color status = char_of (27 :: nat) # CHR ''['' # r1"
    "TERM_COLOR_RESET = char_of (27 :: nat) # CHR ''['' # r2"
    using status_colors by blast
  have rest: "sends sent (status_color status @ status_tag status @ log_line description line_nr msg @ TERM_COLOR_RESET)
    (\<lambda>st. Option.bind (serial_color bus (status_color status) st) (\<lambda>st.
      Option.bind (debug bus (status_tag status) [] st) (\<lambda>st.
        Option.bind (debug bus (''%s:%d '' @ arrow @ '' %s'') [Va_Str description, Va_Int line_nr, Va_Str msg] st)
          (serial_color bus TERM_COLOR_RESET))))"
    by (intro sends_bind color_sends [OF assms(1) colors(1)] color_sends [OF assms(1) colors(2)]
        debug_sends [OF assms(1) status_tag_text] debug_sends [OF assms(1) line assms(6)])
  show ?thesis
    unfolding sends_def
  proof (intro allI impI)
    fix b d
    assume ok: "buffers_ok b"
    have len: "length (log_buffer b) = 5120" using ok by (simp add: buffers_ok_def)
    define buf where "buf = msg @ [NUL] @ drop (length msg + 1) (log_buffer b)"
    have run: "vsnprintf False (log_buffer b) (- 1) fmt va = Some (buf, to_int32 (of_nat (length msg)))"
      using vsnprintf_fits [OF assms(2) short len] by (simp add: buf_def)
    have str: "c_string buf = msg" using c_string_text [OF assms(3)] by (simp add: buf_def)
    have "buffers_ok (b\<lparr>log_buffer := buf\<rparr>)" using ok short len by (simp add: buffers_ok_def buf_def)
    with rest show "\<exists>b' d'. serial_log_impl bus description line_nr status fmt va (b, d) = Some (b', d') \<and> buffers_ok b' \<and>
        sent d' = sent d @ bytes (status_color status @ status_tag status @ log_line description line_nr msg @ TERM_COLOR_RESET)"
      unfolding sends_def serial_log_impl_def by (simp add: run str)
  qed
qed

section \<open>Screens\<close>

text \<open>
  What the print functions rely on: a screen in order prints every string of a certain kind, and is in order
  again. The instance is the framebuffer.
\<close>

definition keeps :: "('s \<Rightarrow> bool) \<Rightarrow> (log_buffers \<times> 's \<Rightarrow> (log_buffers \<times> 's) option) \<Rightarrow> bool" where
  "keeps ok f \<longleftrightarrow> (\<forall>b s. buffers_ok b \<longrightarrow> ok s \<longrightarrow> (\<exists>b' s'. f (b, s) = Some (b', s') \<and> buffers_ok b' \<and> ok s'))"

lemma keeps_bind:
  assumes "keeps ok f" "keeps ok g"
  shows "keeps ok (\<lambda>st. Option.bind (f st) g)"
  unfolding keeps_def
proof (intro allI impI)
  fix b s
  assume "buffers_ok b" "ok s"
  then obtain b1 s1 where one: "f (b, s) = Some (b1, s1)" "buffers_ok b1" "ok s1"
    using assms(1) unfolding keeps_def by blast
  then obtain b2 s2 where "g (b1, s1) = Some (b2, s2)" "buffers_ok b2" "ok s2"
    using assms(2) unfolding keeps_def by blast
  with one show "\<exists>b' s'. Option.bind (f (b, s)) g = Some (b', s') \<and> buffers_ok b' \<and> ok s'" by simp
qed

lemma kernel_log_format:
  assumes "NUL \<notin> set description" "NUL \<notin> set msg" "to_int32 line_nr \<noteq> - (2 ^ 31)"
  shows "format_text (status_tag status @ ''%s:%d '' @ arrow @ '' %s'') [Va_Str description, Va_Int line_nr, Va_Str msg] =
      Some (status_tag status @ log_line description line_nr msg)"
    and "NUL \<notin> set (status_tag status @ log_line description line_nr msg)"
proof -
  have tag: "\<forall>c \<in> set (status_tag status). c \<noteq> NUL \<and> c \<noteq> CHR ''%''"
    by (cases status; simp only:; code_simp)
  note line = log_line_format [OF assms]
  show "format_text (status_tag status @ ''%s:%d '' @ arrow @ '' %s'') [Va_Str description, Va_Int line_nr, Va_Str msg] =
      Some (status_tag status @ log_line description line_nr msg)"
    by (simp only: format_literal [OF tag] line(1) option.map)
  show "NUL \<notin> set (status_tag status @ log_line description line_nr msg)"
    using tag line(2) by auto
qed

locale text_screen =
  fixes screen :: "'s screen"
    and ok :: "'s \<Rightarrow> bool"
    and displayable :: "string \<Rightarrow> bool"
  assumes shown: "ok s \<Longrightarrow> displayable t \<Longrightarrow> \<exists>s'. screen t color s = Some s' \<and> ok s'"
begin

lemma printk_keeps:
  assumes "format_text fmt va = Some t" "NUL \<notin> set t" "length t < 5120" "displayable t"
  shows "keeps ok (printk screen color fmt va)"
  unfolding keeps_def
proof (intro allI impI)
  fix b s
  assume "buffers_ok b" "ok s"
  then obtain s' where "screen t color s = Some s'" "ok s'" using shown [OF _ assms(4), of s color] by blast
  moreover obtain b' where "buffers_ok b'" "printk screen color fmt va (b, s) = map_option (Pair b') (screen t color s)"
    using printk_shows [OF assms(1-3) \<open>buffers_ok b\<close>, of screen color s] by (elim exE conjE)
  ultimately show "\<exists>b' s'. printk screen color fmt va (b, s) = Some (b', s') \<and> buffers_ok b' \<and> ok s'" by simp
qed

lemma kernel_log_keeps:
  assumes "format_text fmt va = Some msg" "NUL \<notin> set msg" "NUL \<notin> set description" "to_int32 line_nr \<noteq> - (2 ^ 31)"
    and "length (status_tag status @ log_line description line_nr msg) < 5120"
    and "displayable (status_tag status @ log_line description line_nr msg)"
  shows "keeps ok (kernel_log_impl screen description line_nr status fmt va)"
  unfolding keeps_def
proof (intro allI impI)
  fix b s
  assume ok: "buffers_ok b" "ok s"
  have short: "length msg < 5120" using assms(5) by (simp add: log_line_def)
  have len: "length (log_buffer b) = 5120" using ok by (simp add: buffers_ok_def)
  define buf where "buf = msg @ [NUL] @ drop (length msg + 1) (log_buffer b)"
  have run: "vsnprintf False (log_buffer b) (- 1) fmt va = Some (buf, to_int32 (of_nat (length msg)))"
    using vsnprintf_fits [OF assms(1) short len] by (simp add: buf_def)
  have str: "c_string buf = msg" using c_string_text [OF assms(2)] by (simp add: buf_def)
  have "buffers_ok (b\<lparr>log_buffer := buf\<rparr>)" using ok short len by (simp add: buffers_ok_def buf_def)
  moreover have "keeps ok (printk screen c (status_tag status @ ''%s:%d '' @ arrow @ '' %s'')
      [Va_Str description, Va_Int line_nr, Va_Str msg])" for c
    by (rule printk_keeps [OF kernel_log_format [OF assms(3,2,4)] assms(5,6)])
  ultimately show "\<exists>b' s'. kernel_log_impl screen description line_nr status fmt va (b, s) = Some (b', s') \<and>
      buffers_ok b' \<and> ok s'"
    using ok(2) unfolding keeps_def by (simp add: kernel_log_impl_def run str)
qed

end

section \<open>Properties\<close>

text \<open>C9: on a port that drains, \<open>debug\<close> sends exactly the text of its format if this is shorter than
  the static buffer of 5120 bytes; any longer text is written past the buffer.\<close>

theorem debug_delivers:
  assumes "drains bus busy sent" "buffers_ok b" "format_text fmt va = Some t" "NUL \<notin> set t" "length t < 2 ^ 64 - 2"
  shows "if length t < 5120
    then \<exists>b' d'. debug bus fmt va (b, d) = Some (b', d') \<and> buffers_ok b' \<and> sent d' = sent d @ bytes t
    else debug bus fmt va (b, d) = None"
proof (cases "length t < 5120")
  case True
  then show ?thesis using debug_sends [OF assms(1,3,4)] assms(2) by (simp add: sends_def)
next
  case False
  then show ?thesis using debug_overflow [OF assms(3) _ assms(5), of b] assms(2) by (simp add: buffers_ok_def)
qed

theorem debug_delivers_witness:
  "\<exists>b' d'. debug slow_port ''ok %d'' [Va_Int 7] (boot_buffers, (2, [])) = Some (b', d') \<and>
     snd d' = [0x6F, 0x6B, 0x20, 0x37]"
proof -
  have drains: "drains slow_port fst snd" by (simp add: drains_def slow_port_def)
  have "buffers_ok boot_buffers" by (simp add: buffers_ok_def boot_buffers_def)
  moreover have "format_text ''ok %d'' [Va_Int 7] = Some ''ok 7''" by code_simp
  moreover have "NUL \<notin> set ''ok 7''" by code_simp
  ultimately show ?thesis
    using debug_delivers [OF drains, of boot_buffers "''ok %d''" "[Va_Int 7]" "''ok 7''" "(2, [])"] by (auto simp del: format_text.simps)
qed

text \<open>On a port that drains, \<open>serial_log\<close> sends one line: the colour and the tag of the
  status, the file, the line number in decimal and the formatted message, and the colour reset; as long as
  each of the texts it formats is shorter than its buffer.\<close>

theorem serial_log_line:
  assumes "drains bus busy sent" "buffers_ok b" "format_text fmt va = Some msg"
    "NUL \<notin> set msg" "NUL \<notin> set description" "to_int32 line_nr \<noteq> - (2 ^ 31)"
    "length (log_line description line_nr msg) < 5120"
  shows "\<exists>b' d'. serial_log_impl bus description line_nr status fmt va (b, d) = Some (b', d') \<and> buffers_ok b' \<and>
    sent d' = sent d @ bytes (status_color status @ status_tag status @ log_line description line_nr msg @ TERM_COLOR_RESET)"
  using serial_log_sends [OF assms(1,3-7), of status] assms(2) unfolding sends_def by blast

theorem serial_log_line_witness:
  "\<exists>b' d'. serial_log_impl slow_port ''pmm.c'' 42 INFO ''done'' [] (boot_buffers, (0, [])) = Some (b', d') \<and>
     buffers_ok b'"
proof -
  have drains: "drains slow_port fst snd" by (simp add: drains_def slow_port_def)
  have "buffers_ok boot_buffers" by (simp add: buffers_ok_def boot_buffers_def)
  moreover have "format_text ''done'' [] = Some ''done''" "NUL \<notin> set ''done''" "NUL \<notin> set ''pmm.c''"
    "to_int32 42 \<noteq> - (2 ^ 31)" "length (log_line ''pmm.c'' 42 ''done'') < 5120"
    by code_simp+
  ultimately show ?thesis
    using serial_log_line [OF drains, of boot_buffers "''done''" "[]" "''done''" "''pmm.c''" 42 INFO "(0, [])"] by blast
qed

end
