(* ===== verification/Interrupts.thy ===== *)
theory Interrupts
  imports Keyboard Log
begin

text \<open>
  \<open>interrupts\<close>: the path of an interrupt through the assembly stub, the C handler and
  back. The stack is a list of words, top first; the general registers are a record. The
  report of an exception goes through the print functions to the serial port and to the screen, which is a
  parameter (printing a string, and clearing).
\<close>

section \<open>Registers and stack\<close>

record interrupt_cpu_state_t =
  r15 :: u64
  r14 :: u64
  r13 :: u64
  r12 :: u64
  r11 :: u64
  r10 :: u64
  r9 :: u64
  r8 :: u64
  rbp :: u64
  rdi :: u64
  rsi :: u64
  rdx :: u64
  rcx :: u64
  rbx :: u64
  rax :: u64
  isr_number :: u64
  error_code :: u64
  rip :: u64
  cs_word :: u64
  rflags :: u64
  rsp_word :: u64
  ss_word :: u64

text \<open>The struct that a pointer to the top of the stack is read as.\<close>

definition cpu_state_at :: "u64 list \<Rightarrow> interrupt_cpu_state_t option" where
  "cpu_state_at s =
     (if length s < 22 then None
      else Some \<lparr>r15 = s ! 0, r14 = s ! 1, r13 = s ! 2, r12 = s ! 3, r11 = s ! 4, r10 = s ! 5, r9 = s ! 6,
        r8 = s ! 7, rbp = s ! 8, rdi = s ! 9, rsi = s ! 10, rdx = s ! 11, rcx = s ! 12, rbx = s ! 13,
        rax = s ! 14, isr_number = s ! 15, error_code = s ! 16, rip = s ! 17, cs_word = s ! 18,
        rflags = s ! 19, rsp_word = s ! 20, ss_word = s ! 21\<rparr>)"

record registers =
  reg_rax :: u64
  reg_rbx :: u64
  reg_rcx :: u64
  reg_rdx :: u64
  reg_rbp :: u64
  reg_rdi :: u64
  reg_rsi :: u64
  reg_r8 :: u64
  reg_r9 :: u64
  reg_r10 :: u64
  reg_r11 :: u64
  reg_r12 :: u64
  reg_r13 :: u64
  reg_r14 :: u64
  reg_r15 :: u64

definition pusha64 :: "registers \<Rightarrow> u64 list \<Rightarrow> u64 list" where
  "pusha64 r s = fold (\<lambda>v s. v # s)
     [reg_rax r, reg_rbx r, reg_rcx r, reg_rdx r, reg_rbp r, reg_rdi r, reg_rsi r, reg_r8 r, reg_r9 r,
      reg_r10 r, reg_r11 r, reg_r12 r, reg_r13 r, reg_r14 r, reg_r15 r] s"

text \<open>\<open>popa64\<close> pops in the same order as \<open>pusha64\<close> pushes.\<close>

definition popa64 :: "u64 list \<Rightarrow> registers \<times> u64 list" where
  "popa64 s =
     (\<lparr>reg_rax = s ! 0, reg_rbx = s ! 1, reg_rcx = s ! 2, reg_rdx = s ! 3, reg_rbp = s ! 4, reg_rdi = s ! 5,
       reg_rsi = s ! 6, reg_r8 = s ! 7, reg_r9 = s ! 8, reg_r10 = s ! 9, reg_r11 = s ! 10, reg_r12 = s ! 11,
       reg_r13 = s ! 12, reg_r14 = s ! 13, reg_r15 = s ! 14\<rparr>, drop 15 s)"

section \<open>Messages\<close>

definition SPURIOUS_INTERRUPT :: u64 where
  "SPURIOUS_INTERRUPT = 255"

text \<open>The dash of the messages, in UTF-8.\<close>

definition dash :: string where
  "dash = map char_of [0xE2, 0x80, 0x94 :: nat]"

definition exceptions :: "string list" where
  "exceptions =
     [''#DE: Divide Error'',
      ''#DB: Debug Exception'',
      '' '' @ dash @ '' : NMI Interrupt'',
      ''#BP: Breakpoint'',
      ''#OF: Overflow'',
      ''#BR: BOUND Range Exceeded'',
      ''#UD: Invalid Opcode (Undefined Opcode)'',
      ''#NM: Device Not Available (No Math Coprocessor)'',
      ''#DF: Double Fault'',
      dash @ '' : Coprocessor Segment Overrun (reserved)'',
      ''#TS: Invalid TSS'',
      ''#NP: Segment Not Present'',
      ''#SS: Stack-Segment Fault'',
      ''#GP: General Protection'',
      ''#PF: Page Fault'',
      dash @ '' : (Intel reserved. Do not use.)'',
      ''#MF: x87 FPU Floating-Point Error (Math Fault)'',
      ''#AC: Alignment Check'',
      ''#MC: Machine Check'',
      ''#XM: SIMD Floating-Point Exception'',
      ''#VE: Virtualization Exception'',
      ''#CP: Control Protection Exception'',
      dash @ '' : Intel reserved. Do not use.'',
      dash @ '' : Intel reserved. Do not use.'',
      dash @ '' : Intel reserved. Do not use.'',
      dash @ '' : Intel reserved. Do not use.'',
      dash @ '' : Intel reserved. Do not use.'',
      dash @ '' : Intel reserved. Do not use.'',
      dash @ '' : Intel reserved. Do not use.'',
      dash @ '' : Intel reserved. Do not use.'',
      dash @ '' : Intel reserved. Do not use.'',
      dash @ '' : Intel reserved. Do not use.'']"

section \<open>The report of an exception\<close>

definition NL :: string where "NL = [char_of (10 :: nat)]"
definition hook :: string where "hook = map char_of [0xE2, 0xA4, 0xB7 :: nat]"
definition warning_sign :: string where "warning_sign = map char_of [0xE2, 0x9A, 0xA0 :: nat]"
definition info_sign :: string where "info_sign = map char_of [0xE2, 0x84, 0xB9 :: nat]"

definition rule_format :: string where
  "rule_format = NL @ concat (replicate 24 (map char_of [0xE2, 0x94, 0x80 :: nat])) @ NL"

definition title_format :: string where
  "title_format = warning_sign @ '' EXCEPTION OCCURRED! '' @ warning_sign @ NL @ NL"

definition isr_format :: string where
  "isr_format = hook @ '' ISR-No. '' @ ''%d'' @ '': '' @ ''%s'' @ NL"

definition error_format :: string where
  "error_format = hook @ '' Error code: 0x'' @ ''%.16llx'' @ NL @ NL @ NL"

definition dump_title_format :: string where
  "dump_title_format = info_sign @ '' Register dump:'' @ NL @ NL"

text \<open>The text before each register of the dump.\<close>

definition dump_labels :: "string list" where
  "dump_labels =
     [hook @ '' rax: 0x'', '', rbx:    0x'', '', rcx: 0x'', '', rdx: 0x'',
      NL @ hook @ '' rsi: 0x'', '', rdi:    0x'', '', rbp: 0x'', '', r8 : 0x'',
      NL @ hook @ '' r9 : 0x'', '', r10:    0x'', '', r11: 0x'', '', r12: 0x'',
      NL @ hook @ '' r13: 0x'', '', r14:    0x'', '', r15: 0x'', '', ss : 0x'',
      NL @ hook @ '' rsp: 0x'', '', rflags: 0x'', '', cs : 0x'', '', rip: 0x'']"

definition dump_registers :: "interrupt_cpu_state_t \<Rightarrow> u64 list" where
  "dump_registers cpu =
     [rax cpu, rbx cpu, rcx cpu, rdx cpu, rsi cpu, rdi cpu, rbp cpu, r8 cpu,
      r9 cpu, r10 cpu, r11 cpu, r12 cpu, r13 cpu, r14 cpu, r15 cpu, ss_word cpu,
      rsp_word cpu, rflags cpu, cs_word cpu, rip cpu]"

definition dump_format :: string where
  "dump_format = concat (map (\<lambda>l. l @ ''%.16llx'') dump_labels) @ NL"

text \<open>What the handler works on besides the saved registers: the print buffers, the keyboard, the
  devices and the screen.\<close>

record ('h, 'd, 's) machine =
  buffers :: log_buffers
  kb :: "'h keyboard"
  devices :: 'd
  contents :: 's

definition serial_part ::
    "(log_buffers \<times> 'd \<Rightarrow> (log_buffers \<times> 'd) option) \<Rightarrow> ('h, 'd, 's) machine \<Rightarrow> ('h, 'd, 's) machine option" where
  "serial_part f st = map_option (\<lambda>(b, d). st\<lparr>buffers := b, devices := d\<rparr>) (f (buffers st, devices st))"

definition screen_part ::
    "(log_buffers \<times> 's \<Rightarrow> (log_buffers \<times> 's) option) \<Rightarrow> ('h, 'd, 's) machine \<Rightarrow> ('h, 'd, 's) machine option" where
  "screen_part f st = map_option (\<lambda>(b, s). st\<lparr>buffers := b, contents := s\<rparr>) (f (buffers st, contents st))"

definition serial_report :: "'d bus \<Rightarrow> interrupt_cpu_state_t \<Rightarrow> log_buffers \<times> 'd \<Rightarrow> (log_buffers \<times> 'd) option" where
  "serial_report bus cpu st = do {
     st \<leftarrow> serial_color bus TERM_RED st;
     st \<leftarrow> debug bus rule_format [] st;
     st \<leftarrow> debug bus title_format [] st;
     st \<leftarrow> debug bus isr_format [Va_Int (isr_number cpu), Va_Str (exceptions ! unat (isr_number cpu))] st;
     st \<leftarrow> debug bus error_format [Va_Int (error_code cpu)] st;
     st \<leftarrow> serial_color bus TERM_CYAN st;
     st \<leftarrow> debug bus dump_title_format [] st;
     st \<leftarrow> debug bus dump_format (map Va_Int (dump_registers cpu)) st;
     serial_color bus TERM_COLOR_RESET st
   }"

definition screen_report ::
    "'s screen \<Rightarrow> ('s \<Rightarrow> 's option) \<Rightarrow> interrupt_cpu_state_t \<Rightarrow> log_buffers \<times> 's \<Rightarrow> (log_buffers \<times> 's) option" where
  "screen_report screen reset cpu st = do {
     st \<leftarrow> map_option (Pair (fst st)) (reset (snd st));
     st \<leftarrow> printk screen GFX_RED rule_format [] st;
     st \<leftarrow> printk screen GFX_RED title_format [] st;
     st \<leftarrow> printk screen GFX_RED isr_format
       [Va_Int (isr_number cpu), Va_Str (exceptions ! unat (isr_number cpu))] st;
     st \<leftarrow> printk screen GFX_RED error_format [Va_Int (error_code cpu)] st;
     st \<leftarrow> printk screen GFX_CYAN dump_title_format [] st;
     printk screen GFX_CYAN dump_format (map Va_Int (dump_registers cpu)) st
   }"

section \<open>The handler\<close>

text \<open>An interrupt ends in the halt loop of the exceptions, or returns the stack pointer, with
  the call that the keyboard made.\<close>

datatype ('h, 'd, 's) isr_result =
    Halted "('h, 'd, 's) machine"
  | Returns u64 "('h \<times> KEY_INFO_t) option" "('h, 'd, 's) machine"

definition isr_handler ::
    "'d bus \<Rightarrow> 's screen \<Rightarrow> ('s \<Rightarrow> 's option) \<Rightarrow> u64 \<Rightarrow> interrupt_cpu_state_t \<Rightarrow> ('h, 'd, 's) machine \<Rightarrow>
     ('h, 'd, 's) isr_result option" where
  "isr_handler bus screen reset rsp cpu st =
     (if isr_number cpu \<le> 31 then do {
        st \<leftarrow> serial_part (serial_report bus cpu) st;
        st \<leftarrow> screen_part (screen_report screen reset cpu) st;
        Some (Halted st)
      }
      else if isr_number cpu \<ge> 32 \<and> isr_number cpu \<le> 47 then do {
        (call, k, d) \<leftarrow> (if isr_number cpu = 33 then keyboard_irq_handler bus (kb st) (devices st)
                        else Some (None, kb st, devices st));
        let d = snd (run_state (pic_signal_EOI bus (isr_number cpu)) d);
        Some (Returns rsp call (st\<lparr>kb := k, devices := d\<rparr>))
      }
      else Some (Returns rsp None st))"

section \<open>Acknowledgement\<close>

text \<open>A line of the pair is being served, and \<open>w\<close> has \<open>k\<close> as its lowest bit.\<close>

definition serving :: "pics \<Rightarrow> nat \<Rightarrow> bool" where
  "serving d k = (if k < 8 then bit (in_service (master d)) k else bit (in_service (slave d)) (k - 8))"

definition lowest_bit :: "u8 \<Rightarrow> nat \<Rightarrow> bool" where
  "lowest_bit w k \<longleftrightarrow> bit w k \<and> (\<forall>j < k. \<not> bit w j)"

text \<open>The line that the processor has just accepted: the first of those being served, and for a
  line of the slave the cascade line is the first of the master.\<close>

definition accepted :: "pics \<Rightarrow> nat \<Rightarrow> bool" where
  "accepted d k =
     (if k < 8 then lowest_bit (in_service (master d)) k
      else lowest_bit (in_service (slave d)) (k - 8) \<and> lowest_bit (in_service (master d)) 2)"

lemma clear_lowest_bit:
  assumes "lowest_bit w k"
  shows "bit (w AND (w - 1)) j \<longleftrightarrow> j \<noteq> k \<and> bit w j"
proof -
  define a where "a = w AND NOT (mask (Suc k))"
  have k: "k < 8" using assms u8_bit_less by (auto simp: lowest_bit_def)
  have a: "bit a j \<longleftrightarrow> bit w j \<and> k < j" for j
    by (auto simp: a_def bit_simps dest: u8_bit_less)
  have single: "bit (push_bit k (1 :: u8)) n \<longleftrightarrow> n = k" for n
    using k by (auto simp: bit_exp_iff)
  have w: "w = a OR push_bit k 1"
  proof (rule bit_word_eqI)
    fix n
    show "bit w n = bit (a OR push_bit k 1) n"
      using assms unfolding lowest_bit_def bit_or_iff single a by (metis not_less_iff_gr_or_eq)
  qed
  have "a AND push_bit k 1 = 0" "a AND mask k = 0"
    by (rule bit_word_eqI, unfold bit_and_iff single a bit_mask_iff bit_0_eq bot_fun_def bot_bool_def, auto)+
  then have "a + push_bit k 1 = w" "a + mask k = a OR mask k"
    by (simp_all only: disjunctive_add_eq_or w)
  then have "w - 1 = a OR mask k"
    by (auto simp: mask_eq_exp_minus_1 algebra_simps)
  then have "bit (w - 1) j \<longleftrightarrow> bit a j \<or> j < k"
    using k by (simp only: bit_or_iff bit_mask_iff possible_bit_word) auto
  then show ?thesis
    using assms by (auto simp: bit_and_iff a lowest_bit_def)
qed

lemma clear_lowest_bit': "lowest_bit w k \<Longrightarrow> bit (w AND (w - 1)) = (\<lambda>j. j \<noteq> k \<and> bit w j)"
  by (rule ext) (rule clear_lowest_bit)

lemma eoi_run:
  "run_state (pic_signal_EOI pics_bus n) d = ((),
     d\<lparr>master := (master d)\<lparr>in_service := in_service (master d) AND (in_service (master d) - 1)\<rparr>,
       slave := (if n \<ge> 40 then (slave d)\<lparr>in_service := in_service (slave d) AND (in_service (slave d) - 1)\<rparr>
                 else slave d)\<rparr>)"
  by (simp add: pic_signal_EOI_def run_bind ports pics_bus_out pic_command_def del: run_state_bind)

lemma serving_eoi:
  assumes "accepted d k" "k < 16" "d' = snd (run_state (pic_signal_EOI pics_bus (of_nat (32 + k))) d)"
  shows "serving d' j \<longleftrightarrow> serving d j \<and> j \<noteq> k \<and> (k < 8 \<or> j \<noteq> 2)"
    and "imr (master d') = imr (master d)" "imr (slave d') = imr (slave d)"
proof -
  have n: "of_nat (32 + k) \<ge> (40 :: u64) \<longleftrightarrow> \<not> k < 8"
    using assms(2) by (auto simp: word_le_nat_alt unat_of_nat simp del: of_nat_add)
  show "imr (master d') = imr (master d)" "imr (slave d') = imr (slave d)"
    by (simp_all add: assms(3) eoi_run)
  show "serving d' j \<longleftrightarrow> serving d j \<and> j \<noteq> k \<and> (k < 8 \<or> j \<noteq> 2)"
    using assms(1) unfolding assms(3) eoi_run n
    by (cases "k < 8"; cases "j < 8") (auto simp: serving_def accepted_def clear_lowest_bit)
qed

section \<open>The text of the report\<close>

definition dump_text :: "string list \<Rightarrow> u64 list \<Rightarrow> string" where
  "dump_text labels ws = concat (map2 (\<lambda>l w. l @ hex16 w) labels ws)"

definition isr_text :: "interrupt_cpu_state_t \<Rightarrow> string" where
  "isr_text cpu = hook @ '' ISR-No. '' @ signed_text (int (unat (isr_number cpu))) @ '': '' @
     exceptions ! unat (isr_number cpu) @ NL"

definition error_text :: "interrupt_cpu_state_t \<Rightarrow> string" where
  "error_text cpu = hook @ '' Error code: 0x'' @ hex16 (error_code cpu) @ NL @ NL @ NL"

definition literal :: "string \<Rightarrow> bool" where
  "literal l \<longleftrightarrow> (\<forall>c \<in> set l. c \<noteq> NUL \<and> c \<noteq> CHR ''%'')"

lemma literals:
  "literal rule_format" "literal title_format" "literal dump_title_format"
  "literal (hook @ '' ISR-No. '')" "literal '': ''" "literal NL" "literal (hook @ '' Error code: 0x'')"
  "literal (NL @ NL @ NL)"
  by (code_simp)+

lemma literal_text:
  assumes "literal l"
  shows "format_text (l @ f) va = map_option ((@) l) (format_text f va)" "format_text l [] = Some l" "NUL \<notin> set l"
  using format_literal [of l f va] format_literal [of l "[]" "[]"] assms by (auto simp: literal_def)

lemma dump_text_format:
  "length labels = length ws \<Longrightarrow> \<forall>l \<in> set labels. literal l \<Longrightarrow>
   format_text (concat (map (\<lambda>l. l @ ''%.16llx'') labels) @ f) (map Va_Int ws @ va) =
     map_option ((@) (dump_text labels ws)) (format_text f va) \<and>
   NUL \<notin> set (dump_text labels ws) \<and>
   length (dump_text labels ws) = sum_list (map length labels) + 16 * length ws"
proof (induction labels ws rule: list_induct2)
  case Nil
  have "(@) [] = (\<lambda>t :: char list. t)" by auto
  then show ?case by (simp add: dump_text_def option.map_ident)
next
  case (Cons l labels w ws)
  let ?rest = "concat (map (\<lambda>l. l @ ''%.16llx'') labels) @ f"
  have "format_text (concat (map (\<lambda>l. l @ ''%.16llx'') (l # labels)) @ f) (map Va_Int (w # ws) @ va) =
      format_text (l @ ''%.16llx'' @ ?rest) (Va_Int w # map Va_Int ws @ va)"
    by simp
  also have "\<dots> = map_option ((@) l) (map_option ((@) (hex16 w)) (format_text ?rest (map Va_Int ws @ va)))"
    using Cons.prems by (simp only: literal_text(1) format_hex16 list.set_intros)
  finally show ?case
    using Cons literal_text(3) [of l] hex16_not_nul [of w]
    by (simp add: dump_text_def hex16_length option.map_comp comp_def)
qed

lemma dump_labels_literal: "\<forall>l \<in> set dump_labels. literal l" "sum_list (map length dump_labels) < 500"
  by (code_simp)+

lemma exceptions_text:
  "length exceptions = 32" "\<forall>e \<in> set exceptions. NUL \<notin> set e \<and> length e < 100"
  by (code_simp)+

lemma small_number_text: "n < 32 \<Longrightarrow> length (signed_text (int n)) < 5"
proof -
  assume "n < 32"
  moreover have "\<forall>n \<in> set [0..<32]. length (signed_text (int n)) < 5" by code_simp
  ultimately show ?thesis by simp
qed

definition saved_cpu :: "u64 \<Rightarrow> interrupt_cpu_state_t" where
  "saved_cpu n = \<lparr>r15 = 0, r14 = 0, r13 = 0, r12 = 0, r11 = 0, r10 = 0, r9 = 0, r8 = 0, rbp = 0, rdi = 0, rsi = 0,
     rdx = 0, rcx = 0, rbx = 0, rax = 0, isr_number = n, error_code = 0, rip = 0, cs_word = 8, rflags = 2,
     rsp_word = 0, ss_word = 16\<rparr>"

text \<open>The formats and the texts of the report of an exception.\<close>

lemma report_texts:
  assumes "isr_number cpu \<le> 31"
  shows "format_text rule_format [] = Some rule_format" "NUL \<notin> set rule_format" "length rule_format < 5120"
    and "format_text title_format [] = Some title_format" "NUL \<notin> set title_format" "length title_format < 5120"
    and "format_text isr_format [Va_Int (isr_number cpu), Va_Str (exceptions ! unat (isr_number cpu))] = Some (isr_text cpu)"
      "NUL \<notin> set (isr_text cpu)" "length (isr_text cpu) < 5120"
    and "format_text error_format [Va_Int (error_code cpu)] = Some (error_text cpu)"
      "NUL \<notin> set (error_text cpu)" "length (error_text cpu) < 5120"
    and "format_text dump_title_format [] = Some dump_title_format" "NUL \<notin> set dump_title_format"
      "length dump_title_format < 5120"
    and "format_text dump_format (map Va_Int (dump_registers cpu)) = Some (dump_text dump_labels (dump_registers cpu) @ NL)"
      "NUL \<notin> set (dump_text dump_labels (dump_registers cpu) @ NL)"
      "length (dump_text dump_labels (dump_registers cpu) @ NL) < 5120"
proof -
  show "format_text rule_format [] = Some rule_format" "NUL \<notin> set rule_format"
    "format_text title_format [] = Some title_format" "NUL \<notin> set title_format"
    "format_text dump_title_format [] = Some dump_title_format" "NUL \<notin> set dump_title_format"
    using literal_text(2,3) literals(1-3) by blast+
  show "length rule_format < 5120" "length title_format < 5120" "length dump_title_format < 5120"
    by code_simp+
  have n: "unat (isr_number cpu) < 32" using assms by (simp add: word_le_nat_alt)
  define e where "e = exceptions ! unat (isr_number cpu)"
  have e: "NUL \<notin> set e" "length e < 100"
    using exceptions_text n nth_mem [of "unat (isr_number cpu)" exceptions] by (auto simp: e_def)
  have i: "to_int32 (isr_number cpu) = int (unat (isr_number cpu))"
    using n by (intro to_int32_small) simp
  have "0 \<le> to_int32 (isr_number cpu)" unfolding i by (rule of_nat_0_le_iff)
  then have "to_int32 (isr_number cpu) \<noteq> - (2 ^ 31)" by simp
  note decimal = format_decimal [OF this, unfolded i]
  have isr_format: "isr_format = (hook @ '' ISR-No. '') @ ''%d'' @ '': '' @ ''%s'' @ NL" by (simp add: isr_format_def)
  show "format_text isr_format [Va_Int (isr_number cpu), Va_Str (exceptions ! unat (isr_number cpu))] = Some (isr_text cpu)"
    unfolding isr_format literal_text(1) [OF literals(4)] decimal literal_text(1) [OF literals(5)]
      e_def [symmetric] format_string [OF e(1)] literal_text(2) [OF literals(6)]
    by (simp add: isr_text_def e_def)
  show "NUL \<notin> set (isr_text cpu)"
    using literal_text(3) [OF literals(4)] literal_text(3) [OF literals(5)] literal_text(3) [OF literals(6)] e(1)
      signed_text_not_nul [of "int (unat (isr_number cpu))"]
    unfolding isr_text_def e_def set_append Un_iff by blast
  show "length (isr_text cpu) < 5120"
    using e(2) small_number_text [OF n] by (simp add: isr_text_def e_def hook_def NL_def)
  have error_format: "error_format = (hook @ '' Error code: 0x'') @ ''%.16llx'' @ (NL @ NL @ NL)"
    by (simp add: error_format_def)
  show "format_text error_format [Va_Int (error_code cpu)] = Some (error_text cpu)"
    unfolding error_format literal_text(1) [OF literals(7)] format_hex16 literal_text(2) [OF literals(8)]
    by (simp add: error_text_def)
  show "NUL \<notin> set (error_text cpu)"
    using literal_text(3) [OF literals(7)] literal_text(3) [OF literals(6)] hex16_not_nul [of "error_code cpu"]
    unfolding error_text_def set_append Un_iff by blast
  show "length (error_text cpu) < 5120" by (simp add: error_text_def hex16_length hook_def NL_def)
  have "length dump_labels = length (dump_registers cpu)" by (simp add: dump_labels_def dump_registers_def)
  note dump = dump_text_format [OF this dump_labels_literal(1), of NL "[]"]
  show "format_text dump_format (map Va_Int (dump_registers cpu)) = Some (dump_text dump_labels (dump_registers cpu) @ NL)"
    using dump literal_text(2) [OF literals(6)] by (simp add: dump_format_def)
  show "NUL \<notin> set (dump_text dump_labels (dump_registers cpu) @ NL)"
    using dump literal_text(3) [OF literals(6)] by simp
  show "length (dump_text dump_labels (dump_registers cpu) @ NL) < 5120"
    using dump dump_labels_literal(2) by (simp add: dump_registers_def NL_def)
qed

definition report_text :: "interrupt_cpu_state_t \<Rightarrow> string" where
  "report_text cpu = TERM_RED @ rule_format @ title_format @ isr_text cpu @ error_text cpu @
     TERM_CYAN @ dump_title_format @ (dump_text dump_labels (dump_registers cpu) @ NL) @ TERM_COLOR_RESET"

definition report_strings :: "interrupt_cpu_state_t \<Rightarrow> (string \<times> u32) list" where
  "report_strings cpu =
     [(rule_format, GFX_RED), (title_format, GFX_RED), (isr_text cpu, GFX_RED), (error_text cpu, GFX_RED),
      (dump_title_format, GFX_CYAN), (dump_text dump_labels (dump_registers cpu) @ NL, GFX_CYAN)]"

lemma serial_report_sends:
  assumes "drains bus busy sent" "isr_number cpu \<le> 31"
  shows "sends sent (report_text cpu) (serial_report bus cpu)"
proof -
  note r = report_texts [OF assms(2)]
  have red: "TERM_RED = char_of (27 :: nat) # CHR ''['' # ''0;31m''"
    and cyan: "TERM_CYAN = char_of (27 :: nat) # CHR ''['' # ''0;36m''"
    and reset: "TERM_COLOR_RESET = char_of (27 :: nat) # CHR ''['' # ''0m''"
    by (simp_all add: TERM_RED_def TERM_CYAN_def TERM_COLOR_RESET_def)
  show ?thesis
    unfolding report_text_def serial_report_def
    by (intro sends_bind color_sends [OF assms(1) red] color_sends [OF assms(1) cyan] color_sends [OF assms(1) reset]
        debug_sends [OF assms(1) r(1-3)] debug_sends [OF assms(1) r(4-6)] debug_sends [OF assms(1) r(7-9)]
        debug_sends [OF assms(1) r(10-12)] debug_sends [OF assms(1) r(13-15)] debug_sends [OF assms(1) r(16-18)])
qed

text \<open>A sequence of prints on a screen that shows every string.\<close>

lemma printk_total:
  assumes "format_text fmt va = Some t" "NUL \<notin> set t" "length t < 5120" "buffers_ok b"
  obtains b' where "printk (\<lambda>t c s. Some (show_string t c s)) color fmt va (b, s) = Some (b', show_string t color s)"
    "buffers_ok b'"
  using printk_shows [OF assms, of "\<lambda>t c s. Some (show_string t c s)" color s] by auto

lemma screen_report_shows:
  assumes "isr_number cpu \<le> 31" "buffers_ok b"
  shows "\<exists>b'. screen_report (\<lambda>t c s. Some (show_string t c s)) (\<lambda>s. Some (reset s)) cpu (b, s) =
    Some (b', fold (\<lambda>(t, c). show_string t c) (report_strings cpu) (reset s))"
proof -
  note r = report_texts [OF assms(1)]
  obtain b1 where 1: "printk (\<lambda>t c s. Some (show_string t c s)) GFX_RED rule_format [] (b, reset s) =
      Some (b1, show_string rule_format GFX_RED (reset s))" "buffers_ok b1"
    by (rule printk_total [OF r(1-3) assms(2)])
  define s1 where "s1 = show_string rule_format GFX_RED (reset s)"
  obtain b2 where 2: "printk (\<lambda>t c s. Some (show_string t c s)) GFX_RED title_format [] (b1, s1) =
      Some (b2, show_string title_format GFX_RED s1)" "buffers_ok b2"
    by (rule printk_total [OF r(4-6) 1(2)])
  define s2 where "s2 = show_string title_format GFX_RED s1"
  obtain b3 where 3: "printk (\<lambda>t c s. Some (show_string t c s)) GFX_RED isr_format
      [Va_Int (isr_number cpu), Va_Str (exceptions ! unat (isr_number cpu))] (b2, s2) =
      Some (b3, show_string (isr_text cpu) GFX_RED s2)" "buffers_ok b3"
    by (rule printk_total [OF r(7-9) 2(2)])
  define s3 where "s3 = show_string (isr_text cpu) GFX_RED s2"
  obtain b4 where 4: "printk (\<lambda>t c s. Some (show_string t c s)) GFX_RED error_format [Va_Int (error_code cpu)] (b3, s3) =
      Some (b4, show_string (error_text cpu) GFX_RED s3)" "buffers_ok b4"
    by (rule printk_total [OF r(10-12) 3(2)])
  define s4 where "s4 = show_string (error_text cpu) GFX_RED s3"
  obtain b5 where 5: "printk (\<lambda>t c s. Some (show_string t c s)) GFX_CYAN dump_title_format [] (b4, s4) =
      Some (b5, show_string dump_title_format GFX_CYAN s4)" "buffers_ok b5"
    by (rule printk_total [OF r(13-15) 4(2)])
  define s5 where "s5 = show_string dump_title_format GFX_CYAN s4"
  obtain b6 where 6: "printk (\<lambda>t c s. Some (show_string t c s)) GFX_CYAN dump_format (map Va_Int (dump_registers cpu)) (b5, s5) =
      Some (b6, show_string (dump_text dump_labels (dump_registers cpu) @ NL) GFX_CYAN s5)"
    by (rule printk_total [OF r(16-18) 5(2)])
  show ?thesis
    using 1(1) 2(1) 3(1) 4(1) 5(1) 6
    unfolding s1_def [symmetric] s2_def [symmetric] s3_def [symmetric] s4_def [symmetric] s5_def [symmetric]
    by (simp add: screen_report_def report_strings_def s1_def s2_def s3_def s4_def s5_def)
qed

text \<open>On a screen that prints the strings of the report.\<close>

context text_screen begin

lemma screen_report_keeps:
  assumes "isr_number cpu \<le> 31" "\<And>s. ok s \<Longrightarrow> \<exists>s'. reset s = Some s' \<and> ok s'"
    and "\<forall>(t, c) \<in> set (report_strings cpu). displayable t"
  shows "keeps ok (screen_report screen reset cpu)"
proof -
  note r = report_texts [OF assms(1)]
  have d: "displayable rule_format" "displayable title_format" "displayable (isr_text cpu)" "displayable (error_text cpu)"
    "displayable dump_title_format" "displayable (dump_text dump_labels (dump_registers cpu) @ NL)"
    using assms(3) by (auto simp: report_strings_def)
  have "keeps ok (\<lambda>st. map_option (Pair (fst st)) (reset (snd st)))"
    using assms(2) by (fastforce simp: keeps_def)
  then show ?thesis
    unfolding screen_report_def
    by (intro keeps_bind printk_keeps [OF r(1-3) d(1)] printk_keeps [OF r(4-6) d(2)] printk_keeps [OF r(7-9) d(3)]
        printk_keeps [OF r(10-12) d(4)] printk_keeps [OF r(13-15) d(5)] printk_keeps [OF r(16-18) d(6)])
qed

end

section \<open>Properties\<close>

text \<open>C8: an exception always ends in the halt loop, and not before its report has gone out: on a
  port that drains and a screen that shows every string, exactly the text of the report is sent to the
  serial port and shown on the cleared screen, with the number and the name of the exception, the error code and the
  twenty registers in hexadecimal; the keyboard state is untouched.\<close>

theorem exception_reported:
  assumes "drains bus busy sent" "isr_number cpu \<le> 31" "buffers_ok (buffers st)"
  shows "\<exists>st'. isr_handler bus (\<lambda>t c s. Some (show_string t c s)) (\<lambda>s. Some (reset s)) rsp cpu st = Some (Halted st') \<and>
    sent (devices st') = sent (devices st) @ bytes (report_text cpu) \<and>
    contents st' = fold (\<lambda>(t, c). show_string t c) (report_strings cpu) (reset (contents st)) \<and>
    kb st' = kb st"
proof -
  obtain b d where serial: "serial_report bus cpu (buffers st, devices st) = Some (b, d)" "buffers_ok b"
    "sent d = sent (devices st) @ bytes (report_text cpu)"
    using serial_report_sends [OF assms(1,2)] assms(3) unfolding sends_def by blast
  obtain b' where "screen_report (\<lambda>t c s. Some (show_string t c s)) (\<lambda>s. Some (reset s)) cpu (b, contents st) =
      Some (b', fold (\<lambda>(t, c). show_string t c) (report_strings cpu) (reset (contents st)))"
    using screen_report_shows [OF assms(2) serial(2), of show_string reset "contents st"] by (elim exE)
  then show ?thesis
    using serial assms(2) by (simp add: isr_handler_def serial_part_def screen_part_def)
qed

theorem exception_reported_witness:
  "\<exists>st'. isr_handler slow_port (\<lambda>t c s. Some (s @ t)) (\<lambda>s. Some []) 0x7000 (saved_cpu 14)
      \<lparr>buffers = boot_buffers, kb = keyboard_boot, devices = (0, []), contents = ''old''\<rparr> = Some (Halted st')"
proof -
  have "drains slow_port fst snd" by (simp add: drains_def slow_port_def)
  moreover have "buffers_ok boot_buffers" by (simp add: buffers_ok_def boot_buffers_def)
  moreover have "isr_number (saved_cpu 14) \<le> 31" by (simp add: saved_cpu_def)
  ultimately show ?thesis
    using exception_reported [of slow_port fst snd "saved_cpu 14"
        "\<lparr>buffers = boot_buffers, kb = keyboard_boot, devices = (0, []), contents = ''old''\<rparr>"
        "\<lambda>t c s. s @ t" "\<lambda>s. []" "0x7000"] by auto
qed


text \<open>The keyboard line and the cascade line in service.\<close>

definition busy_pics :: pics where
  "busy_pics = \<lparr>master = reset_pic\<lparr>in_service := 0x06\<rparr>, slave = reset_pic\<lparr>in_service := 0x10\<rparr>, unused = 0x1E\<rparr>"


text \<open>C40: \<open>popa64\<close> does not undo \<open>pusha64\<close>. It takes exactly the words that were
  pushed, but into the registers in the order they were pushed in: an interrupted program gets its fifteen
  registers back reversed, and unchanged only if they read the same in both directions. The handler
  itself reads every register in its place.\<close>

theorem popa64_reverses_registers:
  "popa64 (pusha64 r s) =
     (\<lparr>reg_rax = reg_r15 r, reg_rbx = reg_r14 r, reg_rcx = reg_r13 r, reg_rdx = reg_r12 r, reg_rbp = reg_r11 r,
       reg_rdi = reg_r10 r, reg_rsi = reg_r9 r, reg_r8 = reg_r8 r, reg_r9 = reg_rsi r, reg_r10 = reg_rdi r,
       reg_r11 = reg_rbp r, reg_r12 = reg_rdx r, reg_r13 = reg_rcx r, reg_r14 = reg_rbx r, reg_r15 = reg_rax r\<rparr>, s) \<and>
   (popa64 (pusha64 r s) = (r, s) \<longleftrightarrow>
     reg_rax r = reg_r15 r \<and> reg_rbx r = reg_r14 r \<and> reg_rcx r = reg_r13 r \<and> reg_rdx r = reg_r12 r \<and>
     reg_rbp r = reg_r11 r \<and> reg_rdi r = reg_r10 r \<and> reg_rsi r = reg_r9 r) \<and>
   map_option (\<lambda>cpu. (rax cpu, rbx cpu, r15 cpu, isr_number cpu, error_code cpu))
     (cpu_state_at (pusha64 r [n, e, i, c, f, p, q])) = Some (reg_rax r, reg_rbx r, reg_r15 r, n, e)"
  by (cases r) (auto simp: popa64_def pusha64_def cpu_state_at_def)

end
