(* ===== verification/Console.thy ===== *)
theory Console
  imports Framebuffer_Text Interrupts
begin

text \<open>
  The framebuffer as the screen of the print functions: it satisfies their contract \<open>text_screen\<close>, so
  log lines and the report of an exception reach the real screen.
\<close>

section \<open>Strings that decode\<close>

text \<open>A string decodes completely and contains no backspace.\<close>

definition displayable :: "string \<Rightarrow> bool" where
  "displayable t = (case code_points t of None \<Rightarrow> False | Some cs \<Rightarrow> 8 \<notin> set cs)"

lemma ssfn_utf8_append:
  assumes "ssfn_utf8 s = Some (c, r)"
  shows "ssfn_utf8 (s @ t) = Some (c, r @ t)"
proof -
  have same: "str_byte (s @ t) i = str_byte s i" if "i < length s" for i
    using that by (simp add: str_byte_def nth_append)
  define b where "b = str_byte s 0"
  have s: "s \<noteq> []" using assms by (cases s) (simp_all add: ssfn_utf8_def str_byte_def)
  then have b': "str_byte (s @ t) 0 = b" using same [of 0] by (simp add: b_def)
  have one: "Suc 0 - length s = 0" using s by (cases s) simp_all
  consider "b AND 128 = 0" | "b AND 128 \<noteq> 0" "b AND 32 = 0" | "b AND 128 \<noteq> 0" "b AND 32 \<noteq> 0" "b AND 16 = 0"
    | "b AND 128 \<noteq> 0" "b AND 32 \<noteq> 0" "b AND 16 \<noteq> 0" "b AND 8 = 0"
    | "b AND 128 \<noteq> 0" "b AND 32 \<noteq> 0" "b AND 16 \<noteq> 0" "b AND 8 \<noteq> 0" by blast
  then show ?thesis
  proof cases
    case 1
    then show ?thesis using assms s one by (simp add: ssfn_utf8_def b' b_def [symmetric])
  next
    case 2
    then show ?thesis using assms same [of 1] by (simp add: ssfn_utf8_def b' b_def [symmetric] split: if_splits)
  next
    case 3
    then show ?thesis using assms same [of 1] same [of 2] by (simp add: ssfn_utf8_def b' b_def [symmetric] split: if_splits)
  next
    case 4
    then show ?thesis using assms same [of 1] same [of 2] same [of 3]
      by (simp add: ssfn_utf8_def b' b_def [symmetric] split: if_splits)
  next
    case 5
    then show ?thesis using assms s one by (simp add: ssfn_utf8_def b' b_def [symmetric])
  qed
qed

lemma code_points_append:
  "code_points s = Some cs \<Longrightarrow> code_points (s @ t) = map_option ((@) cs) (code_points t)"
proof (induction cs arbitrary: s)
  case Nil
  then have "s = []" by (subst (asm) code_points.simps) (auto split: if_splits Option.bind_splits)
  moreover have "(@) [] = (\<lambda>t :: u32 list. t)" by auto
  ultimately show ?case by (simp add: option.map_ident)
next
  case (Cons c cs)
  obtain r where r: "s \<noteq> []" "ssfn_utf8 s = Some (c, r)" "code_points r = Some cs"
    using Cons.prems by (subst (asm) code_points.simps) (auto split: if_splits Option.bind_splits)
  then show ?case
    using Cons.IH [OF r(3)] ssfn_utf8_append [OF r(2), of t]
    by (subst code_points.simps) (cases "code_points t"; simp)
qed

lemma displayable_append: "displayable s \<Longrightarrow> displayable t \<Longrightarrow> displayable (s @ t)"
  by (auto simp: displayable_def code_points_append split: option.splits)

lemma displayable_Nil [simp]: "displayable []"
  by (simp add: displayable_def code_points.simps)

definition plain :: "char \<Rightarrow> bool" where
  "plain c \<longleftrightarrow> of_char c < (128 :: nat) \<and> of_char c \<noteq> (8 :: nat)"

lemma plain_utf8: "plain c \<Longrightarrow> ssfn_utf8 (c # t) = Some (of_nat (of_char c), t)" "plain c \<Longrightarrow> (of_nat (of_char c) :: u32) \<noteq> 8"
proof -
  assume c: "plain c"
  define n where "n = (of_char c :: nat)"
  have n: "n < 128" "n \<noteq> 8" using c by (simp_all add: plain_def n_def)
  have "\<forall>n \<in> set [0..<128]. (of_nat n :: u32) AND 128 = 0 \<and> (n = 8 \<or> (of_nat n :: u32) \<noteq> 8)" by code_simp
  then have low: "(of_nat n :: u32) AND 128 = 0" "(of_nat n :: u32) \<noteq> 8" using n by auto
  then show "ssfn_utf8 (c # t) = Some (of_nat (of_char c), t)" "(of_nat (of_char c) :: u32) \<noteq> 8"
    by (simp_all add: ssfn_utf8_def str_byte_def n_def [symmetric])
qed

lemma plain_displayable: "\<forall>c \<in> set t. plain c \<Longrightarrow> displayable t"
proof (induction t)
  case (Cons c t)
  then have "plain c" "displayable t" by simp_all
  then show ?case
    using plain_utf8 by (subst displayable_def, subst code_points.simps) (auto simp: displayable_def split: option.splits)
qed simp

lemma digits_displayable: "set t \<subseteq> insert CHR ''-'' digit_chars \<Longrightarrow> displayable t"
proof -
  assume "set t \<subseteq> insert CHR ''-'' digit_chars"
  moreover have "\<forall>c \<in> set (CHR ''-'' # ''0123456789abcdefABCDEF''). plain c" by code_simp
  ultimately show ?thesis
    by (intro plain_displayable) (auto simp: digit_chars_def)
qed

section \<open>The framebuffer as a screen\<close>

lemma displayable_shown:
  assumes "fb_ok s" "displayable t"
  shows "\<exists>s'. framebuffer_print_string t color s = Some s' \<and> fb_ok s'"
proof -
  obtain cs where "code_points t = Some cs" "8 \<notin> set cs"
    using assms(2) by (auto simp: displayable_def split: option.splits)
  from framebuffer_print_string_ok [OF assms(1) this, of color] show ?thesis by (elim exE conjE) (intro exI conjI)
qed

interpretation fbs: text_screen framebuffer_print_string fb_ok displayable
  by unfold_locales (rule displayable_shown)

lemma reset_keeps:
  assumes "fb_ok s"
  shows "\<exists>s'. framebuffer_reset_screen s = Some s' \<and> fb_ok s' \<and> same_frame s s' \<and>
    d_x (ssfn_dst s') = 0 \<and> d_y (ssfn_dst s') = 0 \<and> (\<forall>x y. on_screen s x y \<longrightarrow> pixel s' x y = d_bg (ssfn_dst s))"
proof -
  let ?c = "d_bg (ssfn_dst s)"
  let ?s = "s\<lparr>ssfn_dst := (ssfn_dst s)\<lparr>d_x := 0, d_y := 0\<rparr>\<rparr>"
  have ok: "fb_ok ?s" "fb_shape ?s" "on_screen ?s = on_screen s"
    using assms by (simp_all add: fb_ok_def fb_set_def fb_shape_def width_def height_def stride_def on_screen_def fun_eq_iff)
  have id: "?s\<lparr>ssfn_dst := (ssfn_dst ?s)\<lparr>d_bg := ?c\<rparr>\<rparr> = ?s" by simp
  obtain s' where s': "framebuffer_set_background_color ?c ?s = Some s'" "repainted ?s s'"
    "\<And>x y. on_screen s x y \<Longrightarrow> pixel s' x y = ?c"
    using background_painted [OF ok(2), of ?c] unfolding id ok(3) by blast
  have "same_frame s ?s" by (simp add: same_frame_def)
  then have "same_frame s s'" using repainted_ok [OF ok(1) s'(2)] same_frame_trans by blast
  then show ?thesis
    using s' repainted_ok [OF ok(1) s'(2)] repaintedD(3) [OF s'(2)] by (simp add: framebuffer_reset_screen_def)
qed

section \<open>What the kernel prints\<close>

lemma displayable_concat: "\<forall>t \<in> set ts. displayable t \<Longrightarrow> displayable (concat ts)"
  by (induction ts) (simp_all add: displayable_append)

lemma signs_displayable:
  "displayable (map char_of [0xE2, 0x94, 0x80 :: nat])" "displayable hook" "displayable warning_sign"
  "displayable info_sign" "displayable arrow" "displayable dash"
  by (code_simp)+

lemma plain_texts:
  "displayable '' EXCEPTION OCCURRED! ''" "displayable '' Register dump:''" "displayable '' ISR-No. ''"
  "displayable '': ''" "displayable NL" "displayable '' Error code: 0x''" "displayable '':''" "displayable '' ''"
  by (rule plain_displayable, code_simp)+

lemma fixed_displayable:
  "displayable rule_format" "displayable title_format" "displayable dump_title_format"
proof -
  have "\<forall>t \<in> set (replicate 24 (map char_of [0xE2, 0x94, 0x80 :: nat])). displayable t"
    using signs_displayable(1) by (metis in_set_replicate)
  then show "displayable rule_format"
    unfolding rule_format_def by (intro displayable_append displayable_concat plain_texts)
  show "displayable title_format" "displayable dump_title_format"
    unfolding title_format_def dump_title_format_def
    by (intro displayable_append signs_displayable plain_texts)+
qed

lemma exceptions_displayable: "\<forall>e \<in> set exceptions. displayable e"
  by (simp only: exceptions_def list.set ball_simps simp_thms)
    (intro conjI displayable_append signs_displayable plain_texts; rule plain_displayable, code_simp)

lemma dump_labels_displayable: "\<forall>l \<in> set dump_labels. displayable l"
  by (simp only: dump_labels_def list.set ball_simps simp_thms displayable_Nil)
    (intro conjI displayable_append signs_displayable plain_texts; rule plain_displayable, code_simp)

lemma status_tag_displayable: "displayable (status_tag status)"
  by (rule plain_displayable, cases status; simp only:; code_simp)

lemma numbers_displayable: "displayable (signed_text i)" "displayable (hex16 w)"
  using signed_text_digits [of i] hex16_digits [of w] by (auto intro!: digits_displayable)

lemma dump_text_displayable:
  "\<forall>l \<in> set labels. displayable l \<Longrightarrow> displayable (dump_text labels ws)"
proof (induction labels arbitrary: ws)
  case Nil
  then show ?case by (simp add: dump_text_def)
next
  case (Cons l labels)
  then show ?case
    by (cases ws) (simp_all add: dump_text_def displayable_append numbers_displayable)
qed

lemma report_displayable:
  assumes "isr_number cpu \<le> 31"
  shows "\<forall>(t, c) \<in> set (report_strings cpu). displayable t"
proof -
  have "unat (isr_number cpu) < length exceptions"
    using assms exceptions_text(1) by (simp add: word_le_nat_alt)
  then have "displayable (exceptions ! unat (isr_number cpu))" using exceptions_displayable by simp
  then have "displayable (isr_text cpu)" "displayable (error_text cpu)"
    "displayable (dump_text dump_labels (dump_registers cpu) @ NL)"
    unfolding isr_text_def error_text_def
    by (intro displayable_append signs_displayable plain_texts numbers_displayable dump_text_displayable dump_labels_displayable; assumption)+
  then show ?thesis by (simp add: report_strings_def fixed_displayable)
qed

lemma log_line_displayable:
  "displayable description \<Longrightarrow> displayable msg \<Longrightarrow> displayable (status_tag status @ log_line description line_nr msg)"
proof -
  assume "displayable description" "displayable msg"
  then show ?thesis
    unfolding log_line_def by (intro displayable_append status_tag_displayable signs_displayable plain_texts numbers_displayable)
qed

section \<open>Properties\<close>



end
