(* ===== verification/Kmem.thy ===== *)
theory Kmem
  imports Prelude
begin

text \<open>
  \<open>kernel/memory/mem.h\<close>: page size, alignment macros and the conversions between
  physical addresses and the higher half. The kernel reads the paging mode from bit 12 of
  \<open>cr4\<close>; the register is a parameter of every definition that looks at it.
\<close>

section \<open>Constants and macros\<close>

definition HIGHER_HALF_DATA_LV5 :: u64 where
  "HIGHER_HALF_DATA_LV5 = 0xFF00000000000000"

definition HIGHER_HALF_DATA_LV4 :: u64 where
  "HIGHER_HALF_DATA_LV4 = 0xFFFF800000000000"

definition HIGHER_HALF_CODE :: u64 where
  "HIGHER_HALF_CODE = 0xFFFFFFFF80000000"

definition PAGE_SIZE :: u64 where
  "PAGE_SIZE = 4096"

definition KB_TO_PAGES :: "u64 \<Rightarrow> u64" where
  "KB_TO_PAGES kb = (kb * 1024) div PAGE_SIZE"

definition ALIGN_DOWN :: "u64 \<Rightarrow> u64 \<Rightarrow> u64" where
  "ALIGN_DOWN addr align = addr AND NOT (align - 1)"

definition ALIGN_UP :: "u64 \<Rightarrow> u64 \<Rightarrow> u64" where
  "ALIGN_UP addr align = (addr + align - 1) AND NOT (align - 1)"

definition IS_PAGE_ALIGNED :: "u64 \<Rightarrow> bool" where
  "IS_PAGE_ALIGNED num \<longleftrightarrow> num mod PAGE_SIZE = 0"

section \<open>Address conversions\<close>

definition is_la57_enabled :: "u64 \<Rightarrow> bool" where
  "is_la57_enabled cr4 \<longleftrightarrow> drop_bit 12 cr4 AND 1 \<noteq> 0"

definition phys_to_higher_half_data :: "u64 \<Rightarrow> u64 \<Rightarrow> u64" where
  "phys_to_higher_half_data cr4 address =
     (if is_la57_enabled cr4 then HIGHER_HALF_DATA_LV5 + address
      else HIGHER_HALF_DATA_LV4 + address)"

definition phys_to_higher_half_code :: "u64 \<Rightarrow> u64" where
  "phys_to_higher_half_code address = HIGHER_HALF_CODE + address"

definition higher_half_data_to_phys :: "u64 \<Rightarrow> u64 \<Rightarrow> u64" where
  "higher_half_data_to_phys cr4 address =
     (if is_la57_enabled cr4 then address - HIGHER_HALF_DATA_LV5
      else address - HIGHER_HALF_DATA_LV4)"

definition higher_half_code_to_phys :: "u64 \<Rightarrow> u64" where
  "higher_half_code_to_phys address = address - HIGHER_HALF_CODE"

section \<open>Lemmas\<close>

text \<open>The conversions are inverse to each other in either paging mode.\<close>

lemma phys_of_higher_half [simp]:
  "higher_half_data_to_phys cr4 (phys_to_higher_half_data cr4 a) = a"
  by (simp add: higher_half_data_to_phys_def phys_to_higher_half_data_def)

lemma higher_half_of_phys [simp]:
  "phys_to_higher_half_data cr4 (higher_half_data_to_phys cr4 a) = a"
  by (simp add: higher_half_data_to_phys_def phys_to_higher_half_data_def)

lemma higher_half_code_round_trip [simp]:
  "higher_half_code_to_phys (phys_to_higher_half_code a) = a"
  by (simp add: higher_half_code_to_phys_def phys_to_higher_half_code_def)

lemma higher_half_inj: "phys_to_higher_half_data cr4 a = phys_to_higher_half_data cr4 b \<Longrightarrow> a = b"
  by (metis phys_of_higher_half)

lemma is_la57_enabled_bit: "is_la57_enabled cr4 \<longleftrightarrow> bit cr4 12"
  by (simp add: is_la57_enabled_def and_one_eq bit_iff_odd_drop_bit odd_iff_mod_2_eq_one)

text \<open>
  Aligning to a power of two through a mask rounds to a multiple of it.
\<close>

lemma align_down_pow2: "ALIGN_DOWN a (2 ^ n) = push_bit n (drop_bit n a)"
  by (rule bit_word_eqI)
    (auto simp: ALIGN_DOWN_def bit_simps simp flip: mask_eq_exp_minus_1)

lemma align_up_eq_down: "ALIGN_UP a al = ALIGN_DOWN (a + (al - 1)) al"
  by (simp add: ALIGN_UP_def ALIGN_DOWN_def add_diff_eq)

lemma unat_align_down_pow2:
  "unat (ALIGN_DOWN a (2 ^ n)) = unat a div 2 ^ n * 2 ^ n" if "n < 64"
proof -
  have "push_bit n (drop_bit n a) = a - take_bit n a"
    using bits_ident [of n a] by (simp add: algebra_simps)
  moreover have "unat (a - take_bit n a) = unat a - unat (take_bit n a)"
    by (rule unat_sub) (simp add: word_le_nat_alt unsigned_take_bit_eq)
  moreover have "unat a - unat a mod 2 ^ n = unat a div 2 ^ n * 2 ^ n"
    by (simp add: minus_mod_eq_div_mult)
  moreover have "unat (take_bit n a) = unat a mod 2 ^ n"
    by (subst unsigned_take_bit_eq) (simp add: take_bit_eq_mod)
  ultimately show ?thesis
    by (simp only: align_down_pow2)
qed

lemma unat_align_down_page: "unat (ALIGN_DOWN a PAGE_SIZE) = unat a div 4096 * 4096"
  using unat_align_down_pow2 [of 12 a] by (simp add: PAGE_SIZE_def)

lemma unat_align_up_page:
  assumes "unat a + 4095 < 2 ^ 64"
  shows "unat (ALIGN_UP a PAGE_SIZE) = (unat a + 4095) div 4096 * 4096"
proof -
  have "unat (a + 4095) = unat a + 4095"
    using assms by (simp add: unat_add_u64)
  then show ?thesis
    using unat_align_down_page [of "a + 4095"] by (simp add: align_up_eq_down PAGE_SIZE_def)
qed

lemma unat_div_page: "unat (a div 4096 :: u64) = unat a div 4096"
  by (simp add: unat_div)

text \<open>
  A physical address shifted down by the higher-half offset is off by \<open>2 ^ 47\<close> (or
  \<open>2 ^ 56\<close>) bytes; in pages that is a multiple of \<open>2 ^ 32\<close>, which the
  conversion of the page index to \<open>int\<close> drops.
\<close>

lemma higher_half_offset:
  "higher_half_data_to_phys cr4 a = a + (if is_la57_enabled cr4 then 2 ^ 56 else 2 ^ 47)"
  by (simp add: higher_half_data_to_phys_def HIGHER_HALF_DATA_LV4_def HIGHER_HALF_DATA_LV5_def)

end
