(* ===== verification/Bitmap.thy ===== *)
theory Bitmap
  imports Prelude
begin

text \<open>
  \<open>libs/libk/alloc/bitmap.c\<close>: one bit per page. The memory \<open>map\<close> points to is the
  list of its bytes; an access outside it, or one with a negative bit number, is undefined
  and \<open>None\<close>. The bit number is a C \<open>int\<close>.
\<close>

section \<open>Data and operations\<close>

record BITMAP_t =
  bm_map :: "u8 list"
  bm_size :: u64

definition BIT_TO_PAGE :: "u64 \<Rightarrow> u64" where
  "BIT_TO_PAGE b = b * 0x1000"

definition PAGE_TO_BIT :: "u64 \<Rightarrow> u64" where
  "PAGE_TO_BIT page = page div 0x1000"

definition byte_ok :: "BITMAP_t \<Rightarrow> int \<Rightarrow> bool" where
  "byte_ok bm b \<longleftrightarrow> 0 \<le> b \<and> nat (b div 8) < length (bm_map bm)"

definition bitmap_set_bit :: "BITMAP_t \<Rightarrow> int \<Rightarrow> BITMAP_t option" where
  "bitmap_set_bit bm b =
     (let k = nat (b div 8) in
      if byte_ok bm b
      then Some (bm\<lparr>bm_map := (bm_map bm)[k := bm_map bm ! k OR push_bit (nat (b mod 8)) 1]\<rparr>)
      else None)"

definition bitmap_unset_bit :: "BITMAP_t \<Rightarrow> int \<Rightarrow> BITMAP_t option" where
  "bitmap_unset_bit bm b =
     (let k = nat (b div 8) in
      if byte_ok bm b
      then Some (bm\<lparr>bm_map := (bm_map bm)[k := bm_map bm ! k AND NOT (push_bit (nat (b mod 8)) 1)]\<rparr>)
      else None)"

definition bitmap_check_bit :: "BITMAP_t \<Rightarrow> int \<Rightarrow> u8 option" where
  "bitmap_check_bit bm b =
     (if byte_ok bm b
      then Some (bm_map bm ! nat (b div 8) AND push_bit (nat (b mod 8)) 1)
      else None)"

section \<open>The abstract view: a set of bit numbers\<close>

definition bm_cap :: "BITMAP_t \<Rightarrow> nat" where
  "bm_cap bm = 8 * length (bm_map bm)"

definition bm_bits :: "BITMAP_t \<Rightarrow> nat set" where
  "bm_bits bm = {i. i < bm_cap bm \<and> bit (bm_map bm ! (i div 8)) (i mod 8)}"

lemma byte_ok_cap: "byte_ok bm (int i) \<longleftrightarrow> i < bm_cap bm"
  by (auto simp: byte_ok_def bm_cap_def nat_div_distrib)

lemma nat_int_div_mod [simp]: "nat (int i div 8) = i div 8" "nat (int i mod 8) = i mod 8"
  by (simp_all add: nat_div_distrib nat_mod_distrib)

lemma div_mod_8_inj: "i div 8 = j div 8 \<Longrightarrow> i mod 8 = j mod 8 \<Longrightarrow> i = (j :: nat)"
  by (metis mult_div_mod_eq)

lemma bitmap_set_bit_bits:
  assumes "i < bm_cap bm"
  obtains bm' where "bitmap_set_bit bm (int i) = Some bm'" "bm_bits bm' = insert i (bm_bits bm)"
    "bm_cap bm' = bm_cap bm" "bm_size bm' = bm_size bm"
proof
  let ?k = "i div 8"
  let ?bm = "bm\<lparr>bm_map := (bm_map bm)[?k := bm_map bm ! ?k OR push_bit (i mod 8) 1]\<rparr>"
  have k: "?k < length (bm_map bm)"
    using assms by (auto simp: bm_cap_def)
  show "bitmap_set_bit bm (int i) = Some ?bm"
    using assms by (simp add: bitmap_set_bit_def byte_ok_cap Let_def)
  show "bm_cap ?bm = bm_cap bm" "bm_size ?bm = bm_size bm"
    by (simp_all add: bm_cap_def)
  have "j \<in> bm_bits ?bm \<longleftrightarrow> j \<in> insert i (bm_bits bm)" for j
    using k assms div_mod_8_inj [of i j]
    by (auto simp: bm_bits_def bm_cap_def nth_list_update bit_simps)
  then show "bm_bits ?bm = insert i (bm_bits bm)"
    by blast
qed

lemma bitmap_unset_bit_bits:
  assumes "i < bm_cap bm"
  obtains bm' where "bitmap_unset_bit bm (int i) = Some bm'" "bm_bits bm' = bm_bits bm - {i}"
    "bm_cap bm' = bm_cap bm" "bm_size bm' = bm_size bm"
proof
  let ?k = "i div 8"
  let ?bm = "bm\<lparr>bm_map := (bm_map bm)[?k := bm_map bm ! ?k AND NOT (push_bit (i mod 8) 1)]\<rparr>"
  have k: "?k < length (bm_map bm)"
    using assms by (auto simp: bm_cap_def)
  show "bitmap_unset_bit bm (int i) = Some ?bm"
    using assms by (simp add: bitmap_unset_bit_def byte_ok_cap Let_def)
  show "bm_cap ?bm = bm_cap bm" "bm_size ?bm = bm_size bm"
    by (simp_all add: bm_cap_def)
  have "j \<in> bm_bits ?bm \<longleftrightarrow> j \<in> bm_bits bm - {i}" for j
    using k assms div_mod_8_inj [of i j]
    by (auto simp: bm_bits_def bm_cap_def nth_list_update bit_simps)
  then show "bm_bits ?bm = bm_bits bm - {i}"
    by blast
qed

lemma bitmap_check_bit_bits:
  assumes "i < bm_cap bm"
  obtains v where "bitmap_check_bit bm (int i) = Some v" "v = 0 \<longleftrightarrow> i \<notin> bm_bits bm"
proof
  let ?v = "bm_map bm ! (i div 8) AND push_bit (i mod 8) 1"
  show "bitmap_check_bit bm (int i) = Some ?v"
    using assms by (simp add: bitmap_check_bit_def byte_ok_cap)
  have "bit ?v n \<longleftrightarrow> n = i mod 8 \<and> bit (bm_map bm ! (i div 8)) n" for n
    by (auto simp: bit_simps)
  then have "?v = 0 \<longleftrightarrow> \<not> bit (bm_map bm ! (i div 8)) (i mod 8)"
    by (metis bit_0_eq bit_eq_iff bot_apply bot_bool_def)
  then show "?v = 0 \<longleftrightarrow> i \<notin> bm_bits bm"
    using assms by (simp add: bm_bits_def)
qed

text \<open>A bitmap filled with \<open>0xFF\<close> has every bit set.\<close>

lemma bit_0xFF: "bit (0xFF :: u8) n \<longleftrightarrow> n < 8"
proof -
  have "(0xFF :: u8) = - 1"
    by simp
  then show ?thesis
    by (simp only: bit_minus_1_iff) (simp add: possible_bit_word)
qed

lemma bits_all_set:
  "bm_map bm = replicate n 0xFF \<Longrightarrow> bm_bits bm = {..<8 * n}"
  by (auto simp: bm_bits_def bm_cap_def bit_0xFF less_mult_imp_div_less mult.commute
      simp del: bit_numeral_word_iff)

section \<open>The interface the page allocator uses\<close>

text \<open>
  A bit table: setting, clearing and testing one bit, with the set of set bits as the
  abstract value. What the page allocator does with ranges of bits is proved from these
  laws alone.
\<close>

locale bit_table =
  fixes set_b unset_b :: "'m \<Rightarrow> int \<Rightarrow> 'm option"
    and check_b :: "'m \<Rightarrow> int \<Rightarrow> u8 option"
    and bits :: "'m \<Rightarrow> nat set"
    and cap :: "'m \<Rightarrow> nat"
  assumes set_b: "i < cap m \<Longrightarrow>
      \<exists>m'. set_b m (int i) = Some m' \<and> bits m' = insert i (bits m) \<and> cap m' = cap m"
    and unset_b: "i < cap m \<Longrightarrow>
      \<exists>m'. unset_b m (int i) = Some m' \<and> bits m' = bits m - {i} \<and> cap m' = cap m"
    and check_b: "i < cap m \<Longrightarrow>
      \<exists>v. check_b m (int i) = Some v \<and> (v = 0 \<longleftrightarrow> i \<notin> bits m)"
    and bits_cap: "bits m \<subseteq> {..<cap m}"
begin

lemma set_range:
  assumes "i + n \<le> cap m"
  shows "\<exists>m'. for_range (\<lambda>j m. set_b m (int j)) i n m = Some m' \<and>
    bits m' = bits m \<union> {i..<i + n} \<and> cap m' = cap m"
proof -
  have "\<exists>m'. for_range (\<lambda>j m. set_b m (int j)) i n m = Some m' \<and>
      (bits m' = bits m \<union> {i..<i + n} \<and> cap m' = cap m)"
  proof (rule for_range_invar)
    fix j m'
    assume j: "i \<le> j" "j < i + n" and m': "bits m' = bits m \<union> {i..<j} \<and> cap m' = cap m"
    then obtain m'' where "set_b m' (int j) = Some m''" "bits m'' = insert j (bits m')"
      "cap m'' = cap m'"
      using set_b [of j m'] assms by auto
    with j m' show "\<exists>m''. set_b m' (int j) = Some m'' \<and>
        (bits m'' = bits m \<union> {i..<Suc j} \<and> cap m'' = cap m)"
      by (auto simp: atLeastLessThanSuc)
  qed simp
  then show ?thesis .
qed

lemma unset_range:
  assumes "i + n \<le> cap m"
  shows "\<exists>m'. for_range (\<lambda>j m. unset_b m (int j)) i n m = Some m' \<and>
    bits m' = bits m - {i..<i + n} \<and> cap m' = cap m"
proof -
  have "\<exists>m'. for_range (\<lambda>j m. unset_b m (int j)) i n m = Some m' \<and>
      (bits m' = bits m - {i..<i + n} \<and> cap m' = cap m)"
  proof (rule for_range_invar)
    fix j m'
    assume j: "i \<le> j" "j < i + n" and m': "bits m' = bits m - {i..<j} \<and> cap m' = cap m"
    then obtain m'' where "unset_b m' (int j) = Some m''" "bits m'' = bits m' - {j}"
      "cap m'' = cap m'"
      using unset_b [of j m'] assms by auto
    with j m' show "\<exists>m''. unset_b m' (int j) = Some m'' \<and>
        (bits m'' = bits m - {i..<Suc j} \<and> cap m'' = cap m)"
      by (auto simp: atLeastLessThanSuc)
  qed simp
  then show ?thesis .
qed

text \<open>The search for the first clear bit.\<close>

lemma scan_first_clear:
  assumes "k < n" "n \<le> cap m" "k \<notin> bits m" "{..<k} \<subseteq> bits m"
  shows "scan (\<lambda>j. check_b m (int j)) 0 n = Some (Some k)"
proof (rule scan_found)
  fix j
  assume "j < k"
  then show "\<exists>v. check_b m (int j) = Some v \<and> v \<noteq> 0"
    using check_b [of j m] assms by auto
next
  show "check_b m (int k) = Some 0"
    using check_b [of k m] assms by auto
qed (use assms in auto)

lemma scan_all_set:
  assumes "n \<le> cap m" "{..<n} \<subseteq> bits m"
  shows "scan (\<lambda>j. check_b m (int j)) 0 n = Some None"
proof (rule scan_not_found)
  fix j
  assume "j < 0 + n"
  then show "\<exists>v. check_b m (int j) = Some v \<and> v \<noteq> 0"
    using check_b [of j m] assms by auto
qed

end

interpretation bmt: bit_table bitmap_set_bit bitmap_unset_bit bitmap_check_bit bm_bits bm_cap
proof unfold_locales
  fix i m
  assume i: "i < bm_cap m"
  show "\<exists>m'. bitmap_set_bit m (int i) = Some m' \<and> bm_bits m' = insert i (bm_bits m) \<and>
      bm_cap m' = bm_cap m"
    using bitmap_set_bit_bits [OF i] by metis
  show "\<exists>m'. bitmap_unset_bit m (int i) = Some m' \<and> bm_bits m' = bm_bits m - {i} \<and>
      bm_cap m' = bm_cap m"
    using bitmap_unset_bit_bits [OF i] by metis
  show "\<exists>v. bitmap_check_bit m (int i) = Some v \<and> (v = 0 \<longleftrightarrow> i \<notin> bm_bits m)"
    using bitmap_check_bit_bits [OF i] by metis
qed (auto simp: bm_bits_def)

end
