(* ===== verification/Address_Source.thy ===== *)
theory Address_Source
  imports Prelude
begin

text \<open>
  The interface of an allocator of equal-sized pieces, as its clients use it: one call that
  hands out one piece, the set of pieces still available, and the address under which a
  piece is handed out. The page allocator, each slab and the kernel heap are instances.
  \<open>alloc_seq\<close> is a client that takes several pieces.
\<close>

primrec alloc_seq :: "('s \<Rightarrow> ('s \<times> u64) option) \<Rightarrow> nat \<Rightarrow> 's \<Rightarrow> ('s \<times> u64 list) option" where
  "alloc_seq alloc 0 s = Some (s, [])"
| "alloc_seq alloc (Suc n) s =
     (case alloc s of None \<Rightarrow> None
      | Some (s1, p) \<Rightarrow>
          (case alloc_seq alloc n s1 of None \<Rightarrow> None | Some (s2, ps) \<Rightarrow> Some (s2, p # ps)))"

locale address_source =
  fixes alloc :: "'s \<Rightarrow> ('s \<times> u64) option"
    and ok :: "'s \<Rightarrow> bool"
    and avail :: "'s \<Rightarrow> 'k set"
    and addr :: "'k \<Rightarrow> u64"
  assumes alloc_piece: "ok s \<Longrightarrow> avail s \<noteq> {} \<Longrightarrow>
      \<exists>s' k. alloc s = Some (s', addr k) \<and> k \<in> avail s \<and> avail s' = avail s - {k} \<and> ok s'"
    and alloc_out: "ok s \<Longrightarrow> avail s = {} \<Longrightarrow>
      \<exists>s'. alloc s = Some (s', NULL) \<and> avail s' = {} \<and> ok s'"
    and avail_finite: "finite (avail s)"
    and addr_nonnull: "ok s \<Longrightarrow> k \<in> avail s \<Longrightarrow> addr k \<noteq> NULL"
    and addr_inj: "ok s \<Longrightarrow> inj_on addr (avail s)"
begin

lemma alloc_seq_pieces:
  assumes "ok s" and "n \<le> card (avail s)"
  shows "\<exists>s' ks. alloc_seq alloc n s = Some (s', map addr ks) \<and> length ks = n \<and> distinct ks \<and>
    set ks \<subseteq> avail s \<and> avail s' = avail s - set ks \<and> ok s'"
  using assms
proof (induction n arbitrary: s)
  case 0
  then show ?case by simp
next
  case (Suc n)
  then have "avail s \<noteq> {}" by auto
  then obtain s1 k where k: "alloc s = Some (s1, addr k)" "k \<in> avail s"
    "avail s1 = avail s - {k}" "ok s1"
    using alloc_piece Suc.prems by blast
  have "n \<le> card (avail s1)"
    using Suc.prems k(2,3) avail_finite by simp
  then obtain s2 ks where "alloc_seq alloc n s1 = Some (s2, map addr ks)" "length ks = n"
    "distinct ks" "set ks \<subseteq> avail s1" "avail s2 = avail s1 - set ks" "ok s2"
    using Suc.IH k(4) by blast
  with k show ?case
    by (intro exI [of _ s2] exI [of _ "k # ks"]) auto
qed

lemma alloc_seq_distinct:
  assumes "ok s" and "n \<le> card (avail s)"
  obtains s' ps where "alloc_seq alloc n s = Some (s', ps)" "length ps = n" "distinct ps"
    "NULL \<notin> set ps" "set ps \<subseteq> addr ` avail s" "card (avail s') = card (avail s) - n" "ok s'"
proof -
  obtain s' ks where *: "alloc_seq alloc n s = Some (s', map addr ks)" "length ks = n"
    "distinct ks" "set ks \<subseteq> avail s" "avail s' = avail s - set ks" "ok s'"
    using alloc_seq_pieces [OF assms] by blast
  have "inj_on addr (set ks)"
    using addr_inj [OF assms(1)] *(4) inj_on_subset by blast
  then have "distinct (map addr ks)"
    using *(3) by (simp add: distinct_map)
  moreover have "NULL \<notin> set (map addr ks)"
    using addr_nonnull [OF assms(1)] *(4) by fastforce
  moreover have "card (avail s') = card (avail s) - n"
    using * by (simp add: card_Diff_subset distinct_card)
  ultimately show thesis
    using that * by (simp add: image_mono)
qed

end

end
