(* ===== verification/Pmm.thy ===== *)
theory Pmm
  imports Kmem Bitmap Stivale2 Address_Source
begin

text \<open>
  \<open>kernel/memory/pmm.c\<close>: the physical memory manager, a bitmap with one bit per page,
  1 for used. The state is the two globals \<open>pmm_info\<close> and \<open>bitmap\<close> and the global
  \<open>highest_page\<close>; \<open>cr4\<close> is the register the address conversions read. The memory
  of the bitmap is the byte list of \<open>bitmap\<close>: the allocator keeps it apart from the
  pages it hands out by shrinking the memory map entry that hosts it.
\<close>

section \<open>State\<close>

record PMM_Info_Struct =
  memory_size :: u64
  max_pages :: u32
  used_pages :: u32
  memory_map :: "stivale2_mmap_entry list"

record pmm_state =
  pmm_info :: PMM_Info_Struct
  bitmap :: BITMAP_t
  highest_page :: u64

section \<open>Operations\<close>

definition get_memory_map_entry_type :: "u32 \<Rightarrow> string" where
  "get_memory_map_entry_type type =
     (if type = STIVALE2_MMAP_USABLE then ''Usable''
      else if type = STIVALE2_MMAP_RESERVED then ''Reserved''
      else if type = STIVALE2_MMAP_ACPI_RECLAIMABLE then ''ACPI Reclaimable''
      else if type = STIVALE2_MMAP_ACPI_NVS then ''ACPI Non Volatile Storage''
      else if type = STIVALE2_MMAP_BAD_MEMORY then ''Bad Memory''
      else if type = STIVALE2_MMAP_BOOTLOADER_RECLAIMABLE then ''Bootloader Reclaimable''
      else if type = STIVALE2_MMAP_KERNEL_AND_MODULES then ''Kernel And Modules''
      else if type = STIVALE2_MMAP_FRAMEBUFFER then ''Framebuffer''
      else ''Unknown'')"

text \<open>
  The search runs the same scan of the whole bitmap \<open>page_count\<close> times and returns at
  the first free bit; \<open>Some NULL\<close> is "nothing found". The bit number of the scan is a
  \<open>size_t\<close> that the call of \<open>bitmap_check_bit\<close> converts to \<open>int\<close>.
\<close>

primrec repeat_scan :: "BITMAP_t \<Rightarrow> nat \<Rightarrow> nat \<Rightarrow> nat option option" where
  "repeat_scan bm n 0 = Some None"
| "repeat_scan bm n (Suc counter) =
     (case scan (\<lambda>i. bitmap_check_bit bm (to_int32 (of_nat i))) 0 n of
        None \<Rightarrow> None
      | Some (Some i) \<Rightarrow> Some (Some i)
      | Some None \<Rightarrow> repeat_scan bm n counter)"

definition pmm_find_first_free_page :: "pmm_state \<Rightarrow> u64 \<Rightarrow> u64 option" where
  "pmm_find_first_free_page st page_count =
     (if page_count = 0 then Some NULL
      else case repeat_scan (bitmap st) (unat (PAGE_TO_BIT (highest_page st))) (unat page_count) of
        None \<Rightarrow> None
      | Some None \<Rightarrow> Some NULL
      | Some (Some i) \<Rightarrow> Some (BIT_TO_PAGE (of_nat i)))"

definition pmm_alloc :: "u64 \<Rightarrow> pmm_state \<Rightarrow> u64 \<Rightarrow> (pmm_state \<times> u64) option" where
  "pmm_alloc cr4 st page_count =
     (if used_pages (pmm_info st) \<le> 0 then Some (st, NULL)
      else do {
        pointer \<leftarrow> pmm_find_first_free_page st page_count;
        if pointer = NULL then Some (st, NULL)
        else do {
          let index = pointer div PAGE_SIZE;
          bm \<leftarrow> for_range (\<lambda>i bm. bitmap_set_bit bm (to_int32 (index + of_nat i))) 0
                  (unat page_count) (bitmap st);
          let info = pmm_info st;
          Some (st\<lparr>bitmap := bm,
                   pmm_info := info\<lparr>used_pages := used_pages info + ucast page_count\<rparr>\<rparr>,
                phys_to_higher_half_data cr4 (index * PAGE_SIZE))
        }
      })"

definition pmm_free :: "u64 \<Rightarrow> pmm_state \<Rightarrow> u64 \<Rightarrow> u64 \<Rightarrow> pmm_state option" where
  "pmm_free cr4 st pointer page_count = do {
     let index = higher_half_data_to_phys cr4 pointer div PAGE_SIZE;
     bm \<leftarrow> for_range (\<lambda>i bm. bitmap_unset_bit bm (to_int32 (index + of_nat i))) 0
             (unat page_count) (bitmap st);
     let info = pmm_info st;
     Some (st\<lparr>bitmap := bm, pmm_info := info\<lparr>used_pages := used_pages info - ucast page_count\<rparr>\<rparr>)
   }"

section \<open>Initialisation\<close>

text \<open>Step 2: the end of the highest entry of the three kinds of memory that count.\<close>

definition counts_for_top :: "stivale2_mmap_entry \<Rightarrow> bool" where
  "counts_for_top e \<longleftrightarrow>
     \<not> (me_type e \<noteq> STIVALE2_MMAP_USABLE \<and>
        me_type e \<noteq> STIVALE2_MMAP_BOOTLOADER_RECLAIMABLE \<and>
        me_type e \<noteq> STIVALE2_MMAP_KERNEL_AND_MODULES)"

fun find_highest :: "stivale2_mmap_entry list \<Rightarrow> u64 \<Rightarrow> u64" where
  "find_highest [] highest = highest"
| "find_highest (e # es) highest =
     (if \<not> counts_for_top e then find_highest es highest
      else let top = me_base e + me_length e
           in find_highest es (if top > highest then top else highest))"

text \<open>Step 3: the size of the bitmap in bytes.\<close>

definition bitmap_byte_size :: "u64 \<Rightarrow> u64" where
  "bitmap_byte_size highest = ALIGN_UP (ALIGN_DOWN highest PAGE_SIZE div PAGE_SIZE div 8) PAGE_SIZE"

text \<open>
  Step 4: the first usable entry that can hold the bitmap loses its front to it. The loop
  returns the changed map and whether a host was found.
\<close>

fun host_bitmap :: "u64 \<Rightarrow> stivale2_mmap_entry list \<Rightarrow> stivale2_mmap_entry list \<times> bool" where
  "host_bitmap sz [] = ([], False)"
| "host_bitmap sz (e # es) =
     (if me_type e \<noteq> STIVALE2_MMAP_USABLE \<or> me_length e < sz
      then (let (es', found) = host_bitmap sz es in (e # es', found))
      else (e\<lparr>me_base := me_base e + sz, me_length := me_length e - sz\<rparr> # es, True))"

text \<open>Step 6: every usable entry is freed, through the ordinary \<open>pmm_free\<close>.\<close>

fun free_usable :: "u64 \<Rightarrow> stivale2_mmap_entry list \<Rightarrow> pmm_state \<Rightarrow> pmm_state option" where
  "free_usable cr4 [] st = Some st"
| "free_usable cr4 (e # es) st =
     (if me_type e = STIVALE2_MMAP_USABLE
      then Option.bind (pmm_free cr4 st (me_base e) (me_length e div PAGE_SIZE)) (free_usable cr4 es)
      else free_usable cr4 es st)"

text \<open>
  The whole of \<open>pmm_init\<close>. Without a host the map pointer stays the null pointer and
  the fill of step 5 writes through it: undefined. \<open>highest_page\<close> is the global, 0
  before the first call.
\<close>

definition pmm_init :: "u64 \<Rightarrow> pmm_state \<Rightarrow> stivale2_mmap_entry list \<Rightarrow> pmm_state option" where
  "pmm_init cr4 st mmap = do {
     let highest = find_highest mmap (highest_page st);
     let pages = ucast (KB_TO_PAGES highest);
     let sz = bitmap_byte_size highest;
     let (mmap', found) = host_bitmap sz mmap;
     if \<not> found then None
     else do {
       let st1 = \<lparr>pmm_info = \<lparr>memory_size = highest, max_pages = pages, used_pages = pages,
                              memory_map = mmap'\<rparr>,
                  bitmap = \<lparr>bm_map = replicate (unat sz) 0xFF, bm_size = sz\<rparr>,
                  highest_page = highest\<rparr>;
       st2 \<leftarrow> free_usable cr4 mmap' st1;
       bm \<leftarrow> bitmap_set_bit (bitmap st2) 0;
       Some (st2\<lparr>bitmap := bm\<rparr>)
     }
   }"

section \<open>The abstract view\<close>

text \<open>
  A state is well formed when the bitmap covers every page below \<open>highest_page\<close>, its
  bit numbers fit a C \<open>int\<close>, and page 0, the null pointer, is marked used.
\<close>

definition pmm_used :: "pmm_state \<Rightarrow> nat set" where
  "pmm_used st = bm_bits (bitmap st)"

definition pmm_top :: "pmm_state \<Rightarrow> nat" where
  "pmm_top st = unat (PAGE_TO_BIT (highest_page st))"

definition pmm_avail :: "pmm_state \<Rightarrow> nat set" where
  "pmm_avail st = {..<pmm_top st} - pmm_used st"

definition pmm_wf :: "pmm_state \<Rightarrow> bool" where
  "pmm_wf st \<longleftrightarrow> bm_cap (bitmap st) \<le> 2 ^ 31 \<and> pmm_top st \<le> bm_cap (bitmap st) \<and> 0 \<in> pmm_used st"

text \<open>The higher-half address of a page, as the allocator returns it.\<close>

definition page_ptr :: "u64 \<Rightarrow> nat \<Rightarrow> u64" where
  "page_ptr cr4 k = phys_to_higher_half_data cr4 (of_nat k * PAGE_SIZE)"

lemma pmm_avail_finite [simp]: "finite (pmm_avail st)"
  by (simp add: pmm_avail_def)

lemma unat_page_addr:
  assumes "k < 2 ^ 31"
  shows "unat (of_nat k * PAGE_SIZE) = k * 4096"
  using assms by (simp add: PAGE_SIZE_def unat_mult_u64 unat_of_nat_u64)

lemma page_addr_div: "k < 2 ^ 31 \<Longrightarrow> (of_nat k * PAGE_SIZE) div PAGE_SIZE = of_nat k"
  using unat_page_addr [of k]
  by (intro word_unat_eq_iff [THEN iffD2]) (simp add: PAGE_SIZE_def unat_div unat_of_nat_u64)

text \<open>The page index of a call, converted to \<open>int\<close>, is its value modulo \<open>2 ^ 32\<close>.\<close>

lemma to_int32_index:
  assumes "unat index mod 2 ^ 32 = k" and "k + i < 2 ^ 31"
  shows "to_int32 (index + of_nat i) = int (k + i)"
proof -
  have "unat (index + of_nat i) mod 2 ^ 32 = (unat index + i) mod 2 ^ 32"
    by (simp add: unat_word_ariths unat_of_nat mod_mod_cancel mod_add_right_eq)
  also have "\<dots> = (k + i) mod 2 ^ 32"
    using assms(1) by (metis mod_add_left_eq)
  also have "\<dots> = unat (of_nat (k + i) :: u64) mod 2 ^ 32"
    using assms(2) by (subst unat_of_nat_u64) simp_all
  finally have "to_int32 (index + of_nat i) = to_int32 (of_nat (k + i))"
    by (rule to_int32_cong)
  also have "\<dots> = int (k + i)"
    using assms(2) by (rule to_int32_of_nat)
  finally show ?thesis .
qed

section \<open>Finding a page\<close>

text \<open>
  Repeating the scan changes nothing: the request for \<open>n\<close> pages is answered like the
  request for one.
\<close>

lemma repeat_scan_Suc: "repeat_scan bm n (Suc c) = repeat_scan bm n 1"
proof (induction c)
  case (Suc c)
  have "repeat_scan bm n (Suc (Suc c)) =
      (case scan (\<lambda>i. bitmap_check_bit bm (to_int32 (of_nat i))) 0 n of
         None \<Rightarrow> None | Some (Some i) \<Rightarrow> Some (Some i) | Some None \<Rightarrow> repeat_scan bm n (Suc c))"
    by (rule repeat_scan.simps(2))
  with Suc show ?case by (simp split: option.splits)
qed simp

lemma repeat_scan_pos:
  assumes "0 < c"
  shows "repeat_scan bm n c = scan (\<lambda>i. bitmap_check_bit bm (to_int32 (of_nat i))) 0 n"
proof -
  obtain c' where "c = Suc c'"
    using assms gr0_conv_Suc by blast
  then show ?thesis
    by (simp only: repeat_scan_Suc) (simp split: option.splits)
qed

lemma pmm_find_scan:
  assumes "pmm_wf st" and "n \<noteq> 0"
  shows "pmm_find_first_free_page st n =
    (case scan (\<lambda>i. bitmap_check_bit (bitmap st) (int i)) 0 (pmm_top st) of
       None \<Rightarrow> None | Some None \<Rightarrow> Some NULL | Some (Some i) \<Rightarrow> Some (BIT_TO_PAGE (of_nat i)))"
proof -
  have "0 < unat n"
    using assms(2) by (simp add: unat_gt_0)
  moreover have "scan (\<lambda>i. bitmap_check_bit (bitmap st) (to_int32 (of_nat i))) 0 (pmm_top st) =
      scan (\<lambda>i. bitmap_check_bit (bitmap st) (int i)) 0 (pmm_top st)"
    by (rule scan_cong) (use assms(1) in \<open>simp add: pmm_wf_def to_int32_of_nat\<close>)
  ultimately show ?thesis
    using assms(2)
    by (simp add: pmm_find_first_free_page_def repeat_scan_pos flip: pmm_top_def)
qed

lemma pmm_find_first:
  assumes "pmm_wf st" "n \<noteq> 0" "pmm_avail st \<noteq> {}"
  shows "pmm_find_first_free_page st n = Some (of_nat (Min (pmm_avail st)) * PAGE_SIZE)"
proof -
  let ?k = "Min (pmm_avail st)"
  have k: "?k \<in> pmm_avail st"
    using assms(3) by simp
  have "{..<?k} \<subseteq> bm_bits (bitmap st)"
  proof
    fix j
    assume j: "j \<in> {..<?k}"
    then have "j \<notin> pmm_avail st"
      using Min_le [OF pmm_avail_finite, of j st] by (auto simp: not_le [symmetric])
    with j k show "j \<in> bm_bits (bitmap st)"
      by (auto simp: pmm_avail_def pmm_used_def)
  qed
  then have "scan (\<lambda>i. bitmap_check_bit (bitmap st) (int i)) 0 (pmm_top st) = Some (Some ?k)"
    using k assms(1) by (intro bmt.scan_first_clear) (auto simp: pmm_avail_def pmm_used_def pmm_wf_def)
  with assms show ?thesis
    by (simp add: pmm_find_scan BIT_TO_PAGE_def PAGE_SIZE_def)
qed

lemma pmm_find_none:
  assumes "pmm_wf st" "n \<noteq> 0" "pmm_avail st = {}"
  shows "pmm_find_first_free_page st n = Some NULL"
proof -
  have "scan (\<lambda>i. bitmap_check_bit (bitmap st) (int i)) 0 (pmm_top st) = Some None"
    using assms by (intro bmt.scan_all_set) (auto simp: pmm_avail_def pmm_used_def pmm_wf_def)
  with assms show ?thesis
    by (simp add: pmm_find_scan)
qed

lemma pmm_avail_bounds:
  assumes "pmm_wf st" "k \<in> pmm_avail st"
  shows "0 < k" "k < pmm_top st" "k < bm_cap (bitmap st)" "k < 2 ^ 31"
  using assms by (auto simp: pmm_wf_def pmm_avail_def intro: ccontr)

section \<open>Allocating and freeing ranges\<close>

lemma set_index_range:
  assumes "unat index mod 2 ^ 32 = k" "k + n \<le> bm_cap bm" "bm_cap bm \<le> 2 ^ 31"
  shows "\<exists>bm'. for_range (\<lambda>i bm. bitmap_set_bit bm (to_int32 (index + of_nat i))) 0 n bm = Some bm' \<and>
    bm_bits bm' = bm_bits bm \<union> {k..<k + n} \<and> bm_cap bm' = bm_cap bm"
proof -
  have "for_range (\<lambda>i bm. bitmap_set_bit bm (to_int32 (index + of_nat i))) 0 n bm =
      for_range (\<lambda>i bm. bitmap_set_bit bm (int (k + i))) 0 n bm"
    by (rule for_range_cong) (use assms in \<open>simp add: to_int32_index [OF assms(1)] del: of_nat_add\<close>)
  also have "\<dots> = for_range (\<lambda>i bm. bitmap_set_bit bm (int i)) k n bm"
    using for_range_shift [of "\<lambda>i bm. bitmap_set_bit bm (int i)" k 0 n bm] by simp
  finally show ?thesis
    using bmt.set_range [OF assms(2)] by simp
qed

lemma unset_index_range:
  assumes "unat index mod 2 ^ 32 = k" "k + n \<le> bm_cap bm" "bm_cap bm \<le> 2 ^ 31"
  shows "\<exists>bm'. for_range (\<lambda>i bm. bitmap_unset_bit bm (to_int32 (index + of_nat i))) 0 n bm = Some bm' \<and>
    bm_bits bm' = bm_bits bm - {k..<k + n} \<and> bm_cap bm' = bm_cap bm"
proof -
  have "for_range (\<lambda>i bm. bitmap_unset_bit bm (to_int32 (index + of_nat i))) 0 n bm =
      for_range (\<lambda>i bm. bitmap_unset_bit bm (int (k + i))) 0 n bm"
    by (rule for_range_cong) (use assms in \<open>simp add: to_int32_index [OF assms(1)] del: of_nat_add\<close>)
  also have "\<dots> = for_range (\<lambda>i bm. bitmap_unset_bit bm (int i)) k n bm"
    using for_range_shift [of "\<lambda>i bm. bitmap_unset_bit bm (int i)" k 0 n bm] by simp
  finally show ?thesis
    using bmt.unset_range [OF assms(2)] by simp
qed

lemma pmm_alloc_first:
  assumes wf: "pmm_wf st" and used: "used_pages (pmm_info st) \<noteq> 0"
    and n: "n \<noteq> 0" and avail: "pmm_avail st \<noteq> {}"
    and fits: "Min (pmm_avail st) + unat n \<le> bm_cap (bitmap st)"
  defines "k \<equiv> Min (pmm_avail st)"
  shows "\<exists>st'. pmm_alloc cr4 st n = Some (st', page_ptr cr4 k) \<and>
    pmm_used st' = pmm_used st \<union> {k..<k + unat n} \<and>
    used_pages (pmm_info st') = used_pages (pmm_info st) + ucast n \<and>
    pmm_top st' = pmm_top st \<and> bm_cap (bitmap st') = bm_cap (bitmap st)"
proof -
  have k: "k \<in> pmm_avail st"
    using avail by (simp add: k_def)
  note kb = pmm_avail_bounds [OF wf k]
  have ptr: "pmm_find_first_free_page st n = Some (of_nat k * PAGE_SIZE)"
    using pmm_find_first [OF wf n avail] by (simp add: k_def)
  have nonnull: "of_nat k * PAGE_SIZE \<noteq> NULL"
    using unat_page_addr [OF kb(4)] kb(1) by (auto simp: unat_eq_zero [symmetric])
  have idx: "unat (of_nat k :: u64) mod 2 ^ 32 = k"
    using kb(4) by (simp add: unat_of_nat_u64)
  obtain bm' where bm': "for_range (\<lambda>i bm. bitmap_set_bit bm (to_int32 (of_nat k + of_nat i))) 0
      (unat n) (bitmap st) = Some bm'"
    "bm_bits bm' = bm_bits (bitmap st) \<union> {k..<k + unat n}" "bm_cap bm' = bm_cap (bitmap st)"
    using set_index_range [OF idx, of "unat n" "bitmap st"] fits wf
    by (auto simp: k_def pmm_wf_def)
  show ?thesis
    using used ptr nonnull bm' kb(4)
    by (simp add: pmm_alloc_def Let_def page_addr_div page_ptr_def pmm_used_def pmm_top_def)
qed

lemma pmm_alloc_exhausted:
  assumes "pmm_wf st" "n \<noteq> 0" "pmm_avail st = {}"
  shows "pmm_alloc cr4 st n = Some (st, NULL)"
  using pmm_find_none [OF assms] by (simp add: pmm_alloc_def)

lemma page_ptr_index:
  assumes "k < 2 ^ 31"
  shows "higher_half_data_to_phys cr4 (page_ptr cr4 k) div PAGE_SIZE = of_nat k"
  using page_addr_div [OF assms] by (simp add: page_ptr_def)

lemma pmm_free_range:
  assumes cap: "bm_cap (bitmap st) \<le> 2 ^ 31"
    and idx: "unat (higher_half_data_to_phys cr4 pointer div PAGE_SIZE) mod 2 ^ 32 = k"
    and fits: "k + unat n \<le> bm_cap (bitmap st)"
  shows "\<exists>st'. pmm_free cr4 st pointer n = Some st' \<and>
    pmm_used st' = pmm_used st - {k..<k + unat n} \<and>
    used_pages (pmm_info st') = used_pages (pmm_info st) - ucast n \<and>
    pmm_top st' = pmm_top st \<and> bm_cap (bitmap st') = bm_cap (bitmap st)"
proof -
  obtain bm' where "for_range (\<lambda>i bm. bitmap_unset_bit bm
        (to_int32 (higher_half_data_to_phys cr4 pointer div PAGE_SIZE + of_nat i))) 0
      (unat n) (bitmap st) = Some bm'"
    "bm_bits bm' = bm_bits (bitmap st) - {k..<k + unat n}" "bm_cap bm' = bm_cap (bitmap st)"
    using unset_index_range [OF idx fits cap] by auto
  then show ?thesis
    by (simp add: pmm_free_def Let_def pmm_used_def pmm_top_def)
qed

section \<open>Initialisation\<close>

text \<open>
  \<open>pmm_init\<close> passes physical base addresses to \<open>pmm_free\<close>, which expects a
  higher-half pointer. The page index comes out shifted by \<open>2 ^ 35\<close> (or \<open>2 ^ 44\<close>)
  and the conversion to \<open>int\<close> drops the shift.
\<close>

lemma physical_base_index:
  assumes "unat base < 2 ^ 44"
  shows "unat (higher_half_data_to_phys cr4 base div PAGE_SIZE) mod 2 ^ 32 = unat base div 4096"
proof -
  define c :: nat where "c = (if is_la57_enabled cr4 then 2 ^ 12 else 2 ^ 3)"
  have "unat (higher_half_data_to_phys cr4 base) = unat base + (c * 2 ^ 32) * 4096"
    using assms by (simp add: higher_half_offset unat_add_u64 c_def)
  then have "unat (higher_half_data_to_phys cr4 base div PAGE_SIZE) =
      (unat base + (c * 2 ^ 32) * 4096) div 4096"
    by (simp add: PAGE_SIZE_def unat_div)
  also have "\<dots> = c * 2 ^ 32 + unat base div 4096"
    by (rule div_mult_self1) simp
  finally show ?thesis
    using assms by simp
qed

definition usable :: "stivale2_mmap_entry \<Rightarrow> bool" where
  "usable e \<longleftrightarrow> me_type e = STIVALE2_MMAP_USABLE"

definition entry_pages :: "stivale2_mmap_entry \<Rightarrow> nat set" where
  "entry_pages e = {unat (me_base e) div 4096 ..< unat (me_base e) div 4096 + unat (me_length e) div 4096}"

definition usable_pages :: "stivale2_mmap_entry list \<Rightarrow> nat set" where
  "usable_pages es = (\<Union>e \<in> {e \<in> set es. usable e}. entry_pages e)"

lemma usable_pages_Cons:
  "usable_pages (e # es) = (if usable e then entry_pages e else {}) \<union> usable_pages es"
  by (auto simp: usable_pages_def)

lemma free_usable_pages:
  assumes "bm_cap (bitmap st) \<le> 2 ^ 31"
    and "\<And>e. \<lbrakk>e \<in> set es; usable e\<rbrakk> \<Longrightarrow>
      unat (me_base e) < 2 ^ 44 \<and>
      unat (me_base e) div 4096 + unat (me_length e) div 4096 \<le> bm_cap (bitmap st)"
  shows "\<exists>st'. free_usable cr4 es st = Some st' \<and> pmm_used st' = pmm_used st - usable_pages es \<and>
    pmm_top st' = pmm_top st \<and> bm_cap (bitmap st') = bm_cap (bitmap st)"
  using assms
proof (induction es arbitrary: st)
  case Nil
  then show ?case by (simp add: usable_pages_def)
next
  case (Cons e es)
  show ?case
  proof (cases "usable e")
    case False
    with Cons show ?thesis by (auto simp: usable_pages_Cons usable_def)
  next
    case True
    with Cons.prems(2) [of e]
    have e: "unat (me_base e) < 2 ^ 44"
      "unat (me_base e) div 4096 + unat (me_length e div PAGE_SIZE) \<le> bm_cap (bitmap st)"
      by (auto simp: PAGE_SIZE_def unat_div)
    obtain st1 where st1: "pmm_free cr4 st (me_base e) (me_length e div PAGE_SIZE) = Some st1"
      "pmm_used st1 = pmm_used st - entry_pages e" "pmm_top st1 = pmm_top st"
      "bm_cap (bitmap st1) = bm_cap (bitmap st)"
      using pmm_free_range [OF Cons.prems(1) physical_base_index [OF e(1), of cr4] e(2)]
      by (auto simp: entry_pages_def PAGE_SIZE_def unat_div)
    obtain st' where "free_usable cr4 es st1 = Some st'"
      "pmm_used st' = pmm_used st1 - usable_pages es"
      "pmm_top st' = pmm_top st1" "bm_cap (bitmap st') = bm_cap (bitmap st1)"
      using Cons.IH [of st1] Cons.prems st1(4) by auto
    with True st1 show ?thesis
      by (auto simp: usable_pages_Cons usable_def)
  qed
qed

text \<open>\<open>highest_page\<close> is at least the end of every usable entry.\<close>

lemma find_highest_mono: "highest \<le> find_highest es highest"
proof (induction es arbitrary: highest)
  case (Cons e es)
  have "highest \<le> find_highest es (me_base e + me_length e)" if "highest < me_base e + me_length e"
    using that Cons.IH [of "me_base e + me_length e"] by simp
  with Cons.IH [of highest] show ?case by (simp add: Let_def)
qed simp

lemma find_highest_upper:
  "e \<in> set es \<Longrightarrow> counts_for_top e \<Longrightarrow> me_base e + me_length e \<le> find_highest es highest"
proof (induction es arbitrary: highest)
  case (Cons a es)
  show ?case
  proof (cases "a = e")
    case True
    have "me_base e + me_length e \<le> (if me_base e + me_length e > highest then me_base e + me_length e else highest)"
      by auto
    also have "\<dots> \<le> find_highest (a # es) highest"
      using True Cons.prems(2) by (simp add: Let_def find_highest_mono)
    finally show ?thesis .
  next
    case False
    with Cons show ?thesis by (auto simp: Let_def)
  qed
qed simp

lemma usable_counts: "usable e \<Longrightarrow> counts_for_top e"
  by (simp add: usable_def counts_for_top_def)

text \<open>The host keeps its end; every other entry is as it was.\<close>

lemma host_bitmap_entries:
  assumes "host_bitmap sz es = (es', found)" and "e' \<in> set es'"
  shows "\<exists>e \<in> set es. me_type e = me_type e' \<and>
    (e' = e \<or> sz \<le> me_length e \<and> me_base e' = me_base e + sz \<and> me_length e' = me_length e - sz)"
  using assms
proof (induction es arbitrary: es')
  case Nil
  then show ?case by simp
next
  case (Cons a es)
  show ?case
  proof (cases "me_type a \<noteq> STIVALE2_MMAP_USABLE \<or> me_length a < sz")
    case True
    then obtain es1 where es1: "host_bitmap sz es = (es1, found)" "es' = a # es1"
      using Cons.prems(1) by (auto split: prod.splits)
    then have "e' = a \<or> e' \<in> set es1"
      using Cons.prems(2) by simp
    then show ?thesis
      using Cons.IH [OF es1(1)] by auto
  next
    case False
    then have "es' = a\<lparr>me_base := me_base a + sz, me_length := me_length a - sz\<rparr> # es"
      using Cons.prems(1) by simp
    then have "e' = a\<lparr>me_base := me_base a + sz, me_length := me_length a - sz\<rparr> \<or> e' \<in> set es"
      using Cons.prems(2) by simp
    moreover have "sz \<le> me_length a"
      using False by (simp add: not_less)
    ultimately show ?thesis by auto
  qed
qed

lemma host_bitmap_found:
  "snd (host_bitmap sz es) \<longleftrightarrow> (\<exists>e \<in> set es. usable e \<and> sz \<le> me_length e)"
  by (induction es) (auto simp: usable_def split: prod.splits)

text \<open>
  The memory maps \<open>pmm_init\<close> handles: entries do not wrap, the highest page fits the
  bitmap's \<open>int\<close> bit numbers, the rounding of the bitmap size loses no page, and some
  usable entry can host the bitmap.
\<close>

definition mmap_pages :: "stivale2_mmap_entry list \<Rightarrow> nat" where
  "mmap_pages mmap = unat (find_highest mmap 0) div 4096"

definition mmap_ok :: "stivale2_mmap_entry list \<Rightarrow> bool" where
  "mmap_ok mmap \<longleftrightarrow>
     (\<forall>e \<in> set mmap. usable e \<longrightarrow> unat (me_base e) + unat (me_length e) < 2 ^ 64) \<and>
     8 \<le> mmap_pages mmap \<and> mmap_pages mmap \<le> 2 ^ 31 \<and>
     (mmap_pages mmap mod 8 = 0 \<or> mmap_pages mmap div 8 mod 4096 \<noteq> 0) \<and>
     (\<exists>e \<in> set mmap. usable e \<and> bitmap_byte_size (find_highest mmap 0) \<le> me_length e)"

lemma bitmap_byte_size_pages:
  "unat (bitmap_byte_size h) = (unat h div 4096 div 8 + 4095) div 4096 * 4096"
proof -
  have "unat (ALIGN_DOWN h PAGE_SIZE div PAGE_SIZE div 8) = unat h div 4096 div 8"
    using unat_align_down_page [of h] by (simp add: unat_div PAGE_SIZE_def)
  moreover have "unat h div 4096 div 8 + 4095 < 2 ^ 64"
    using unat_lt_u64 [of h] by simp
  ultimately show ?thesis
    by (simp add: bitmap_byte_size_def unat_align_up_page)
qed

lemma round_up_4096:
  fixes q :: nat
  defines "c \<equiv> (q + 4095) div 4096 * 4096"
  shows "q \<le> c" and "q mod 4096 \<noteq> 0 \<Longrightarrow> q < c"
proof -
  have "q + 4095 < Suc ((q + 4095) div 4096) * 4096"
    using dividend_less_div_times [of 4096 "q + 4095"] by simp
  then show le: "q \<le> c"
    by (simp add: c_def)
  show "q < c" if "q mod 4096 \<noteq> 0"
  proof -
    have "c mod 4096 = 0"
      by (simp add: c_def)
    with that have "q \<noteq> c" by auto
    with le show ?thesis by simp
  qed
qed

lemma mmap_ok_size:
  assumes "mmap_ok mmap"
  defines "cap \<equiv> 8 * unat (bitmap_byte_size (find_highest mmap 0))"
  shows "mmap_pages mmap \<le> cap" "cap \<le> 2 ^ 31" "0 < cap"
proof -
  let ?P = "mmap_pages mmap"
  have cap: "cap = 8 * ((?P div 8 + 4095) div 4096 * 4096)"
    by (simp add: cap_def bitmap_byte_size_pages mmap_pages_def)
  have P: "8 \<le> ?P" "?P \<le> 2 ^ 31" "?P mod 8 = 0 \<or> ?P div 8 mod 4096 \<noteq> 0"
    using assms(1) by (auto simp: mmap_ok_def)
  have le: "?P div 8 \<le> (?P div 8 + 4095) div 4096 * 4096"
    by (rule round_up_4096)
  from P(3) show "?P \<le> cap"
  proof
    assume "?P mod 8 = 0"
    then have "?P = 8 * (?P div 8)"
      by (simp add: mod_0_imp_dvd)
    with le show ?thesis unfolding cap by linarith
  next
    assume "?P div 8 mod 4096 \<noteq> 0"
    then have "?P div 8 < (?P div 8 + 4095) div 4096 * 4096"
      by (rule round_up_4096)
    moreover have "?P < 8 * Suc (?P div 8)"
      using dividend_less_div_times [of 8 ?P] by simp
    ultimately show ?thesis unfolding cap by linarith
  qed
  show "cap \<le> 2 ^ 31"
    using P(2) unfolding cap by simp
  show "0 < cap"
    using P(1) le unfolding cap by linarith
qed

lemma host_entry_bound:
  assumes ok: "mmap_ok mmap" and host: "host_bitmap sz mmap = (mmap', found)"
    and e': "e' \<in> set mmap'" "usable e'"
  shows "unat (me_base e') < 2 ^ 44 \<and>
    unat (me_base e') div 4096 + unat (me_length e') div 4096 \<le> mmap_pages mmap"
proof -
  obtain e where e: "e \<in> set mmap" "me_type e = me_type e'"
    "e' = e \<or> sz \<le> me_length e \<and> me_base e' = me_base e + sz \<and> me_length e' = me_length e - sz"
    using host_bitmap_entries [OF host e'(1)] by blast
  have ue: "usable e"
    using e(2) e'(2) by (simp add: usable_def)
  have nowrap: "unat (me_base e) + unat (me_length e) < 2 ^ 64"
    using ok ue e(1) by (auto simp: mmap_ok_def)
  have same_end: "unat (me_base e') + unat (me_length e') = unat (me_base e) + unat (me_length e)"
    using e(3)
  proof
    assume *: "sz \<le> me_length e \<and> me_base e' = me_base e + sz \<and> me_length e' = me_length e - sz"
    then have "unat sz \<le> unat (me_length e)"
      by (simp add: word_le_nat_alt)
    with * nowrap show ?thesis by (simp add: unat_sub unat_add_u64)
  qed simp
  have "me_base e + me_length e \<le> find_highest mmap 0"
    using find_highest_upper e(1) usable_counts [OF ue] by blast
  then have "unat (me_base e) + unat (me_length e) \<le> unat (find_highest mmap 0)"
    using nowrap by (simp add: word_le_nat_alt unat_add_u64)
  then have le: "(unat (me_base e') + unat (me_length e')) div 4096 \<le> mmap_pages mmap"
    unfolding mmap_pages_def same_end by (rule div_le_mono)
  moreover have "unat (me_base e') div 4096 + unat (me_length e') div 4096 \<le>
      (unat (me_base e') + unat (me_length e')) div 4096"
    by (subst div_add1_eq [of "unat (me_base e')"]) simp
  moreover have "unat (me_base e') div 4096 \<le> 2 ^ 31"
    using le ok div_le_mono [of "unat (me_base e')" "unat (me_base e') + unat (me_length e')" 4096]
    by (simp add: mmap_ok_def)
  ultimately show ?thesis by simp
qed

text \<open>
  The whole initialisation: exactly the pages of the usable entries, less the host of the
  bitmap and page 0, end up free.
\<close>

definition pmm_init_map :: "stivale2_mmap_entry list \<Rightarrow> stivale2_mmap_entry list" where
  "pmm_init_map mmap = fst (host_bitmap (bitmap_byte_size (find_highest mmap 0)) mmap)"

lemma pmm_init_result:
  assumes ok: "mmap_ok mmap" and top0: "highest_page st = 0"
  obtains st' where "pmm_init cr4 st mmap = Some st'" "pmm_wf st'"
    "pmm_top st' = mmap_pages mmap"
    "pmm_used st' = insert 0 ({..<bm_cap (bitmap st')} - usable_pages (pmm_init_map mmap))"
proof -
  let ?h = "find_highest mmap 0"
  let ?sz = "bitmap_byte_size ?h"
  let ?mm = "pmm_init_map mmap"
  let ?pages = "ucast (KB_TO_PAGES ?h) :: u32"
  define st1 where "st1 = \<lparr>pmm_info = \<lparr>memory_size = ?h, max_pages = ?pages,
      used_pages = ?pages, memory_map = ?mm\<rparr>,
    bitmap = \<lparr>bm_map = replicate (unat ?sz) 0xFF, bm_size = ?sz\<rparr>, highest_page = ?h\<rparr>"
  note size = mmap_ok_size [OF ok]
  have found: "host_bitmap ?sz mmap = (?mm, True)"
    using ok host_bitmap_found [of ?sz mmap] by (auto simp: pmm_init_map_def mmap_ok_def prod_eq_iff)
  have st1: "bm_cap (bitmap st1) = 8 * unat ?sz" "pmm_used st1 = {..<8 * unat ?sz}"
    "pmm_top st1 = mmap_pages mmap"
    by (simp_all add: st1_def bm_cap_def pmm_used_def bits_all_set pmm_top_def mmap_pages_def
        PAGE_TO_BIT_def unat_div)
  obtain st2 where st2: "free_usable cr4 ?mm st1 = Some st2"
    "pmm_used st2 = pmm_used st1 - usable_pages ?mm" "pmm_top st2 = pmm_top st1"
    "bm_cap (bitmap st2) = bm_cap (bitmap st1)"
    using free_usable_pages [of st1 ?mm cr4] host_entry_bound [OF ok found] size st1(1)
    by fastforce
  have "0 < bm_cap (bitmap st2)"
    using size(3) st1(1) st2(4) by simp
  then obtain bm where bm: "bitmap_set_bit (bitmap st2) (int 0) = Some bm"
    "bm_bits bm = insert 0 (pmm_used st2)" "bm_cap bm = bm_cap (bitmap st2)"
    unfolding pmm_used_def by (rule bitmap_set_bit_bits)
  let ?st' = "st2\<lparr>bitmap := bm\<rparr>"
  show thesis
  proof
    show "pmm_init cr4 st mmap = Some ?st'"
      using found st2(1) bm(1) top0 by (simp add: pmm_init_def Let_def st1_def)
    show top: "pmm_top ?st' = mmap_pages mmap"
      using st2(3) st1(3) by (simp add: pmm_top_def)
    show "pmm_used ?st' = insert 0 ({..<bm_cap (bitmap ?st')} - usable_pages ?mm)"
      using bm st2 st1 by (simp add: pmm_used_def)
    then show "pmm_wf ?st'"
      using bm st2 st1 size top by (simp add: pmm_wf_def)
  qed
qed

section \<open>The allocator as a page source\<close>

text \<open>
  \<open>used_pages\<close> is a 32-bit counter that the allocator also reads as "no memory left" when
  it is 0; it must stay positive and not wrap while pages are handed out.
\<close>

definition pmm_ok :: "pmm_state \<Rightarrow> bool" where
  "pmm_ok st \<longleftrightarrow> pmm_wf st \<and> 0 < unat (used_pages (pmm_info st)) \<and>
     unat (used_pages (pmm_info st)) + card (pmm_avail st) < 2 ^ 32"

lemma page_ptr_inj: "j < 2 ^ 31 \<Longrightarrow> k < 2 ^ 31 \<Longrightarrow> page_ptr cr4 j = page_ptr cr4 k \<Longrightarrow> j = k"
  using higher_half_inj unat_page_addr unfolding page_ptr_def by (metis mult_cancel2 zero_neq_numeral)

lemma unat_page_ptr:
  assumes "k < 2 ^ 31"
  shows "unat (page_ptr cr4 k) =
    (if is_la57_enabled cr4 then 0xFF00000000000000 else 0xFFFF800000000000) + k * 4096"
  using assms unat_page_addr [OF assms]
  by (simp add: page_ptr_def phys_to_higher_half_data_def unat_add_u64 HIGHER_HALF_DATA_LV4_def
      HIGHER_HALF_DATA_LV5_def)

lemma page_ptr_nonnull: "k < 2 ^ 31 \<Longrightarrow> page_ptr cr4 k \<noteq> NULL"
  using unat_page_ptr [of k cr4] by (auto split: if_splits)

text \<open>Pages do not wrap around the end of the address space.\<close>

lemma unat_page_ptr_offset:
  assumes "k < 2 ^ 31" and "t \<le> 4096"
  shows "unat (page_ptr cr4 k + of_nat t) = unat (page_ptr cr4 k) + t"
proof -
  have "unat (of_nat t :: u64) = t"
    using assms(2) by (intro unat_of_nat_u64) simp
  then show ?thesis
    using assms by (simp add: unat_add_u64 unat_page_ptr)
qed

lemma page_ptr_offset_nonnull:
  assumes "k < 2 ^ 31" and "t \<le> 4096"
  shows "page_ptr cr4 k + of_nat t \<noteq> NULL"
proof
  assume "page_ptr cr4 k + of_nat t = NULL"
  then have "unat (page_ptr cr4 k) = 0"
    using unat_page_ptr_offset [OF assms, of cr4] by simp
  then show False
    using page_ptr_nonnull [OF assms(1), of cr4] by (simp only: unat_eq_zero)
qed

lemma pmm_alloc_one:
  assumes ok: "pmm_ok st" and avail: "pmm_avail st \<noteq> {}"
  defines "k \<equiv> Min (pmm_avail st)"
  shows "\<exists>st'. pmm_alloc cr4 st 1 = Some (st', page_ptr cr4 k) \<and> k \<in> pmm_avail st \<and>
    pmm_used st' = insert k (pmm_used st) \<and> pmm_avail st' = pmm_avail st - {k} \<and>
    used_pages (pmm_info st') = used_pages (pmm_info st) + 1 \<and>
    pmm_top st' = pmm_top st \<and> bm_cap (bitmap st') = bm_cap (bitmap st) \<and> pmm_ok st'"
proof -
  have wf: "pmm_wf st" and used: "used_pages (pmm_info st) \<noteq> 0"
    using ok by (auto simp: pmm_ok_def)
  have k: "k \<in> pmm_avail st"
    using avail by (simp add: k_def)
  note kb = pmm_avail_bounds [OF wf k]
  have fits: "Min (pmm_avail st) + unat (1 :: u64) \<le> bm_cap (bitmap st)"
    using kb(3) by (simp add: k_def)
  obtain st' where st': "pmm_alloc cr4 st 1 = Some (st', page_ptr cr4 k)"
    "pmm_used st' = insert k (pmm_used st)"
    "used_pages (pmm_info st') = used_pages (pmm_info st) + 1"
    "pmm_top st' = pmm_top st" "bm_cap (bitmap st') = bm_cap (bitmap st)"
    using pmm_alloc_first [OF wf used _ avail fits, of cr4] by (auto simp: k_def)
  have avail': "pmm_avail st' = pmm_avail st - {k}"
    using st' by (auto simp: pmm_avail_def)
  have "0 < card (pmm_avail st)"
    using k by (auto simp: card_gt_0_iff)
  moreover from this have "unat (used_pages (pmm_info st')) = unat (used_pages (pmm_info st)) + 1"
    using ok st'(3) by (simp add: pmm_ok_def unat_word_ariths)
  moreover have "card (pmm_avail st') = card (pmm_avail st) - 1"
    using avail' k by simp
  ultimately have "pmm_ok st'"
    using ok st' by (auto simp: pmm_ok_def pmm_wf_def)
  with st' avail' k show ?thesis by blast
qed

interpretation pmm_src: address_source "\<lambda>st. pmm_alloc cr4 st 1" pmm_ok pmm_avail "page_ptr cr4"
  for cr4 :: u64
proof unfold_locales
  fix s k
  show "finite (pmm_avail s)" by simp
  assume ok: "pmm_ok s"
  then have wf: "pmm_wf s" by (simp add: pmm_ok_def)
  show "pmm_avail s \<noteq> {} \<Longrightarrow> \<exists>s' k. pmm_alloc cr4 s 1 = Some (s', page_ptr cr4 k) \<and>
      k \<in> pmm_avail s \<and> pmm_avail s' = pmm_avail s - {k} \<and> pmm_ok s'"
    using pmm_alloc_one [OF ok] by blast
  show "pmm_avail s = {} \<Longrightarrow>
      \<exists>s'. pmm_alloc cr4 s 1 = Some (s', NULL) \<and> pmm_avail s' = {} \<and> pmm_ok s'"
    using wf ok by (simp add: pmm_alloc_exhausted)
  show "k \<in> pmm_avail s \<Longrightarrow> page_ptr cr4 k \<noteq> NULL"
    using wf pmm_avail_bounds page_ptr_nonnull by blast
  show "inj_on (page_ptr cr4) (pmm_avail s)"
    using wf pmm_avail_bounds(4) page_ptr_inj by (blast intro: inj_onI)
qed

section \<open>Properties\<close>

lemma usable_pages_below:
  assumes "mmap_ok mmap"
  shows "usable_pages (pmm_init_map mmap) \<subseteq> {..<mmap_pages mmap}"
proof
  fix p
  assume "p \<in> usable_pages (pmm_init_map mmap)"
  then obtain e' where e': "e' \<in> set (pmm_init_map mmap)" "usable e'" "p \<in> entry_pages e'"
    by (auto simp: usable_pages_def)
  obtain found where "host_bitmap (bitmap_byte_size (find_highest mmap 0)) mmap = (pmm_init_map mmap, found)"
    by (metis pmm_init_map_def prod.collapse)
  from host_entry_bound [OF assms this e'(1,2)] e'(3) show "p \<in> {..<mmap_pages mmap}"
    by (auto simp: entry_pages_def)
qed

lemma pmm_init_avail:
  assumes "mmap_ok mmap" and "highest_page st = 0"
  obtains st' where "pmm_init cr4 st mmap = Some st'" "pmm_wf st'"
    "pmm_avail st' = usable_pages (pmm_init_map mmap) - {0}"
proof -
  obtain st' where st': "pmm_init cr4 st mmap = Some st'" "pmm_wf st'"
    "pmm_top st' = mmap_pages mmap"
    "pmm_used st' = insert 0 ({..<bm_cap (bitmap st')} - usable_pages (pmm_init_map mmap))"
    using pmm_init_result [OF assms] by blast
  have "pmm_avail st' = usable_pages (pmm_init_map mmap) - {0}"
    using st' usable_pages_below [OF assms(1)] by (auto simp: pmm_avail_def pmm_wf_def)
  with st'(1,2) show thesis by (rule that)
qed


text \<open>A memory map of 128 MiB: low memory, a hole, and the rest.\<close>

definition sample_mmap :: "stivale2_mmap_entry list" where
  "sample_mmap =
     [\<lparr>me_base = 0x1000, me_length = 0x9E000, me_type = STIVALE2_MMAP_USABLE\<rparr>,
      \<lparr>me_base = 0x9F000, me_length = 0x61000, me_type = STIVALE2_MMAP_RESERVED\<rparr>,
      \<lparr>me_base = 0x100000, me_length = 0x7F00000, me_type = STIVALE2_MMAP_USABLE\<rparr>]"

definition pmm_zero :: pmm_state where
  "pmm_zero = \<lparr>pmm_info = \<lparr>memory_size = 0, max_pages = 0, used_pages = 0, memory_map = []\<rparr>,
     bitmap = \<lparr>bm_map = [], bm_size = 0\<rparr>, highest_page = 0\<rparr>"

lemma sample_highest: "find_highest sample_mmap 0 = 0x8000000"
  by (simp add: sample_mmap_def counts_for_top_def mmap_types)

lemma sample_size: "bitmap_byte_size 0x8000000 = 4096"
  by (simp add: bitmap_byte_size_def ALIGN_UP_def ALIGN_DOWN_def PAGE_SIZE_def)

lemma sample_mmap_ok: "mmap_ok sample_mmap"
  unfolding mmap_ok_def mmap_pages_def sample_highest sample_size
  by (simp add: sample_mmap_def usable_def mmap_types)

lemma sample_init_map: "pmm_init_map sample_mmap =
  [\<lparr>me_base = 0x2000, me_length = 0x9D000, me_type = STIVALE2_MMAP_USABLE\<rparr>,
   \<lparr>me_base = 0x9F000, me_length = 0x61000, me_type = STIVALE2_MMAP_RESERVED\<rparr>,
   \<lparr>me_base = 0x100000, me_length = 0x7F00000, me_type = STIVALE2_MMAP_USABLE\<rparr>]"
  unfolding pmm_init_map_def sample_highest sample_size by (simp add: sample_mmap_def)

lemma sample_init_pages: "usable_pages (pmm_init_map sample_mmap) - {0} = {2..<0x9F} \<union> {0x100..<0x8000}"
  unfolding sample_init_map
  by (simp add: usable_pages_Cons usable_def entry_pages_def mmap_types)
    (simp add: usable_pages_def)


lemma host_bitmap_split:
  assumes "snd (host_bitmap sz es)"
  obtains pre e post where "es = pre @ e # post" "usable e" "sz \<le> me_length e"
    "fst (host_bitmap sz es) =
       pre @ e\<lparr>me_base := me_base e + sz, me_length := me_length e - sz\<rparr> # post"
  using assms
proof (induction es arbitrary: thesis)
  case Nil
  then show ?case by simp
next
  case (Cons a es)
  show ?case
  proof (cases "me_type a \<noteq> STIVALE2_MMAP_USABLE \<or> me_length a < sz")
    case True
    with Cons.prems(2) have "snd (host_bitmap sz es)"
      by (auto split: prod.splits)
    then obtain pre e post where *: "es = pre @ e # post" "usable e" "sz \<le> me_length e"
      "fst (host_bitmap sz es) =
         pre @ e\<lparr>me_base := me_base e + sz, me_length := me_length e - sz\<rparr> # post"
      using Cons.IH by blast
    show ?thesis
      by (rule Cons.prems(1) [of "a # pre" e post]) (use True * in \<open>auto split: prod.splits\<close>)
  next
    case False
    show ?thesis
      by (rule Cons.prems(1) [of "[]" a es]) (use False in \<open>auto simp: usable_def not_less\<close>)
  qed
qed

text \<open>The entries of a memory map do not overlap, and usable ones start at a page boundary.\<close>

definition mmap_disjoint :: "stivale2_mmap_entry list \<Rightarrow> bool" where
  "mmap_disjoint mmap \<longleftrightarrow>
     sorted_wrt (\<lambda>a b. usable a \<and> usable b \<longrightarrow> entry_pages a \<inter> entry_pages b = {}) mmap"

text \<open>The pages that hold the bitmap are never free after \<open>pmm_init\<close>: there is a usable
  entry whose first pages store it, and none of them is available.
\<close>

theorem pmm_init_protects_bitmap:
  assumes ok: "mmap_ok mmap" and disj: "mmap_disjoint mmap" and top0: "highest_page st = 0"
  defines "sz \<equiv> bitmap_byte_size (find_highest mmap 0)"
  shows "\<exists>st' e. pmm_init cr4 st mmap = Some st' \<and> e \<in> set mmap \<and> usable e \<and> sz \<le> me_length e \<and>
    pmm_avail st' \<inter>
      {unat (me_base e) div 4096 ..< unat (me_base e) div 4096 + unat sz div 4096} = {}"
proof -
  obtain st' where st': "pmm_init cr4 st mmap = Some st'"
    "pmm_avail st' = usable_pages (pmm_init_map mmap) - {0}"
    by (rule pmm_init_avail [OF ok top0])
  have "snd (host_bitmap sz mmap)"
    using ok by (simp add: host_bitmap_found mmap_ok_def sz_def)
  then obtain pre e post where e: "mmap = pre @ e # post" "usable e" "sz \<le> me_length e"
    "pmm_init_map mmap =
       pre @ e\<lparr>me_base := me_base e + sz, me_length := me_length e - sz\<rparr> # post"
    unfolding pmm_init_map_def sz_def by (rule host_bitmap_split)
  let ?b = "unat (me_base e)"
  have szle: "unat sz \<le> unat (me_length e)"
    using e(3) by (simp add: word_le_nat_alt)
  have nowrap: "?b + unat (me_length e) < 2 ^ 64"
    using ok e(1,2) by (auto simp: mmap_ok_def)
  obtain q where q: "unat sz = q * 4096"
    unfolding sz_def bitmap_byte_size_pages by blast
  have "unat (me_base e + sz) = ?b + unat sz"
    by (rule unat_add_u64) (use szle nowrap in linarith)
  then have new_base: "unat (me_base e + sz) div 4096 = ?b div 4096 + unat sz div 4096"
    using q by simp
  let ?host = "{?b div 4096 ..< ?b div 4096 + unat sz div 4096}"
  have host: "?host \<subseteq> entry_pages e"
    using div_le_mono [OF szle, of 4096] by (auto simp: entry_pages_def)
  have "entry_pages a \<inter> entry_pages e = {}" if "a \<in> set pre \<union> set post" "usable a" for a
    using disj that e(1,2) by (auto simp: mmap_disjoint_def sorted_wrt_append)
  then have "usable_pages (pmm_init_map mmap) \<inter> ?host = {}"
    using host new_base unfolding e(4) by (fastforce simp: usable_pages_def entry_pages_def)
  with st' e show ?thesis by auto
qed

theorem pmm_init_protects_bitmap_witness:
  "\<exists>st' e. pmm_init 0 pmm_zero sample_mmap = Some st' \<and> e \<in> set sample_mmap \<and> usable e \<and>
    4096 \<le> me_length e \<and>
    pmm_avail st' \<inter> {unat (me_base e) div 4096 ..< unat (me_base e) div 4096 + 1} = {}"
proof -
  have "mmap_disjoint sample_mmap"
    by (simp add: mmap_disjoint_def sample_mmap_def usable_def entry_pages_def mmap_types)
  from pmm_init_protects_bitmap [OF sample_mmap_ok this, of pmm_zero 0] show ?thesis
    by (simp add: sample_highest sample_size pmm_zero_def)
qed

text \<open>
  C3: a request for one page, with a page left, returns the higher-half pointer of a page
  that was free, marks exactly that page used, and leaves every other page as it was.
\<close>

theorem pmm_alloc_fresh_page:
  assumes "pmm_ok st" and "pmm_avail st \<noteq> {}"
  shows "\<exists>st' k. pmm_alloc cr4 st 1 = Some (st', page_ptr cr4 k) \<and> page_ptr cr4 k \<noteq> NULL \<and>
    k \<in> pmm_avail st \<and> pmm_used st' = insert k (pmm_used st) \<and>
    pmm_avail st' = pmm_avail st - {k} \<and> pmm_ok st'"
proof -
  obtain st' k where "pmm_alloc cr4 st 1 = Some (st', page_ptr cr4 k)" "k \<in> pmm_avail st"
    "pmm_used st' = insert k (pmm_used st)" "pmm_avail st' = pmm_avail st - {k}" "pmm_ok st'"
    using pmm_alloc_one [OF assms] by blast
  moreover from this have "page_ptr cr4 k \<noteq> NULL"
    using pmm_src.addr_nonnull [OF assms(1)] by blast
  ultimately show ?thesis by blast
qed

text \<open>Sixteen pages, of which 0, 1 and 4 are used.\<close>

definition pmm_small :: pmm_state where
  "pmm_small = \<lparr>pmm_info = \<lparr>memory_size = 0x10000, max_pages = 16, used_pages = 3, memory_map = []\<rparr>,
     bitmap = \<lparr>bm_map = [0x13, 0x00], bm_size = 2\<rparr>, highest_page = 0x10000\<rparr>"

lemma less_16_cases: "i < 16 \<Longrightarrow> P 0 \<Longrightarrow> P 1 \<Longrightarrow> P 2 \<Longrightarrow> P 3 \<Longrightarrow> P 4 \<Longrightarrow> P 5 \<Longrightarrow> P 6 \<Longrightarrow> P 7 \<Longrightarrow>
  P 8 \<Longrightarrow> P 9 \<Longrightarrow> P 10 \<Longrightarrow> P 11 \<Longrightarrow> P 12 \<Longrightarrow> P 13 \<Longrightarrow> P 14 \<Longrightarrow> P 15 \<Longrightarrow> P (i :: nat)"
  by (simp add: numeral_eq_Suc less_Suc_eq) auto

lemma pmm_small_used: "pmm_used pmm_small = {0, 1, 4}"
proof -
  have "i \<in> pmm_used pmm_small \<longleftrightarrow> i \<in> {0, 1, 4}" if "i < 16" for i
    by (rule less_16_cases [OF that]) (simp_all add: pmm_used_def pmm_small_def bm_bits_def bm_cap_def)
  moreover have "i < 16" if "i \<in> pmm_used pmm_small" for i
    using that by (simp add: pmm_used_def pmm_small_def bm_bits_def bm_cap_def)
  ultimately show ?thesis by auto
qed

lemma pmm_small_top: "pmm_top pmm_small = 16"
  by (simp add: pmm_top_def pmm_small_def PAGE_TO_BIT_def)

lemma pmm_small_avail: "pmm_avail pmm_small = {..<16} - {0, 1, 4}"
  by (simp only: pmm_avail_def pmm_small_used pmm_small_top)

lemma pmm_small_ok: "pmm_ok pmm_small"
proof -
  have "card (pmm_avail pmm_small) \<le> card {..<16 :: nat}"
    unfolding pmm_small_avail by (rule card_mono) auto
  then have "card (pmm_avail pmm_small) \<le> 16" by simp
  then show ?thesis
    by (simp add: pmm_ok_def pmm_wf_def pmm_small_used pmm_small_top)
      (simp add: pmm_small_def bm_cap_def)
qed

lemma pmm_small_nonempty: "pmm_avail pmm_small \<noteq> {}"
proof -
  have "2 \<in> pmm_avail pmm_small"
    by (simp add: pmm_small_avail)
  then show ?thesis by auto
qed

lemma card_pmm_small: "card (pmm_avail pmm_small) = 13"
proof -
  have "{..<16} - {0, 1, 4 :: nat} = {2, 3} \<union> {5..<16}" by auto
  then show ?thesis by (simp add: pmm_small_avail card_Un_disjoint)
qed

theorem pmm_alloc_fresh_page_witness:
  "\<exists>st' k. pmm_alloc 0 pmm_small 1 = Some (st', page_ptr 0 k) \<and> k \<notin> {0, 1, 4} \<and> pmm_ok st'"
proof -
  from pmm_alloc_fresh_page [OF pmm_small_ok pmm_small_nonempty, of 0] show ?thesis
    by (auto simp: pmm_small_avail)
qed

text \<open>Freeing the page that was just allocated gives back the same used pages, the same
  available pages and the same \<open>used_pages\<close> counter.
\<close>

theorem pmm_alloc_free_round_trip:
  assumes "pmm_ok st" and "pmm_avail st \<noteq> {}"
    and alloc: "pmm_alloc cr4 st 1 = Some (st1, p)"
  shows "\<exists>st2. pmm_free cr4 st1 p 1 = Some st2 \<and> pmm_used st2 = pmm_used st \<and>
    pmm_avail st2 = pmm_avail st \<and> used_pages (pmm_info st2) = used_pages (pmm_info st)"
proof -
  let ?k = "Min (pmm_avail st)"
  have st1: "p = page_ptr cr4 ?k" "?k \<in> pmm_avail st" "pmm_used st1 = insert ?k (pmm_used st)"
    "used_pages (pmm_info st1) = used_pages (pmm_info st) + 1" "pmm_top st1 = pmm_top st"
    "bm_cap (bitmap st1) = bm_cap (bitmap st)" "pmm_ok st1"
    using pmm_alloc_one [OF assms(1,2), of cr4] alloc by auto
  have wf: "pmm_wf st"
    using assms(1) by (simp add: pmm_ok_def)
  note kb = pmm_avail_bounds [OF wf st1(2)]
  have "unat (higher_half_data_to_phys cr4 p div PAGE_SIZE) mod 2 ^ 32 = ?k"
    unfolding st1(1) page_ptr_index [OF kb(4)] using kb(4) by (simp add: unat_of_nat_u64)
  then obtain st2 where st2: "pmm_free cr4 st1 p 1 = Some st2"
    "pmm_used st2 = pmm_used st1 - {?k}"
    "used_pages (pmm_info st2) = used_pages (pmm_info st1) - 1" "pmm_top st2 = pmm_top st1"
    using pmm_free_range [of st1 cr4 p ?k 1] kb(3) st1(6) wf by (auto simp: pmm_wf_def)
  have "pmm_used st2 = pmm_used st"
    using st1(2,3) st2(2) by (auto simp: pmm_avail_def)
  with st1 st2 show ?thesis
    by (simp add: pmm_avail_def)
qed

text \<open>A closed run of the two operations, evaluated.\<close>

lemma pmm_small_Min: "Min (pmm_avail pmm_small) = 2"
proof (rule Min_eqI)
  fix y
  assume "y \<in> pmm_avail pmm_small"
  then have "y \<noteq> 0" "y \<noteq> 1"
    by (auto simp: pmm_small_avail)
  then show "2 \<le> y" by linarith
qed (simp_all add: pmm_small_avail)

lemma pmm_small_alloc: "\<exists>st1. pmm_alloc 0 pmm_small 1 = Some (st1, page_ptr 0 2)"
  using pmm_alloc_one [OF pmm_small_ok pmm_small_nonempty, of 0] by (auto simp: pmm_small_Min)

theorem pmm_alloc_free_round_trip_witness:
  "\<exists>st1 st2. pmm_alloc 0 pmm_small 1 = Some (st1, page_ptr 0 2) \<and>
    pmm_free 0 st1 (page_ptr 0 2) 1 = Some st2 \<and> pmm_used st2 = {0, 1, 4}"
proof -
  obtain st1 where st1: "pmm_alloc 0 pmm_small 1 = Some (st1, page_ptr 0 2)"
    using pmm_small_alloc by blast
  from pmm_alloc_free_round_trip [OF pmm_small_ok pmm_small_nonempty this] st1 pmm_small_used
  show ?thesis by auto
qed

text \<open>
  C5: any number of single-page requests, up to the number of available pages, succeeds and
  hands out pairwise distinct non-null pointers to pages that were free.
\<close>

theorem pmm_alloc_seq_distinct:
  assumes "pmm_ok st" and "n \<le> card (pmm_avail st)"
  shows "\<exists>st' ps. alloc_seq (\<lambda>st. pmm_alloc cr4 st 1) n st = Some (st', ps) \<and> length ps = n \<and>
    distinct ps \<and> NULL \<notin> set ps \<and> set ps \<subseteq> page_ptr cr4 ` pmm_avail st \<and>
    card (pmm_avail st') = card (pmm_avail st) - n"
  using pmm_src.alloc_seq_distinct [OF assms] by metis

theorem pmm_alloc_seq_distinct_witness:
  "\<exists>st' ps. alloc_seq (\<lambda>st. pmm_alloc 0 st 1) 3 pmm_small = Some (st', ps) \<and> length ps = 3 \<and>
    distinct ps \<and> NULL \<notin> set ps"
proof -
  have "{2, 3, 5} \<subseteq> pmm_avail pmm_small"
    by (simp add: pmm_small_avail)
  then have "card {2, 3, 5 :: nat} \<le> card (pmm_avail pmm_small)"
    by (intro card_mono) simp_all
  then have "3 \<le> card (pmm_avail pmm_small)" by simp
  from pmm_alloc_seq_distinct [OF pmm_small_ok this, of 0] show ?thesis by blast
qed

text \<open>A request for several pages is not a request for a run of free pages. Whatever the
  count, the search returns the first free page; when the page after it is in use, a
  two-page request returns a region that contains that used page.
\<close>

theorem pmm_alloc_overlaps_used_page:
  assumes ok: "pmm_ok st" and avail: "pmm_avail st \<noteq> {}"
    and used: "Suc (Min (pmm_avail st)) \<in> pmm_used st"
  shows "\<exists>st' k. pmm_alloc cr4 st 2 = Some (st', page_ptr cr4 k) \<and> k \<in> pmm_avail st \<and>
    Suc k \<in> pmm_used st \<and> pmm_used st' = insert k (pmm_used st)"
proof -
  let ?k = "Min (pmm_avail st)"
  have wf: "pmm_wf st"
    using ok by (simp add: pmm_ok_def)
  have fits: "?k + unat (2 :: u64) \<le> bm_cap (bitmap st)"
    using used by (auto simp: pmm_used_def bm_bits_def)
  have "used_pages (pmm_info st) \<noteq> 0"
    using ok by (auto simp: pmm_ok_def)
  from pmm_alloc_first [OF wf this _ avail fits, of cr4] obtain st' where
    st': "pmm_alloc cr4 st 2 = Some (st', page_ptr cr4 ?k)"
    "pmm_used st' = pmm_used st \<union> {?k..<?k + 2}"
    by auto
  moreover have "{?k..<?k + 2} = {?k, Suc ?k}" by auto
  moreover have "?k \<in> pmm_avail st"
    using avail by simp
  ultimately show ?thesis
    using used by (intro exI [of _ st'] exI [of _ ?k]) auto
qed

text \<open>Eight pages; page 2 is free, page 3 is not.\<close>

definition pmm_holes :: pmm_state where
  "pmm_holes = \<lparr>pmm_info = \<lparr>memory_size = 0x8000, max_pages = 8, used_pages = 4, memory_map = []\<rparr>,
     bitmap = \<lparr>bm_map = [0x0B], bm_size = 1\<rparr>, highest_page = 0x8000\<rparr>"

lemma pmm_holes_used: "pmm_used pmm_holes = {0, 1, 3}"
proof -
  have "i \<in> pmm_used pmm_holes \<longleftrightarrow> i \<in> {0, 1, 3}" if "i < 16" for i
    by (rule less_16_cases [OF that]) (simp_all add: pmm_used_def pmm_holes_def bm_bits_def bm_cap_def)
  moreover have "i < 16" if "i \<in> pmm_used pmm_holes" for i
    using that by (simp add: pmm_used_def pmm_holes_def bm_bits_def bm_cap_def)
  ultimately show ?thesis by auto
qed

theorem pmm_alloc_overlaps_used_page_witness:
  "\<exists>st'. pmm_alloc 0 pmm_holes 2 = Some (st', page_ptr 0 2) \<and> 3 \<in> pmm_used pmm_holes \<and>
    pmm_used st' = {0, 1, 2, 3}"
proof -
  have top: "pmm_top pmm_holes = 8"
    by (simp add: pmm_top_def pmm_holes_def PAGE_TO_BIT_def)
  have avail: "pmm_avail pmm_holes = {2, 4, 5, 6, 7}"
    unfolding pmm_avail_def pmm_holes_used top by auto
  have ok: "pmm_ok pmm_holes"
    by (simp add: pmm_ok_def pmm_wf_def avail pmm_holes_used top) (simp add: pmm_holes_def bm_cap_def)
  from pmm_alloc_overlaps_used_page [OF ok, of 0] show ?thesis
    by (auto simp: avail pmm_holes_used insert_commute)
qed

end
