(* ===== verification/Kmath.thy ===== *)
theory Kmath
  imports Prelude
begin

text \<open>
  \<open>libs/libk/math/math.c\<close>: integer powers by repeated squaring, in \<open>int32_t\<close>
  arithmetic. Every signed multiplication is checked: an overflow, or the division by zero
  of a negative power of 0, is undefined and \<open>None\<close>.
\<close>

text \<open>Signed division truncates towards zero.\<close>

definition c_div :: "int \<Rightarrow> int \<Rightarrow> int option" where
  "c_div a b = (if b = 0 then None else chk32 (sgn a * sgn b * (\<bar>a\<bar> div \<bar>b\<bar>)))"

function pow_loop :: "int \<Rightarrow> int \<Rightarrow> int \<Rightarrow> (int \<times> int) option" where
  "pow_loop base exponent temp =
     (if exponent > 1 then
        (if exponent mod 2 = 0 then do {
           base' \<leftarrow> chk32 (base * base);
           pow_loop base' (exponent div 2) temp
         }
         else do {
           temp' \<leftarrow> chk32 (base * temp);
           base' \<leftarrow> chk32 (base * base);
           pow_loop base' ((exponent - 1) div 2) temp'
         })
      else Some (base, temp))"
  by pat_completeness auto
termination
  by (relation "measure (\<lambda>(_, e, _). nat e)") auto

declare pow_loop.simps [simp del]

definition pow_int :: "int \<Rightarrow> int \<Rightarrow> u32 option" where
  "pow_int base exponent =
     (if exponent = 0 then Some 1
      else do {
        (base', exponent') \<leftarrow>
          (if exponent < 0 then do {
             b \<leftarrow> c_div 1 base;
             e \<leftarrow> chk32 (- exponent);
             Some (b, e)
           }
           else Some (base, exponent));
        (b, temp) \<leftarrow> pow_loop base' exponent' 1;
        r \<leftarrow> chk32 (b * temp);
        Some (word_of_int r)
      })"

text \<open>
  The loop keeps \<open>base ^ exponent * temp\<close>, and no intermediate product is larger than
  the result in absolute value, so a result in range means no overflow on the way.
\<close>

lemma abs_mult_bound:
  fixes x y :: int
  assumes "y \<noteq> 0"
  shows "\<bar>x\<bar> \<le> \<bar>x * y\<bar>"
proof -
  have "\<bar>x\<bar> * 1 \<le> \<bar>x\<bar> * \<bar>y\<bar>"
    using assms by (intro mult_left_mono) auto
  then show ?thesis by (simp add: abs_mult)
qed

lemma abs_le_in_int32: "\<bar>x\<bar> \<le> \<bar>y\<bar> \<Longrightarrow> \<bar>y\<bar> < 2 ^ 31 \<Longrightarrow> in_int32 x"
  by (auto simp: in_int32_def)

lemma pow_split_even: "base ^ (2 * n) * temp = (base * base) ^ n * (temp :: int)"
  by (simp add: power_mult power2_eq_square)

lemma pow_split_odd: "base ^ Suc (2 * n) * temp = (base * base) ^ n * (base * temp :: int)"
  by (simp add: power_mult power2_eq_square mult.assoc mult.left_commute)

lemma square_fits:
  fixes base temp :: int
  assumes "2 \<le> n" and "\<bar>base ^ n * temp\<bar> < 2 ^ 31" and "base = 0 \<or> temp \<noteq> 0"
  shows "in_int32 (base * base)"
proof (cases "base = 0")
  case True
  then show ?thesis by (simp add: in_int32_def)
next
  case False
  obtain k where "n = Suc (Suc k)"
    using assms(1) by (metis Suc_le_D numeral_2_eq_2 Suc_le_mono)
  then have "base ^ n * temp = base * base * (base ^ k * temp)"
    by (simp add: mult.assoc)
  moreover have "base ^ k * temp \<noteq> 0"
    using False assms(3) by simp
  ultimately have "\<bar>base * base\<bar> \<le> \<bar>base ^ n * temp\<bar>"
    using abs_mult_bound by metis
  then show ?thesis
    using assms(2) by (rule abs_le_in_int32)
qed

lemma product_fits:
  fixes base temp :: int
  assumes "\<bar>(base * base) ^ m * (base * temp)\<bar> < 2 ^ 31" and "base = 0 \<or> temp \<noteq> 0"
  shows "in_int32 (base * temp)"
proof (cases "base = 0")
  case True
  then show ?thesis by (simp add: in_int32_def)
next
  case False
  then have "\<bar>base * temp\<bar> \<le> \<bar>base * temp * (base * base) ^ m\<bar>"
    by (intro abs_mult_bound) simp
  also have "\<dots> = \<bar>(base * base) ^ m * (base * temp)\<bar>"
    by (simp only: mult.commute)
  finally show ?thesis
    using assms(1) by (rule abs_le_in_int32)
qed

lemma pow_loop_result:
  assumes "0 < n" and "\<bar>base ^ n * temp\<bar> < 2 ^ 31" and "base = 0 \<or> temp \<noteq> 0"
  shows "\<exists>b t. pow_loop base (int n) temp = Some (b, t) \<and> b * t = base ^ n * temp"
  using assms
proof (induction n arbitrary: base temp rule: less_induct)
  case (less n)
  define m where "m = n div 2"
  have "n = 1 \<or> 0 < m \<and> m < n \<and> n = 2 * m \<or> 0 < m \<and> m < n \<and> n = Suc (2 * m)"
    using less.prems(1) unfolding m_def by presburger
  then consider "n = 1" | "0 < m" "m < n" "n = 2 * m" | "0 < m" "m < n" "n = Suc (2 * m)"
    by blast
  then show ?case
  proof cases
    case 1
    then show ?thesis by (simp add: pow_loop.simps)
  next
    case 2
    have eq: "base ^ n * temp = (base * base) ^ m * temp"
      unfolding 2(3) by (rule pow_split_even)
    have sq: "in_int32 (base * base)"
      using 2 less.prems by (intro square_fits [of n]) auto
    obtain b t where "pow_loop (base * base) (int m) temp = Some (b, t)" "b * t = base ^ n * temp"
      using less.IH [OF 2(2,1), of "base * base" temp] less.prems(2,3) eq by auto
    moreover have "int n mod 2 = 0" "int n div 2 = int m" "1 < int n"
      using 2 by auto
    ultimately show ?thesis
      using sq by (simp add: pow_loop.simps [of base "int n"])
  next
    case 3
    have eq: "base ^ n * temp = (base * base) ^ m * (base * temp)"
      unfolding 3(3) by (rule pow_split_odd)
    have sq: "in_int32 (base * base)"
      using 3 less.prems by (intro square_fits [of n]) auto
    have bt: "in_int32 (base * temp)"
      using less.prems(2,3) unfolding eq by (rule product_fits)
    obtain b t where "pow_loop (base * base) (int m) (base * temp) = Some (b, t)"
      "b * t = base ^ n * temp"
      using less.IH [OF 3(2,1), of "base * base" "base * temp"] less.prems(2,3) eq by auto
    moreover have "int n mod 2 = 1" "(int n - 1) div 2 = int m" "1 < int n"
      using 3 by auto
    ultimately show ?thesis
      using sq bt by (simp add: pow_loop.simps [of base "int n"])
  qed
qed

lemma pow_int_nat:
  assumes "\<bar>base ^ n\<bar> < 2 ^ 31"
  shows "pow_int base (int n) = Some (word_of_int (base ^ n))"
proof (cases "n = 0")
  case True
  then show ?thesis by (simp add: pow_int_def)
next
  case False
  then obtain b t where "pow_loop base (int n) 1 = Some (b, t)" "b * t = base ^ n"
    using pow_loop_result [of n base 1] assms by auto
  moreover have "in_int32 (base ^ n)"
    using assms by (auto simp: in_int32_def)
  ultimately show ?thesis
    using False by (simp add: pow_int_def)
qed

section \<open>Properties\<close>

text \<open>
  For every base and every exponent that is not negative, if the power fits an
  \<open>int32_t\<close> then \<open>pow\<close> returns exactly it, and no multiplication of the
  square-and-multiply loop overflows on the way.
\<close>

theorem pow_correct:
  assumes "0 \<le> exponent" and "\<bar>base ^ nat exponent\<bar> < 2 ^ 31"
  shows "pow_int base exponent = Some (word_of_int (base ^ nat exponent))"
  using pow_int_nat [OF assms(2)] assms(1) by simp

theorem pow_correct_witness: "pow_int (- 3) 13 = Some (word_of_int (- 1594323))"
  using pow_correct [of 13 "- 3"] by simp

text \<open>
  the comment on \<open>pow\<close> says that a negative exponent always gives 0. It does for a
  base of absolute value at least 2, but base 1 gives 1.
\<close>

lemma pow_int_negative:
  assumes "- (2 ^ 31) < exponent" and "exponent < 0" and "c_div 1 base = Some b"
    and "\<bar>b\<bar> \<le> 1"
  shows "pow_int base exponent = Some (word_of_int (b ^ nat (- exponent)))"
proof -
  let ?n = "nat (- exponent)"
  have pow1: "\<bar>b ^ ?n\<bar> \<le> 1"
    using assms(4) by (simp add: power_abs power_le_one)
  obtain c t where "pow_loop b (int ?n) 1 = Some (c, t)" "c * t = b ^ ?n"
    using pow_loop_result [of ?n b 1] assms(2) pow1 by auto
  moreover have "in_int32 (b ^ ?n)" "in_int32 (- exponent)"
    using pow1 assms(1,2) by (auto simp: in_int32_def)
  ultimately show ?thesis
    using assms(2,3) by (simp add: pow_int_def)
qed

theorem pow_negative_exponent:
  assumes "- (2 ^ 31) < exponent" and "exponent < 0" and "2 \<le> \<bar>base\<bar>"
  shows "pow_int base exponent = Some 0 \<and> pow_int 1 exponent = Some 1"
proof -
  have "c_div 1 base = Some 0" "c_div 1 1 = Some 1"
    using assms(3) by (auto simp: c_div_def in_int32_def)
  then show ?thesis
    using pow_int_negative [OF assms(1,2)] assms(2) by (simp add: zero_power)
qed

theorem pow_negative_exponent_witness: "pow_int 2 (- 3) = Some 0 \<and> pow_int 1 (- 3) = Some 1"
  by (rule pow_negative_exponent) simp_all

end
