(* ===== verification/Slab.thy ===== *)
theory Slab
  imports Pmm Kmath
begin

text \<open>
  \<open>kernel/memory/slab.c\<close>: eleven slabs with objects of 2, 4, \<dots>, 2048 bytes. A slot of a
  slab's object array holds the address of a free object, or the null pointer for one that
  is in use. The slabs and the bookkeeping globals are one record; initialisation also runs
  the page allocator.
\<close>

section \<open>Data\<close>

record addr_range_t =
  ar_start :: u64
  ar_end :: u64

record slab_t =
  address_range :: addr_range_t
  slab_size :: u64
  is_full :: bool
  objects :: "u64 list"

record slab_state =
  slabs :: "slab_t list"
  internal_mem_ptr :: u64
  internal_mem_len :: u64
  page_alloc_count :: u32

definition SLAB_COUNT :: nat where
  "SLAB_COUNT = 11"

definition MAX_SLAB_SIZE :: u32 where
  "MAX_SLAB_SIZE = 2048"

definition MAX_OBJECTS_PER_SLAB :: nat where
  "MAX_OBJECTS_PER_SLAB = 1024"

text \<open>The globals before \<open>slab_init\<close>.\<close>

definition slab_zero :: slab_t where
  "slab_zero = \<lparr>address_range = \<lparr>ar_start = 0, ar_end = 0\<rparr>, slab_size = 0, is_full = False,
     objects = replicate MAX_OBJECTS_PER_SLAB NULL\<rparr>"

definition slab_state_zero :: slab_state where
  "slab_state_zero = \<lparr>slabs = replicate SLAB_COUNT slab_zero, internal_mem_ptr = NULL,
     internal_mem_len = 0, page_alloc_count = 0\<rparr>"

section \<open>Initialisation\<close>

text \<open>\<open>MAX_SLAB_SIZE / pow(2, slab_index + 1)\<close>\<close>

definition objects_per_slab :: "nat \<Rightarrow> nat option" where
  "objects_per_slab slab_index = do {
     p \<leftarrow> pow_int 2 (int slab_index + 1);
     if p = 0 then None else Some (unat (MAX_SLAB_SIZE div p))
   }"

definition upd_slab :: "nat \<Rightarrow> (slab_t \<Rightarrow> slab_t) \<Rightarrow> slab_state \<Rightarrow> slab_state" where
  "upd_slab i f ss = ss\<lparr>slabs := (slabs ss)[i := f (slabs ss ! i)]\<rparr>"

text \<open>The page refill at the head of the object loop.\<close>

definition slab_refill :: "u64 \<Rightarrow> pmm_state \<times> slab_state \<Rightarrow> (pmm_state \<times> slab_state) option" where
  "slab_refill cr4 s = (let (pm, ss) = s in
     if internal_mem_ptr ss = NULL \<or> internal_mem_ptr ss = internal_mem_len ss then do {
       (pm', p) \<leftarrow> pmm_alloc cr4 pm 1;
       Some (pm', ss\<lparr>internal_mem_ptr := p, internal_mem_len := p + PAGE_SIZE,
                     page_alloc_count := page_alloc_count ss + 1\<rparr>)
     }
     else Some (pm, ss))"

definition slab_init_object ::
    "u64 \<Rightarrow> nat \<Rightarrow> nat \<Rightarrow> pmm_state \<times> slab_state \<Rightarrow> (pmm_state \<times> slab_state) option" where
  "slab_init_object cr4 i j s = do {
     (pm, ss) \<leftarrow> slab_refill cr4 s;
     let sz = slab_size (slabs ss ! i);
     let ss' = upd_slab i (\<lambda>s. s\<lparr>objects := (objects s)[j := internal_mem_ptr ss]\<rparr>) ss;
     Some (pm, ss'\<lparr>internal_mem_ptr := internal_mem_ptr ss + sz\<rparr>)
   }"

definition slab_init_slab ::
    "u64 \<Rightarrow> nat \<Rightarrow> pmm_state \<times> slab_state \<Rightarrow> (pmm_state \<times> slab_state) option" where
  "slab_init_slab cr4 i s = (let (pm, ss) = s in do {
     p \<leftarrow> pow_int 2 (int i + 1);
     let ss1 = upd_slab i (\<lambda>s. s\<lparr>slab_size := ucast p, is_full := False\<rparr>) ss;
     n \<leftarrow> objects_per_slab i;
     (pm', ss2) \<leftarrow> for_range (slab_init_object cr4 i) 0 n (pm, ss1);
     Some (pm', upd_slab i (\<lambda>s. s\<lparr>address_range :=
       \<lparr>ar_start = objects s ! 0, ar_end = objects s ! 0 + 1024 - slab_size s\<rparr>\<rparr>) ss2)
   })"

definition slab_init :: "u64 \<Rightarrow> pmm_state \<times> slab_state \<Rightarrow> (pmm_state \<times> slab_state) option" where
  "slab_init cr4 s = for_range (slab_init_slab cr4) 0 SLAB_COUNT s"

section \<open>Allocating and freeing\<close>

definition find_object :: "(u64 \<Rightarrow> bool) \<Rightarrow> u64 list \<Rightarrow> nat \<Rightarrow> int" where
  "find_object P objs n = (case find (\<lambda>j. P (objs ! j)) [0..<n] of None \<Rightarrow> - 1 | Some j \<Rightarrow> int j)"

definition find_free_object :: "slab_state \<Rightarrow> nat \<Rightarrow> int option" where
  "find_free_object ss slab_index = do {
     n \<leftarrow> objects_per_slab slab_index;
     Some (find_object (\<lambda>p. p \<noteq> NULL) (objects (slabs ss ! slab_index)) n)
   }"

definition find_allocated_object :: "slab_state \<Rightarrow> nat \<Rightarrow> int option" where
  "find_allocated_object ss slab_index = do {
     n \<leftarrow> objects_per_slab slab_index;
     Some (find_object (\<lambda>p. p = NULL) (objects (slabs ss ! slab_index)) n)
   }"

primrec slab_alloc_loop :: "slab_state \<Rightarrow> u64 \<Rightarrow> nat \<Rightarrow> nat \<Rightarrow> (slab_state \<times> u64) option" where
  "slab_alloc_loop ss sz i 0 = Some (ss, NULL)"
| "slab_alloc_loop ss sz i (Suc n) =
     (if slab_size (slabs ss ! i) \<noteq> sz then slab_alloc_loop ss sz (Suc i) n
      else if is_full (slabs ss ! i) then Some (ss, NULL)
      else do {
        free_object_index \<leftarrow> find_free_object ss i;
        if free_object_index = - 1
        then Some (upd_slab i (\<lambda>s. s\<lparr>is_full := True\<rparr>) ss, NULL)
        else (let k = nat free_object_index in
          Some (upd_slab i (\<lambda>s. s\<lparr>objects := (objects s)[k := NULL]\<rparr>) ss,
                objects (slabs ss ! i) ! k))
      })"

definition slab_alloc :: "slab_state \<Rightarrow> u64 \<Rightarrow> (slab_state \<times> u64) option" where
  "slab_alloc ss sz = slab_alloc_loop ss sz 0 SLAB_COUNT"

primrec slab_free_loop :: "slab_state \<Rightarrow> u64 \<Rightarrow> nat \<Rightarrow> nat \<Rightarrow> slab_state option" where
  "slab_free_loop ss ptr i 0 = Some ss"
| "slab_free_loop ss ptr i (Suc n) =
     (let s = slabs ss ! i;
          ptr_without_base = ptr - ar_start (address_range s) + slab_size s in
      if ar_start (address_range s) \<le> ptr \<and> ptr \<le> ar_end (address_range s) then
        if slab_size s = 0 then None
        else if ptr_without_base mod slab_size s = 0 then do {
          allocated_object_index \<leftarrow> find_allocated_object ss i;
          if allocated_object_index = - 1 then Some ss
          else slab_free_loop
            (upd_slab i (\<lambda>s. s\<lparr>objects := (objects s)[nat allocated_object_index := ptr]\<rparr>) ss)
            ptr (Suc i) n
        }
        else slab_free_loop ss ptr (Suc i) n
      else slab_free_loop ss ptr (Suc i) n)"

definition slab_free :: "slab_state \<Rightarrow> u64 \<Rightarrow> slab_state option" where
  "slab_free ss ptr = (if ptr = NULL then Some ss else slab_free_loop ss ptr 0 SLAB_COUNT)"

section \<open>Lemmas on the parts\<close>

lemma less_11_cases: "(i :: nat) < 11 \<longleftrightarrow>
    i = 0 \<or> i = 1 \<or> i = 2 \<or> i = 3 \<or> i = 4 \<or> i = 5 \<or> i = 6 \<or> i = 7 \<or> i = 8 \<or> i = 9 \<or> i = 10"
  by presburger

lemma pow2_slab: "i < 11 \<Longrightarrow> pow_int 2 (int i + 1) = Some (2 ^ Suc i)"
proof -
  assume "i < 11"
  then have "(2 :: int) ^ Suc i \<le> 2 ^ 11"
    by (intro power_increasing) auto
  then have "pow_int 2 (int (Suc i)) = Some (word_of_int (2 ^ Suc i))"
    by (intro pow_int_nat) simp
  then show ?thesis by (simp add: add.commute)
qed

lemma ucast_pow2_slab: "i < 11 \<Longrightarrow> (ucast (2 * 2 ^ i :: u32) :: u64) = 2 * 2 ^ i"
  by (auto simp: less_11_cases)

lemma objects_per_slab_eq: "i < 11 \<Longrightarrow> objects_per_slab i = Some (2 ^ (10 - i))"
  by (simp add: objects_per_slab_def pow2_slab MAX_SLAB_SIZE_def) (auto simp: less_11_cases)

lemma slab_offset_bound:
  assumes "i < 11" "j < (2 :: nat) ^ (10 - i)"
  shows "j * 2 ^ Suc i + 2 ^ Suc i \<le> 2048"
proof -
  have "Suc j * 2 ^ Suc i \<le> 2 ^ (10 - i) * 2 ^ Suc i"
    using assms(2) by (intro mult_le_mono1) simp
  also have "\<dots> = 2 ^ (10 - i + Suc i)"
    by (simp only: power_add)
  also have "\<dots> = 2048"
    using assms(1) by simp
  finally show ?thesis by simp
qed

lemma slab_offset_less:
  assumes "i < 11" "j < (2 :: nat) ^ (10 - i)"
  shows "j * 2 ^ Suc i < 2048"
proof -
  have "j * 2 ^ Suc i < j * 2 ^ Suc i + 2 ^ Suc i"
    by (simp only: less_add_same_cancel1) simp
  then show ?thesis
    using slab_offset_bound [OF assms] by (rule less_le_trans)
qed

section \<open>What initialisation leaves behind\<close>

text \<open>The objects of slab \<open>i\<close> with base address \<open>b\<close>.\<close>

definition slab_objs :: "u64 \<Rightarrow> nat \<Rightarrow> nat \<Rightarrow> u64 list" where
  "slab_objs b i n = map (\<lambda>j. b + of_nat (j * 2 ^ Suc i)) [0..<n]"

definition slab_ready :: "u64 \<Rightarrow> nat \<Rightarrow> slab_t" where
  "slab_ready b i = \<lparr>address_range = \<lparr>ar_start = b, ar_end = b + 1024 - 2 ^ Suc i\<rparr>,
     slab_size = 2 ^ Suc i, is_full = False,
     objects = slab_objs b i (2 ^ (10 - i)) @ replicate (1024 - 2 ^ (10 - i)) NULL\<rparr>"

lemma slab_objs_Suc: "slab_objs b i (Suc n) = slab_objs b i n @ [b + of_nat (n * 2 ^ Suc i)]"
  by (simp add: slab_objs_def)

lemma length_slab_objs [simp]: "length (slab_objs b i n) = n"
  by (simp add: slab_objs_def)

lemma fill_slot:
  "length xs = j \<Longrightarrow> j < length ys \<Longrightarrow> (xs @ drop j ys)[j := y] = (xs @ [y]) @ drop (Suc j) ys"
  by (simp add: list_update_append Cons_nth_drop_Suc [symmetric])

text \<open>A region of 2048 bytes that does not meet the end of the current page.\<close>

definition room :: "u64 \<Rightarrow> u64 \<Rightarrow> bool" where
  "room b L \<longleftrightarrow> (\<forall>t < 2048. b + of_nat t \<noteq> NULL \<and> b + of_nat t \<noteq> L)"

lemma slab_refill_skip:
  "internal_mem_ptr ss \<noteq> NULL \<Longrightarrow> internal_mem_ptr ss \<noteq> internal_mem_len ss \<Longrightarrow>
     slab_refill cr4 (pm, ss) = Some (pm, ss)"
  by (simp add: slab_refill_def)

lemma slab_init_objects:
  assumes i: "i < 11" "length (slabs ss) = 11" and sz: "slab_size (slabs ss ! i) = 2 ^ Suc i"
    and objs: "objects (slabs ss ! i) = replicate 1024 NULL"
    and room: "room b L" and ptr: "internal_mem_ptr ss = b" "internal_mem_len ss = L"
  shows "for_range (slab_init_object cr4 i) 0 (2 ^ (10 - i)) (pm, ss) =
    Some (pm, (upd_slab i (\<lambda>s. s\<lparr>objects := slab_objs b i (2 ^ (10 - i)) @
        replicate (1024 - 2 ^ (10 - i)) NULL\<rparr>) ss)\<lparr>internal_mem_ptr := b + 2048\<rparr>)"
proof -
  define fill where "fill n = (upd_slab i (\<lambda>s. s\<lparr>objects := slab_objs b i n @
      drop n (replicate 1024 NULL)\<rparr>) ss)\<lparr>internal_mem_ptr := b + of_nat (n * 2 ^ Suc i)\<rparr>" for n
  let ?n = "2 ^ (10 - i) :: nat"
  have n: "?n \<le> 1024"
    using power_increasing [of "10 - i" 10 "2 :: nat"] by simp
  have "\<exists>s'. for_range (slab_init_object cr4 i) 0 ?n (pm, ss) = Some s' \<and> s' = (pm, fill (0 + ?n))"
  proof (rule for_range_invar)
    show "(pm, ss) = (pm, fill 0)"
      using ptr objs i by (cases ss) (simp add: fill_def upd_slab_def slab_objs_def flip: objs)
  next
    fix j s
    assume j: "j < 0 + ?n" and s: "s = (pm, fill j)"
    have off: "j * 2 ^ Suc i < 2048"
      by (rule slab_offset_less [OF i(1)]) (use j in simp)
    have "b + of_nat (j * 2 ^ Suc i) \<noteq> NULL \<and> b + of_nat (j * 2 ^ Suc i) \<noteq> L"
      using room off unfolding room_def by blast
    then have "slab_refill cr4 (pm, fill j) = Some (pm, fill j)"
      using ptr(2) by (intro slab_refill_skip) (simp_all add: fill_def upd_slab_def del: of_nat_mult power_Suc)
    moreover have "(slab_objs b i j @ drop j (replicate 1024 NULL))[j := b + of_nat (j * 2 ^ Suc i)] =
        slab_objs b i (Suc j) @ drop (Suc j) (replicate 1024 NULL)"
      unfolding slab_objs_Suc using j n by (intro fill_slot) simp_all
    moreover have "b + of_nat (j * 2 ^ Suc i) + 2 ^ Suc i = (b + of_nat (Suc j * 2 ^ Suc i) :: u64)"
      by (simp add: algebra_simps)
    ultimately show "\<exists>s'. slab_init_object cr4 i j s = Some s' \<and> s' = (pm, fill (Suc j))"
      using s i sz by (simp add: slab_init_object_def fill_def upd_slab_def Let_def)
  qed
  moreover have "?n * 2 ^ Suc i = 2048"
    using i(1) by (auto simp: less_11_cases)
  then have "fill ?n = (upd_slab i (\<lambda>s. s\<lparr>objects := slab_objs b i ?n @
      replicate (1024 - ?n) NULL\<rparr>) ss)\<lparr>internal_mem_ptr := b + 2048\<rparr>"
    by (simp only: fill_def drop_replicate) simp
  ultimately show ?thesis by simp
qed

lemma slab_refill_slabs:
  assumes "slab_refill cr4 (pm, ss) = Some (pm', ss')"
  shows "slab_refill cr4 (pm, ss\<lparr>slabs := x\<rparr>) = Some (pm', ss'\<lparr>slabs := x\<rparr>)"
  using assms by (auto simp: slab_refill_def split: if_splits Option.bind_splits)

lemma for_range_refill:
  assumes "slab_refill cr4 s = Some s'" "slab_refill cr4 s' = Some s'" "0 < n"
  shows "for_range (slab_init_object cr4 i) 0 n s = for_range (slab_init_object cr4 i) 0 n s'"
  using assms by (cases n) (simp_all add: slab_init_object_def)

lemma slab_ready_fields [simp]:
  "slab_size (slab_ready b i) = 2 ^ Suc i" "is_full (slab_ready b i) = False"
  "ar_start (address_range (slab_ready b i)) = b"
  "ar_end (address_range (slab_ready b i)) = b + 1024 - 2 ^ Suc i"
  "objects (slab_ready b i) = slab_objs b i (2 ^ (10 - i)) @ replicate (1024 - 2 ^ (10 - i)) NULL"
  by (simp_all add: slab_ready_def)

text \<open>One slab, whether or not its first object needs a new page.\<close>

lemma slab_init_slab_result:
  assumes i: "i < 11" "length (slabs ss) = 11" "slabs ss ! i = slab_zero"
    and refill: "slab_refill cr4 (pm, ss) = Some (pm', ss')"
    and keep: "slabs ss' = slabs ss"
    and ptr: "internal_mem_ptr ss' = b" "internal_mem_len ss' = L" and room: "room b L"
  shows "slab_init_slab cr4 i (pm, ss) = Some (pm',
    ss'\<lparr>slabs := (slabs ss)[i := slab_ready b i], internal_mem_ptr := b + 2048\<rparr>)"
proof -
  let ?n = "2 ^ (10 - i) :: nat"
  let ?sized = "(slabs ss)[i := slab_zero\<lparr>slab_size := 2 ^ Suc i, is_full := False\<rparr>]"
  have n: "0 < ?n" by simp
  have b: "b \<noteq> NULL" "b \<noteq> L"
    using room [unfolded room_def, rule_format, of 0] by simp_all
  have "for_range (slab_init_object cr4 i) 0 ?n (pm, ss\<lparr>slabs := ?sized\<rparr>) =
      for_range (slab_init_object cr4 i) 0 ?n (pm', ss'\<lparr>slabs := ?sized\<rparr>)"
    by (rule for_range_refill [OF slab_refill_slabs [OF refill] slab_refill_skip n])
      (use ptr b in simp_all)
  also have "\<dots> = Some (pm', (upd_slab i (\<lambda>s. s\<lparr>objects := slab_objs b i ?n @
        replicate (1024 - ?n) NULL\<rparr>) (ss'\<lparr>slabs := ?sized\<rparr>))\<lparr>internal_mem_ptr := b + 2048\<rparr>)"
    using i ptr room by (intro slab_init_objects) (simp_all add: slab_zero_def MAX_OBJECTS_PER_SLAB_def)
  moreover have "objects (slab_ready b i) ! 0 = b"
    using n by (simp add: nth_append slab_objs_def)
  ultimately show ?thesis
    using i by (simp add: slab_init_slab_def pow2_slab objects_per_slab_eq upd_slab_def
        ucast_pow2_slab slab_ready_def slab_zero_def nth_append)
qed

text \<open>
  The state after the slabs below \<open>i\<close> have been set up: slab \<open>m\<close> takes one half of
  page \<open>m div 2\<close> of those handed out.
\<close>

definition slab_base :: "u64 \<Rightarrow> nat list \<Rightarrow> nat \<Rightarrow> u64" where
  "slab_base cr4 ks m = page_ptr cr4 (ks ! (m div 2)) + (if odd m then 2048 else 0)"

definition slab_progress :: "u64 \<Rightarrow> pmm_state \<Rightarrow> nat \<Rightarrow> nat list \<Rightarrow> pmm_state \<times> slab_state \<Rightarrow> bool" where
  "slab_progress cr4 pm0 i ks s \<longleftrightarrow> (let (pm, ss) = s in
     length ks = (i + 1) div 2 \<and> distinct ks \<and> set ks \<subseteq> pmm_avail pm0 \<and> pmm_ok pm \<and>
     pmm_avail pm = pmm_avail pm0 - set ks \<and>
     slabs ss = map (\<lambda>m. slab_ready (slab_base cr4 ks m) m) [0..<i] @ replicate (11 - i) slab_zero \<and>
     (if i = 0 then internal_mem_ptr ss = NULL
      else if even i then internal_mem_ptr ss = internal_mem_len ss
      else internal_mem_ptr ss = page_ptr cr4 (last ks) + 2048 \<and>
           internal_mem_len ss = page_ptr cr4 (last ks) + 4096))"

lemma room_page:
  assumes "k < 2 ^ 31" and "n \<le> 2048"
  shows "room (page_ptr cr4 k + of_nat n) (page_ptr cr4 k + 4096)"
  unfolding room_def
proof (intro allI impI conjI)
  fix t :: nat
  assume t: "t < 2048"
  have sum: "page_ptr cr4 k + of_nat n + of_nat t = page_ptr cr4 k + of_nat (n + t)"
    by simp
  show "page_ptr cr4 k + of_nat n + of_nat t \<noteq> NULL"
    unfolding sum by (rule page_ptr_offset_nonnull) (use assms t in simp_all)
  show "page_ptr cr4 k + of_nat n + of_nat t \<noteq> page_ptr cr4 k + 4096"
  proof
    assume "page_ptr cr4 k + of_nat n + of_nat t = page_ptr cr4 k + 4096"
    then have "unat (page_ptr cr4 k + of_nat (n + t)) = unat (page_ptr cr4 k + of_nat 4096)"
      unfolding sum by simp
    moreover have "unat (page_ptr cr4 k + of_nat (n + t)) = unat (page_ptr cr4 k) + (n + t)"
      by (rule unat_page_ptr_offset) (use assms t in simp_all)
    moreover have "unat (page_ptr cr4 k + of_nat 4096) = unat (page_ptr cr4 k) + 4096"
      by (rule unat_page_ptr_offset) (use assms in simp_all)
    ultimately show False
      using assms t by simp
  qed
qed

lemma slab_base_append:
  "m div 2 < length ks \<Longrightarrow> slab_base cr4 (ks @ [k]) m = slab_base cr4 ks m"
  by (simp add: slab_base_def nth_append)

lemma slab_progress_step:
  assumes inv: "slab_progress cr4 pm0 i ks s" and i: "i < 11"
    and wf: "pmm_wf pm0" and enough: "6 \<le> card (pmm_avail pm0)"
  shows "\<exists>s' ks'. slab_init_slab cr4 i s = Some s' \<and> slab_progress cr4 pm0 (Suc i) ks' s'"
proof -
  obtain pm ss where s: "s = (pm, ss)" by (cases s)
  note I = inv [unfolded slab_progress_def s, simplified Let_def prod.case]
  have len: "length (slabs ss) = 11" and zero: "slabs ss ! i = slab_zero"
    using I i by (simp_all add: nth_append)
  have upd: "(slabs ss)[i := x] =
      map (\<lambda>m. slab_ready (slab_base cr4 ks m) m) [0..<i] @ x # replicate (11 - Suc i) slab_zero" for x
    using I i by (simp add: list_update_append Suc_diff_Suc [symmetric])
  have small: "k < 2 ^ 31" if "k \<in> pmm_avail pm0" for k
    using pmm_avail_bounds(4) [OF wf that] .
  show ?thesis
  proof (cases "even i")
    case True
    then have half: "(i + 1) div 2 = i div 2" "(Suc i + 1) div 2 = Suc (i div 2)" "i div 2 < 6"
      using i by auto
    have "card (set ks) \<le> i div 2"
      using I half card_length [of ks] by simp
    then have "card (pmm_avail pm) \<noteq> 0"
      using I enough half by (simp add: card_Diff_subset)
    then have "pmm_avail pm \<noteq> {}" by auto
    then obtain pm' k where k: "pmm_alloc cr4 pm 1 = Some (pm', page_ptr cr4 k)"
      "k \<in> pmm_avail pm" "pmm_avail pm' = pmm_avail pm - {k}" "pmm_ok pm'"
      using pmm_alloc_one [of pm cr4] I by blast
    let ?p = "page_ptr cr4 k"
    let ?ss = "ss\<lparr>internal_mem_ptr := ?p, internal_mem_len := ?p + PAGE_SIZE,
      page_alloc_count := page_alloc_count ss + 1\<rparr>"
    have "slab_refill cr4 (pm, ss) = Some (pm', ?ss)"
      using I True k(1) by (auto simp: slab_refill_def split: if_splits)
    moreover have "room ?p (?p + 4096)"
      using room_page [of k 0 cr4] small k(2) I by simp
    ultimately have "slab_init_slab cr4 i s = Some (pm', ?ss\<lparr>slabs := (slabs ss)[i := slab_ready ?p i],
        internal_mem_ptr := ?p + 2048\<rparr>)"
      unfolding s by (intro slab_init_slab_result [where L = "?p + 4096"])
        (use i len zero in \<open>simp_all add: PAGE_SIZE_def\<close>)
    moreover have "slab_progress cr4 pm0 (Suc i) (ks @ [k]) (pm',
        ?ss\<lparr>slabs := (slabs ss)[i := slab_ready ?p i], internal_mem_ptr := ?p + 2048\<rparr>)"
      using I k half True upd [of "slab_ready ?p i"]
      by (auto simp: slab_progress_def Let_def PAGE_SIZE_def slab_base_def nth_append)
    ultimately show ?thesis by blast
  next
    case False
    then have half: "(Suc i + 1) div 2 = (i + 1) div 2" "(i + 1) div 2 = Suc (i div 2)"
      by auto
    let ?p = "page_ptr cr4 (last ks)"
    have lenks: "length ks = Suc (i div 2)"
      using I half by simp
    then have "ks \<noteq> []" by auto
    with lenks I have ks: "ks \<noteq> []" "last ks = ks ! (i div 2)" "last ks \<in> pmm_avail pm0"
      using last_in_set [of ks] by (auto simp: last_conv_nth)
    have ptr: "internal_mem_ptr ss = ?p + 2048" "internal_mem_len ss = ?p + 4096"
      using I False by (auto split: if_splits)
    have room: "room (?p + 2048) (?p + 4096)"
      using room_page [of "last ks" 2048 cr4] small [OF ks(3)] by simp
    then have "slab_refill cr4 (pm, ss) = Some (pm, ss)"
      using ptr room [unfolded room_def, rule_format, of 0] by (intro slab_refill_skip) simp_all
    then have "slab_init_slab cr4 i s = Some (pm, ss\<lparr>slabs := (slabs ss)[i := slab_ready (?p + 2048) i],
        internal_mem_ptr := ?p + 2048 + 2048\<rparr>)"
      unfolding s by (rule slab_init_slab_result [OF i len zero _ _ ptr(1) ptr(2) room]) simp
    moreover have "slab_progress cr4 pm0 (Suc i) ks (pm,
        ss\<lparr>slabs := (slabs ss)[i := slab_ready (?p + 2048) i], internal_mem_ptr := ?p + 2048 + 2048\<rparr>)"
      using I half False upd [of "slab_ready (?p + 2048) i"] ks ptr(2)
      by (auto simp: slab_progress_def Let_def slab_base_def)
    ultimately show ?thesis by blast
  qed
qed

text \<open>Initialisation as a whole.\<close>

lemma slab_init_result:
  assumes ok: "pmm_ok pm" and enough: "6 \<le> card (pmm_avail pm)"
  shows "\<exists>pm' ss ks. slab_init cr4 (pm, slab_state_zero) = Some (pm', ss) \<and>
    slabs ss = map (\<lambda>m. slab_ready (slab_base cr4 ks m) m) [0..<11] \<and>
    length ks = 6 \<and> distinct ks \<and> set ks \<subseteq> pmm_avail pm \<and>
    pmm_avail pm' = pmm_avail pm - set ks \<and> pmm_ok pm'"
proof -
  have wf: "pmm_wf pm" using ok by (simp add: pmm_ok_def)
  have start: "\<exists>ks. slab_progress cr4 pm 0 ks (pm, slab_state_zero)"
    using ok by (auto simp: slab_progress_def slab_state_zero_def SLAB_COUNT_def)
  have "\<exists>s'. for_range (slab_init_slab cr4) 0 11 (pm, slab_state_zero) = Some s' \<and>
      (\<exists>ks. slab_progress cr4 pm (0 + 11) ks s')"
  proof (rule for_range_invar [where P = "\<lambda>i s. \<exists>ks. slab_progress cr4 pm i ks s", OF start])
    fix i s
    assume "i < 0 + 11" and "\<exists>ks. slab_progress cr4 pm i ks s"
    then show "\<exists>s'. slab_init_slab cr4 i s = Some s' \<and> (\<exists>ks. slab_progress cr4 pm (Suc i) ks s')"
      using slab_progress_step [OF _ _ wf enough] by fastforce
  qed
  then obtain pm' ss ks where "slab_init cr4 (pm, slab_state_zero) = Some (pm', ss)"
    "slab_progress cr4 pm 11 ks (pm', ss)"
    by (auto simp: slab_init_def SLAB_COUNT_def)
  then show ?thesis
    unfolding slab_progress_def by auto
qed

end
