(* ===== verification/Slab_Pool.thy ===== *)
theory Slab_Pool
  imports Slab "HOL-Library.Multiset"
begin

text \<open>
  What the slabs promise their clients: the invariant of a slab table with given base
  addresses, its free objects, and how \<open>slab_alloc\<close> and \<open>slab_free\<close> change them.
\<close>

section \<open>The invariant\<close>

text \<open>The addresses of the objects of slab \<open>i\<close>, and those of them that are free.\<close>

definition slots :: "(nat \<Rightarrow> u64) \<Rightarrow> nat \<Rightarrow> u64 set" where
  "slots bs i = set (slab_objs (bs i) i (2 ^ (10 - i)))"

definition slab_frees :: "slab_state \<Rightarrow> nat \<Rightarrow> u64 list" where
  "slab_frees ss i = filter (\<lambda>p. p \<noteq> NULL) (take (2 ^ (10 - i)) (objects (slabs ss ! i)))"

text \<open>The slabs lie in pairwise disjoint half pages.\<close>

definition bases_ok :: "(nat \<Rightarrow> u64) \<Rightarrow> bool" where
  "bases_ok bs \<longleftrightarrow> (\<forall>i < 11. 2048 \<le> unat (bs i) \<and> unat (bs i) + 2048 < 2 ^ 64 \<and>
     (\<forall>m < 11. m \<noteq> i \<longrightarrow> unat (bs i) + 2048 \<le> unat (bs m) \<or> unat (bs m) + 2048 \<le> unat (bs i)))"

definition slab_ok :: "(nat \<Rightarrow> u64) \<Rightarrow> slab_state \<Rightarrow> bool" where
  "slab_ok bs ss \<longleftrightarrow> bases_ok bs \<and> length (slabs ss) = 11 \<and>
     (\<forall>i < 11. slab_size (slabs ss ! i) = 2 ^ Suc i \<and>
        ar_start (address_range (slabs ss ! i)) = bs i \<and>
        ar_end (address_range (slabs ss ! i)) = bs i + 1024 - 2 ^ Suc i \<and>
        length (objects (slabs ss ! i)) = 1024 \<and>
        set (slab_frees ss i) \<subseteq> slots bs i \<and> distinct (slab_frees ss i))"

lemma slab_okD:
  assumes "slab_ok bs ss" and "i < 11"
  shows "slab_size (slabs ss ! i) = 2 ^ Suc i"
    and "ar_start (address_range (slabs ss ! i)) = bs i"
    and "ar_end (address_range (slabs ss ! i)) = bs i + 1024 - 2 ^ Suc i"
    and "length (objects (slabs ss ! i)) = 1024" and "length (slabs ss) = 11"
    and "set (slab_frees ss i) \<subseteq> slots bs i" and "distinct (slab_frees ss i)"
  using assms by (simp_all add: slab_ok_def del: power_Suc)

lemma slab_count_le: "(2 :: nat) ^ (10 - i) \<le> 1024"
  using power_increasing [of "10 - i" 10 "2 :: nat"] by simp

section \<open>Object addresses\<close>

text \<open>Object \<open>j\<close> of slab \<open>i\<close>, as a natural number.\<close>

lemma unat_slot:
  assumes "bases_ok bs" "i < 11" "j < 2 ^ (10 - i)"
  shows "unat (bs i + of_nat (j * 2 ^ Suc i)) = unat (bs i) + j * 2 ^ Suc i"
proof -
  have off: "j * 2 ^ Suc i < 2048"
    using slab_offset_less assms by blast
  then have "unat (of_nat (j * 2 ^ Suc i) :: u64) = j * 2 ^ Suc i"
    by (intro unat_of_nat_u64, elim less_trans) simp
  moreover have "unat (bs i) + 2048 < 2 ^ 64"
    using assms by (simp add: bases_ok_def)
  ultimately show ?thesis
    using off by (subst unat_add_u64) linarith+
qed

lemma mem_slots: "p \<in> slots bs i \<longleftrightarrow> (\<exists>j < 2 ^ (10 - i). p = bs i + of_nat (j * 2 ^ Suc i))"
  by (auto simp: slots_def slab_objs_def simp del: of_nat_mult power_Suc)

lemma distinct_slab_objs:
  assumes "bases_ok bs" "i < 11"
  shows "distinct (slab_objs (bs i) i (2 ^ (10 - i)))"
  unfolding slab_objs_def distinct_map
proof (intro conjI inj_onI)
  fix j k
  assume "j \<in> set [0..<2 ^ (10 - i)]" "k \<in> set [0..<2 ^ (10 - i)]"
    and "bs i + of_nat (j * 2 ^ Suc i) = bs i + of_nat (k * 2 ^ Suc i)"
  then have "unat (bs i) + j * 2 ^ Suc i = unat (bs i) + k * 2 ^ Suc i"
    using unat_slot [OF assms, of j] unat_slot [OF assms, of k] by simp
  then show "j = k" by simp
qed simp

lemma slot_range:
  assumes "bases_ok bs" "i < 11" "p \<in> slots bs i"
  shows "unat (bs i) \<le> unat p \<and> unat p < unat (bs i) + 2048"
proof -
  from assms(3) obtain j where j: "j < 2 ^ (10 - i)" "p = bs i + of_nat (j * 2 ^ Suc i)"
    by (auto simp: mem_slots)
  show ?thesis
    using unat_slot [OF assms(1,2) j(1)] slab_offset_less [OF assms(2) j(1)] unfolding j(2) by linarith
qed

lemma slot_nonnull: "bases_ok bs \<Longrightarrow> i < 11 \<Longrightarrow> p \<in> slots bs i \<Longrightarrow> p \<noteq> NULL"
  using slot_range [of bs i p] by (auto simp: bases_ok_def unat_eq_zero)

section \<open>Searching a slab\<close>

lemma find_object_cases:
  assumes "n \<le> length xs"
  obtains (none) "find_object P xs n = - 1" "filter P (take n xs) = []"
  | (found) k where "find_object P xs n = int k" "k < n" "P (xs ! k)" "\<forall>j < k. \<not> P (xs ! j)"
proof (cases "find (\<lambda>j. P (xs ! j)) [0..<n]")
  case None
  then have "\<forall>j < n. \<not> P (xs ! j)"
    by (simp add: find_None_iff)
  then have "filter P (take n xs) = []"
    using assms by (auto simp: filter_empty_conv in_set_conv_nth)
  with None show thesis
    by (intro none) (simp_all add: find_object_def)
next
  case (Some k)
  then obtain m where "m < n" "P (xs ! m)" "k = m" "\<forall>j < m. \<not> P (xs ! j)"
    by (auto simp: find_Some_iff)
  with Some show thesis
    by (intro found [of m]) (simp_all add: find_object_def)
qed

text \<open>Taking the first match out of a list, and putting one into a gap.\<close>

lemma take_split_at:
  "k < n \<Longrightarrow> n \<le> length xs \<Longrightarrow> take n xs = take k xs @ xs ! k # drop (Suc k) (take n xs)"
  using id_take_nth_drop [of k "take n xs"] by (simp add: min_def)

lemma filter_remove_first:
  assumes "n \<le> length xs" "k < n" "P (xs ! k)" "\<forall>j < k. \<not> P (xs ! j)" "\<not> P y"
  shows "filter P (take n xs) = xs ! k # filter P (take n (xs[k := y]))"
proof -
  have "filter P (take k xs) = []"
    using assms by (auto simp: filter_empty_conv in_set_conv_nth)
  moreover have "take n (xs[k := y]) = take k xs @ y # drop (Suc k) (take n xs)"
    using assms take_split_at [of k n "xs[k := y]"] by (simp add: drop_take)
  ultimately show ?thesis
    using assms(3,5) by (subst take_split_at [OF assms(2,1)]) simp
qed

lemma filter_insert_gap:
  assumes "n \<le> length xs" "k < n" "\<not> P (xs ! k)" "P y"
  shows "mset (filter P (take n (xs[k := y]))) = add_mset y (mset (filter P (take n xs)))"
proof -
  have "take n (xs[k := y]) = take k xs @ y # drop (Suc k) (take n xs)"
    using assms take_split_at [of k n "xs[k := y]"] by (simp add: drop_take)
  then show ?thesis
    using assms(3,4) by (subst take_split_at [OF assms(2,1)]) simp
qed

lemma find_free_object_cases:
  assumes "slab_ok bs ss" "i < 11"
  obtains (none) "find_free_object ss i = Some (- 1)" "slab_frees ss i = []"
  | (found) k where "find_free_object ss i = Some (int k)" "k < 2 ^ (10 - i)"
      "objects (slabs ss ! i) ! k \<noteq> NULL"
      "slab_frees ss i = objects (slabs ss ! i) ! k #
         filter (\<lambda>p. p \<noteq> NULL) (take (2 ^ (10 - i)) ((objects (slabs ss ! i))[k := NULL]))"
proof -
  have n: "2 ^ (10 - i) \<le> length (objects (slabs ss ! i))"
    using slab_okD(4) [OF assms] slab_count_le by simp
  then show thesis
  proof (cases rule: find_object_cases [where P = "\<lambda>p. p \<noteq> NULL"])
    case none
    then show thesis
      by (intro that(1)) (simp_all add: find_free_object_def objects_per_slab_eq assms(2) slab_frees_def)
  next
    case (found k)
    then show thesis
      using n by (intro that(2)) (simp_all add: find_free_object_def objects_per_slab_eq assms(2)
          slab_frees_def filter_remove_first)
  qed
qed

lemma find_allocated_object_cases:
  assumes "slab_ok bs ss" "i < 11" "length (slab_frees ss i) < 2 ^ (10 - i)"
  obtains k where "find_allocated_object ss i = Some (int k)" "k < 2 ^ (10 - i)"
    "objects (slabs ss ! i) ! k = NULL"
proof -
  have n: "2 ^ (10 - i) \<le> length (objects (slabs ss ! i))"
    using slab_okD(4) [OF assms(1,2)] slab_count_le by simp
  then show thesis
  proof (cases rule: find_object_cases [where P = "\<lambda>p. p = NULL"])
    case none
    then have "slab_frees ss i = take (2 ^ (10 - i)) (objects (slabs ss ! i))"
      by (auto simp: slab_frees_def filter_empty_conv)
    with assms(3) n show thesis by simp
  next
    case (found k)
    then show thesis
      by (intro that) (simp_all add: find_allocated_object_def objects_per_slab_eq assms(2))
  qed
qed

section \<open>Allocation\<close>

text \<open>The loop of \<open>slab_alloc\<close> stops at the slab of the requested size.\<close>

definition slab_alloc_from :: "slab_state \<Rightarrow> nat \<Rightarrow> (slab_state \<times> u64) option" where
  "slab_alloc_from ss i =
     (if is_full (slabs ss ! i) then Some (ss, NULL)
      else do {
        k \<leftarrow> find_free_object ss i;
        if k = - 1 then Some (upd_slab i (\<lambda>s. s\<lparr>is_full := True\<rparr>) ss, NULL)
        else Some (upd_slab i (\<lambda>s. s\<lparr>objects := (objects s)[nat k := NULL]\<rparr>) ss,
                   objects (slabs ss ! i) ! nat k)
      })"

lemma slab_size_inj: "i < 11 \<Longrightarrow> m < 11 \<Longrightarrow> (2 :: u64) ^ Suc i = 2 ^ Suc m \<longleftrightarrow> i = m"
  unfolding less_11_cases by (elim disjE; simp)

lemma slab_alloc_loop_size:
  assumes "slab_ok bs ss" "k \<le> i" "i < k + n" "k + n = 11"
  shows "slab_alloc_loop ss (2 ^ Suc i) k n = slab_alloc_from ss i"
  using assms(2-)
proof (induction n arbitrary: k)
  case (Suc n)
  have sz: "slab_size (slabs ss ! k) = 2 ^ Suc k"
    by (rule slab_okD [OF assms(1)]) (use Suc.prems in simp)
  show ?case
  proof (cases "k = i")
    case True
    with sz show ?thesis by (simp add: slab_alloc_from_def Let_def cong: if_cong)
  next
    case False
    with sz slab_size_inj [of k i] Suc.prems have "slab_size (slabs ss ! k) \<noteq> 2 ^ Suc i"
      by simp
    moreover have "slab_alloc_loop ss (2 ^ Suc i) (Suc k) n = slab_alloc_from ss i"
      by (rule Suc.IH) (use Suc.prems False in simp_all)
    ultimately show ?thesis by (simp del: power_Suc)
  qed
qed simp

lemma slab_alloc_size: "slab_ok bs ss \<Longrightarrow> i < 11 \<Longrightarrow> slab_alloc ss (2 ^ Suc i) = slab_alloc_from ss i"
  using slab_alloc_loop_size [of bs ss 0 i 11] by (simp add: slab_alloc_def SLAB_COUNT_def)

lemma slab_alloc_loop_other:
  "(\<And>m. k \<le> m \<Longrightarrow> m < k + n \<Longrightarrow> slab_size (slabs ss ! m) \<noteq> sz) \<Longrightarrow>
     slab_alloc_loop ss sz k n = Some (ss, NULL)"
  by (induction n arbitrary: k) simp_all

lemma slab_frees_upd:
  assumes "length (slabs ss) = 11" "i < 11"
  shows "slab_frees (upd_slab i f ss) m =
    (if m = i then filter (\<lambda>p. p \<noteq> NULL) (take (2 ^ (10 - i)) (objects (f (slabs ss ! i))))
     else slab_frees ss m)"
  using assms by (simp add: slab_frees_def upd_slab_def)

lemma slab_ok_upd:
  assumes ok: "slab_ok bs ss" "i < 11"
    and keep: "slab_size (f (slabs ss ! i)) = slab_size (slabs ss ! i)"
      "address_range (f (slabs ss ! i)) = address_range (slabs ss ! i)"
      "length (objects (f (slabs ss ! i))) = length (objects (slabs ss ! i))"
    and frees: "set (slab_frees (upd_slab i f ss) i) \<subseteq> slots bs i"
      "distinct (slab_frees (upd_slab i f ss) i)"
  shows "slab_ok bs (upd_slab i f ss)"
proof -
  have len: "length (slabs ss) = 11"
    using ok by (simp add: slab_ok_def)
  then have at: "slabs (upd_slab i f ss) ! m = (if m = i then f (slabs ss ! i) else slabs ss ! m)" for m
    using ok(2) by (simp add: upd_slab_def)
  have all: "set (slab_frees (upd_slab i f ss) m) \<subseteq> slots bs m \<and>
      distinct (slab_frees (upd_slab i f ss) m)" if "m < 11" for m
    using that frees slab_frees_upd [OF len ok(2), of f m] slab_okD(6,7) [OF ok(1), of m]
    by (cases "m = i") simp_all
  show ?thesis
    unfolding slab_ok_def
  proof (intro conjI allI impI)
    show "length (slabs (upd_slab i f ss)) = 11"
      using len by (simp add: upd_slab_def)
  qed (use ok slab_okD [OF ok] keep all in \<open>auto simp: at slab_ok_def\<close>)
qed

text \<open>
  What is available of a size: the free objects of its slab, or nothing once the slab has
  been marked full.
\<close>

definition slab_avail :: "slab_state \<Rightarrow> nat \<Rightarrow> u64 set" where
  "slab_avail ss i = (if is_full (slabs ss ! i) then {} else set (slab_frees ss i))"

lemma slab_alloc_none:
  assumes ok: "slab_ok bs ss" "i < 11" and none: "slab_avail ss i = {}"
  shows "\<exists>ss'. slab_alloc ss (2 ^ Suc i) = Some (ss', NULL) \<and> slab_ok bs ss' \<and>
    is_full (slabs ss' ! i) \<and> (\<forall>m. slab_frees ss' m = slab_frees ss m) \<and>
    (\<forall>m. slab_avail ss' m = slab_avail ss m)"
proof (cases "is_full (slabs ss ! i)")
  case True
  with ok show ?thesis by (simp only: slab_alloc_size) (simp add: slab_alloc_from_def)
next
  case False
  then have frees: "slab_frees ss i = []"
    using none by (simp add: slab_avail_def)
  then have find: "find_free_object ss i = Some (- 1)"
    by (cases rule: find_free_object_cases [OF ok]) simp_all
  let ?ss = "upd_slab i (\<lambda>s. s\<lparr>is_full := True\<rparr>) ss"
  have len: "length (slabs ss) = 11" using ok by (simp add: slab_ok_def)
  have same: "slab_frees ?ss m = slab_frees ss m" for m
    using slab_frees_upd [OF len ok(2)] by (simp add: slab_frees_def)
  have "slab_ok bs ?ss"
    by (rule slab_ok_upd [OF ok]) (use same slab_okD [OF ok] in simp_all)
  moreover have "slab_avail ?ss m = slab_avail ss m" for m
    using frees same [of m] len ok(2) by (auto simp: slab_avail_def upd_slab_def nth_list_update)
  moreover have "is_full (slabs ?ss ! i)"
    using len ok(2) by (simp add: upd_slab_def)
  ultimately show ?thesis
    using False find same ok by (simp only: slab_alloc_size) (simp add: slab_alloc_from_def)
qed

lemma slab_alloc_some:
  assumes ok: "slab_ok bs ss" "i < 11" and some: "slab_avail ss i \<noteq> {}"
  shows "\<exists>ss' p. slab_alloc ss (2 ^ Suc i) = Some (ss', p) \<and> p \<in> slab_avail ss i \<and>
    slab_ok bs ss' \<and> slab_frees ss i = p # slab_frees ss' i \<and>
    (\<forall>m. m \<noteq> i \<longrightarrow> slab_frees ss' m = slab_frees ss m) \<and>
    (\<forall>m. is_full (slabs ss' ! m) = is_full (slabs ss ! m))"
proof -
  have open_slab: "\<not> is_full (slabs ss ! i)" and frees: "slab_frees ss i \<noteq> []"
    using some by (auto simp: slab_avail_def split: if_splits)
  have len: "length (slabs ss) = 11" using ok by (simp add: slab_ok_def)
  from ok show ?thesis
  proof (cases rule: find_free_object_cases)
    case none
    with frees show ?thesis by simp
  next
    case (found k)
    let ?p = "objects (slabs ss ! i) ! k"
    let ?ss = "upd_slab i (\<lambda>s. s\<lparr>objects := (objects s)[k := NULL]\<rparr>) ss"
    have tail: "slab_frees ss i = ?p # slab_frees ?ss i"
      using found(4) by (simp add: slab_frees_upd [OF len ok(2)])
    have "slab_ok bs ?ss"
      by (rule slab_ok_upd [OF ok])
        (use tail slab_okD(6,7) [OF ok] in \<open>simp_all\<close>)
    moreover have "slab_frees ?ss m = slab_frees ss m" if "m \<noteq> i" for m
      using that by (simp add: slab_frees_upd [OF len ok(2)])
    moreover have "is_full (slabs ?ss ! m) = is_full (slabs ss ! m)" for m
      using len ok(2) by (cases "m = i") (simp_all add: upd_slab_def)
    moreover have "?p \<in> slab_avail ss i"
      using tail open_slab by (simp add: slab_avail_def)
    moreover have "slab_alloc ss (2 ^ Suc i) = Some (?ss, ?p)"
      using open_slab found ok by (simp only: slab_alloc_size) (simp add: slab_alloc_from_def)
    ultimately show ?thesis
      using tail by blast
  qed
qed

section \<open>Freeing\<close>

text \<open>The range check of \<open>slab_free\<close>, and what it means for addresses.\<close>

definition in_free_range :: "slab_state \<Rightarrow> nat \<Rightarrow> u64 \<Rightarrow> bool" where
  "in_free_range ss i p \<longleftrightarrow> ar_start (address_range (slabs ss ! i)) \<le> p \<and>
     p \<le> ar_end (address_range (slabs ss ! i))"

lemma in_free_range_iff:
  assumes "slab_ok bs ss" "i < 11"
  shows "in_free_range ss i p \<longleftrightarrow>
    unat (bs i) \<le> unat p \<and> unat p + 2 ^ Suc i \<le> unat (bs i) + 1024"
proof -
  have b: "2048 \<le> unat (bs i)" "unat (bs i) + 2048 < 2 ^ 64"
    using assms by (simp_all add: slab_ok_def bases_ok_def)
  have pow: "(2 :: nat) ^ Suc i \<le> 2048"
    using power_increasing [of "Suc i" 11 "2 :: nat"] assms(2) by simp
  have size: "unat (2 ^ Suc i :: u64) = 2 ^ Suc i"
    using assms(2) by (auto simp: less_11_cases)
  have "unat (bs i + 1024) = unat (bs i) + 1024"
    using b by (subst unat_add_u64) simp_all
  then have "unat (bs i + 1024 - 2 ^ Suc i) = unat (bs i) + 1024 - 2 ^ Suc i"
    using b pow size by (subst unat_sub_u64) (simp_all add: word_le_nat_alt del: power_Suc)
  then show ?thesis
    using slab_okD(2,3) [OF assms] b pow by (auto simp: in_free_range_def word_le_nat_alt simp del: power_Suc)
qed

text \<open>The ranges of two slabs do not meet.\<close>

lemma in_free_range_unique:
  assumes "slab_ok bs ss" "i < 11" "m < 11" "in_free_range ss i p" "in_free_range ss m p"
  shows "i = m"
proof (rule ccontr)
  assume "i \<noteq> m"
  then have "unat (bs i) + 2048 \<le> unat (bs m) \<or> unat (bs m) + 2048 \<le> unat (bs i)"
    using assms by (simp add: slab_ok_def bases_ok_def)
  moreover have "unat (bs i) \<le> unat p" "unat p + 2 ^ Suc i \<le> unat (bs i) + 1024"
    "unat (bs m) \<le> unat p" "unat p + 2 ^ Suc m \<le> unat (bs m) + 1024"
    using assms in_free_range_iff by blast+
  ultimately show False by linarith
qed

lemma slab_free_loop_skip:
  assumes "\<And>m. \<lbrakk>k \<le> m; m < k + n\<rbrakk> \<Longrightarrow> \<not> in_free_range ss m p"
  shows "slab_free_loop ss p k n = Some ss"
  using assms by (induction n arbitrary: k) (auto simp: in_free_range_def Let_def)

text \<open>An address in the range of slab \<open>i\<close> is handled there and nowhere else.\<close>

definition slab_free_at :: "slab_state \<Rightarrow> u64 \<Rightarrow> nat \<Rightarrow> slab_state option" where
  "slab_free_at ss p i =
     (if (p - ar_start (address_range (slabs ss ! i)) + slab_size (slabs ss ! i))
           mod slab_size (slabs ss ! i) = 0
      then do {
        k \<leftarrow> find_allocated_object ss i;
        if k = - 1 then Some ss
        else Some (upd_slab i (\<lambda>s. s\<lparr>objects := (objects s)[nat k := p]\<rparr>) ss)
      }
      else Some ss)"

lemma slab_free_loop_at:
  assumes ok: "slab_ok bs ss" "i < 11" and p: "in_free_range ss i p"
    and k: "k \<le> i" "i < k + n" "k + n = 11"
  shows "slab_free_loop ss p k n = slab_free_at ss p i"
  using k
proof (induction n arbitrary: k)
  case (Suc n)
  show ?case
  proof (cases "k = i")
    case True
    have len: "length (slabs ss) = 11" using ok by (simp add: slab_ok_def)
    have skip: "slab_free_loop (upd_slab i f ss) p (Suc k) n = Some (upd_slab i f ss)" for f
    proof (rule slab_free_loop_skip)
      fix m
      assume m: "Suc k \<le> m" "m < Suc k + n"
      then have "slabs (upd_slab i f ss) ! m = slabs ss ! m"
        using True by (simp add: upd_slab_def)
      moreover have "\<not> in_free_range ss m p"
        using in_free_range_unique [OF ok _ p, of m] m True Suc.prems by auto
      ultimately show "\<not> in_free_range (upd_slab i f ss) m p"
        by (simp add: in_free_range_def)
    qed
    have same: "slab_free_loop ss p (Suc k) n = Some ss"
    proof (rule slab_free_loop_skip)
      fix m
      assume "Suc k \<le> m" "m < Suc k + n"
      then show "\<not> in_free_range ss m p"
        using in_free_range_unique [OF ok _ p, of m] True Suc.prems by auto
    qed
    have "slab_size (slabs ss ! i) \<noteq> 0"
      using slab_okD(1) [OF ok] ok(2) by (auto simp: less_11_cases)
    then show ?thesis
      using p skip same True unfolding in_free_range_def
      by (simp add: slab_free_at_def Let_def cong: if_cong)
  next
    case False
    then have "\<not> in_free_range ss k p"
      using in_free_range_unique [OF ok(1) _ ok(2), of k p] p Suc.prems by auto
    moreover have "slab_free_loop ss p (Suc k) n = slab_free_at ss p i"
      by (rule Suc.IH) (use Suc.prems False in simp_all)
    ultimately show ?thesis
      by (auto simp: in_free_range_def Let_def)
  qed
qed simp

lemma slab_free_in_range:
  assumes "slab_ok bs ss" "i < 11" "in_free_range ss i p" "p \<noteq> NULL"
  shows "slab_free ss p = slab_free_at ss p i"
  using slab_free_loop_at [OF assms(1-3), of 0 11] assms by (simp add: slab_free_def SLAB_COUNT_def)

lemma slab_free_out_of_range:
  "(\<And>i. i < 11 \<Longrightarrow> \<not> in_free_range ss i p) \<Longrightarrow> slab_free ss p = Some ss"
  by (simp add: slab_free_def SLAB_COUNT_def slab_free_loop_skip)

lemma slot_mod:
  assumes "i < 11" "p \<in> slots bs i"
  shows "(p - bs i + 2 ^ Suc i) mod 2 ^ Suc i = (0 :: u64)"
proof -
  obtain j where j: "j < 2 ^ (10 - i)" "p = bs i + of_nat (j * 2 ^ Suc i)"
    using assms(2) by (auto simp: mem_slots)
  have "p - bs i + 2 ^ Suc i = of_nat (j * 2 ^ Suc i + 2 ^ Suc i)"
    using j by simp
  moreover have "unat (of_nat (j * 2 ^ Suc i + 2 ^ Suc i) :: u64) = j * 2 ^ Suc i + 2 ^ Suc i"
    using slab_offset_bound [OF assms(1) j(1)] by (intro unat_of_nat_u64) (elim le_less_trans, simp)
  moreover have "unat (2 ^ Suc i :: u64) = 2 ^ Suc i"
    using assms(1) by (auto simp: less_11_cases)
  ultimately have "unat ((p - bs i + 2 ^ Suc i) mod 2 ^ Suc i) = (j * 2 ^ Suc i + 2 ^ Suc i) mod 2 ^ Suc i"
    by (simp only: unat_mod)
  also have "\<dots> = 0"
    by (metis mod_add_self2 mod_mult_self2_is_0)
  finally show ?thesis by (simp only: unat_eq_zero)
qed

lemma slab_frees_short:
  assumes "slab_ok bs ss" "i < 11" "p \<in> slots bs i" "p \<notin> set (slab_frees ss i)"
  shows "length (slab_frees ss i) < 2 ^ (10 - i)"
proof -
  have "set (slab_frees ss i) \<subset> slots bs i"
    using assms slab_okD(6) [OF assms(1,2)] by blast
  then have "card (set (slab_frees ss i)) < card (slots bs i)"
    by (intro psubset_card_mono) (simp_all add: slots_def)
  moreover have "card (slots bs i) \<le> 2 ^ (10 - i)"
    unfolding slots_def by (metis card_length length_slab_objs)
  ultimately show ?thesis
    using slab_okD(7) [OF assms(1,2)] by (simp add: distinct_card)
qed

text \<open>
  Returning an object that is in use: it is available again, and nothing else changes.
\<close>

lemma slab_free_back:
  assumes ok: "slab_ok bs ss" "i < 11" and p: "p \<in> slots bs i" "p \<notin> set (slab_frees ss i)"
    and range: "in_free_range ss i p"
  shows "\<exists>ss'. slab_free ss p = Some ss' \<and> slab_ok bs ss' \<and>
    set (slab_frees ss' i) = insert p (set (slab_frees ss i)) \<and>
    (\<forall>m. m \<noteq> i \<longrightarrow> slab_frees ss' m = slab_frees ss m) \<and>
    (\<forall>m. is_full (slabs ss' ! m) = is_full (slabs ss ! m))"
proof -
  have len: "length (slabs ss) = 11" using ok by (simp add: slab_ok_def)
  have nonnull: "p \<noteq> NULL"
    using ok p(1) by (intro slot_nonnull) (simp_all add: slab_ok_def)
  obtain k where k: "find_allocated_object ss i = Some (int k)" "k < 2 ^ (10 - i)"
    "objects (slabs ss ! i) ! k = NULL"
    using find_allocated_object_cases [OF ok slab_frees_short [OF ok p]] by blast
  let ?ss = "upd_slab i (\<lambda>s. s\<lparr>objects := (objects s)[k := p]\<rparr>) ss"
  have "slab_free ss p = slab_free_at ss p i"
    by (rule slab_free_in_range [OF ok range nonnull])
  then have run: "slab_free ss p = Some ?ss"
    using k(1) slot_mod [OF ok(2) p(1)] slab_okD(1,2) [OF ok]
    by (simp add: slab_free_at_def)
  have mset: "mset (slab_frees ?ss i) = add_mset p (mset (slab_frees ss i))"
  proof -
    have "slab_frees ?ss i =
        filter (\<lambda>q. q \<noteq> NULL) (take (2 ^ (10 - i)) ((objects (slabs ss ! i))[k := p]))"
      by (simp add: slab_frees_upd [OF len ok(2)])
    moreover have "mset (filter (\<lambda>q. q \<noteq> NULL) (take (2 ^ (10 - i)) ((objects (slabs ss ! i))[k := p]))) =
        add_mset p (mset (filter (\<lambda>q. q \<noteq> NULL) (take (2 ^ (10 - i)) (objects (slabs ss ! i)))))"
      by (rule filter_insert_gap) (use k nonnull slab_okD(4) [OF ok] slab_count_le [of i] in simp_all)
    ultimately show ?thesis by (simp only: slab_frees_def)
  qed
  then have set: "set (slab_frees ?ss i) = insert p (set (slab_frees ss i))"
    using mset_eq_setD [of "slab_frees ?ss i" "p # slab_frees ss i"] by simp
  have "distinct (p # slab_frees ss i)"
    using p(2) slab_okD(7) [OF ok] by simp
  then have "distinct (slab_frees ?ss i)"
    using mset_eq_imp_distinct_iff [of "slab_frees ?ss i" "p # slab_frees ss i"] mset by simp
  then have "slab_ok bs ?ss"
    using p(1) slab_okD(6) [OF ok] set by (intro slab_ok_upd [OF ok]) auto
  moreover have "is_full (slabs ?ss ! m) = is_full (slabs ss ! m)" for m
    using len ok(2) by (cases "m = i") (simp_all add: upd_slab_def)
  moreover have "slab_frees ?ss m = slab_frees ss m" if "m \<noteq> i" for m
    using that by (simp add: slab_frees_upd [OF len ok(2)])
  ultimately show ?thesis
    using run set by blast
qed

section \<open>A slab as an address source\<close>

interpretation slab_src: address_source "\<lambda>ss. slab_alloc ss (2 ^ Suc i)"
  "\<lambda>ss. slab_ok bs ss \<and> i < 11" "\<lambda>ss. slab_avail ss i" "\<lambda>p. p" for bs i
proof unfold_locales
  fix s k
  show "finite (slab_avail s i)" by (simp add: slab_avail_def)
  show "inj_on (\<lambda>p. p) (slab_avail s i)" by simp
  assume ok: "slab_ok bs s \<and> i < 11"
  show "slab_avail s i = {} \<Longrightarrow> \<exists>s'. slab_alloc s (2 ^ Suc i) = Some (s', NULL) \<and>
      slab_avail s' i = {} \<and> slab_ok bs s' \<and> i < 11"
    using ok slab_alloc_none by metis
  show "k \<in> slab_avail s i \<Longrightarrow> k \<noteq> NULL"
    by (auto simp: slab_avail_def slab_frees_def split: if_splits)
  assume some: "slab_avail s i \<noteq> {}"
  then obtain s' p where *: "slab_alloc s (2 ^ Suc i) = Some (s', p)" "p \<in> slab_avail s i"
    "slab_ok bs s'" "slab_frees s i = p # slab_frees s' i"
    "is_full (slabs s' ! i) = is_full (slabs s ! i)"
    using slab_alloc_some ok by metis
  have "distinct (slab_frees s i)"
    using ok slab_okD(7) by blast
  then have "slab_avail s' i = slab_avail s i - {p}"
    using * by (auto simp: slab_avail_def)
  then show "\<exists>s' k. slab_alloc s (2 ^ Suc i) = Some (s', k) \<and> k \<in> slab_avail s i \<and>
      slab_avail s' i = slab_avail s i - {k} \<and> slab_ok bs s' \<and> i < 11"
    using * ok by blast
qed

section \<open>After initialisation\<close>

lemma bases_ok_slab_base:
  assumes "length ks = 6" "distinct ks" "\<forall>k \<in> set ks. k < 2 ^ 31"
  shows "bases_ok (slab_base cr4 ks)"
proof -
  have at: "unat (slab_base cr4 ks m) = unat (page_ptr cr4 (ks ! (m div 2))) + (if odd m then 2048 else 0)"
    if "m < 11" for m
    using assms(1,3) that unat_page_ptr_offset [of "ks ! (m div 2)" 2048 cr4]
    by (simp add: slab_base_def)
  have page: "unat (page_ptr cr4 k) =
      (if is_la57_enabled cr4 then 0xFF00000000000000 else 0xFFFF800000000000) + k * 4096"
    if "k \<in> set ks" for k
    using assms(3) that by (intro unat_page_ptr) simp
  have sep: "unat (slab_base cr4 ks i) + 2048 \<le> unat (slab_base cr4 ks m) \<or>
      unat (slab_base cr4 ks m) + 2048 \<le> unat (slab_base cr4 ks i)" if "i < 11" "m < 11" "i \<noteq> m" for i m
  proof (cases "i div 2 = m div 2")
    case True
    then have "odd i \<noteq> odd m"
      using that(3) by (metis bit_eq_rec)
    with True show ?thesis by (auto simp: at that)
  next
    case False
    then have "ks ! (i div 2) \<noteq> ks ! (m div 2)"
      using assms(1,2) that by (simp add: nth_eq_iff_index_eq)
    then show ?thesis
      using that assms(1) by (auto simp: at page)
  qed
  have "2048 \<le> unat (slab_base cr4 ks i) \<and> unat (slab_base cr4 ks i) + 2048 < 2 ^ 64" if "i < 11" for i
  proof -
    have k: "ks ! (i div 2) \<in> set ks"
      using that assms(1) by simp
    then have "ks ! (i div 2) < 2 ^ 31"
      using assms(3) by blast
    then show ?thesis
      using page [OF k] by (auto simp: at that)
  qed
  with sep show ?thesis
    unfolding bases_ok_def by blast
qed

lemma slab_ok_ready:
  assumes "bases_ok bs" "slabs ss = map (\<lambda>m. slab_ready (bs m) m) [0..<11]"
  shows "slab_ok bs ss" and "i < 11 \<Longrightarrow> slab_frees ss i = slab_objs (bs i) i (2 ^ (10 - i))"
    and "i < 11 \<Longrightarrow> \<not> is_full (slabs ss ! i)"
proof -
  have frees: "slab_frees ss i = slab_objs (bs i) i (2 ^ (10 - i))" if "i < 11" for i
  proof -
    have "\<forall>p \<in> set (slab_objs (bs i) i (2 ^ (10 - i))). p \<noteq> NULL"
      using slot_nonnull [OF assms(1) that] by (simp add: slots_def)
    then show ?thesis
      using that assms(2) by (simp add: slab_frees_def nth_append)
  qed
  then show "i < 11 \<Longrightarrow> slab_frees ss i = slab_objs (bs i) i (2 ^ (10 - i))" .
  show "i < 11 \<Longrightarrow> \<not> is_full (slabs ss ! i)"
    using assms(2) by simp
  show "slab_ok bs ss"
    using assms frees slab_count_le distinct_slab_objs [OF assms(1)]
    by (auto simp: slab_ok_def slots_def)
qed

section \<open>Properties\<close>

lemma slab_alloc_avail:
  assumes ok: "slab_ok bs ss" "i < 11" and some: "slab_avail ss i \<noteq> {}"
  obtains ss' p where "slab_alloc ss (2 ^ Suc i) = Some (ss', p)" "p \<in> slab_avail ss i"
    "p \<in> slots bs i" "slab_ok bs ss'" "p \<notin> set (slab_frees ss' i)"
    "\<And>m. slab_avail ss' m = (if m = i then slab_avail ss i - {p} else slab_avail ss m)"
    "\<not> is_full (slabs ss' ! i)"
proof -
  obtain ss' p where *: "slab_alloc ss (2 ^ Suc i) = Some (ss', p)" "p \<in> slab_avail ss i"
    "slab_ok bs ss'" "slab_frees ss i = p # slab_frees ss' i"
    "\<forall>m. m \<noteq> i \<longrightarrow> slab_frees ss' m = slab_frees ss m"
    "\<forall>m. is_full (slabs ss' ! m) = is_full (slabs ss ! m)"
    using slab_alloc_some [OF ok some] by blast
  have frees: "distinct (slab_frees ss i)" "set (slab_frees ss i) \<subseteq> slots bs i"
    using slab_okD [OF ok] by simp_all
  show thesis
  proof (rule that [OF *(1,2) _ *(3)])
    show "p \<in> slots bs i" using frees(2) *(4) by simp
    show "p \<notin> set (slab_frees ss' i)" using frees(1) *(4) by simp
    show "slab_avail ss' m = (if m = i then slab_avail ss i - {p} else slab_avail ss m)" for m
      using frees(1) *(4-6) by (auto simp: slab_avail_def)
    show "\<not> is_full (slabs ss' ! i)"
      using some *(6) by (simp add: slab_avail_def split: if_splits)
  qed
qed

text \<open>A table for the witnesses: eleven fresh slabs on pages 256 to 261.\<close>

definition slab_sample :: slab_state where
  "slab_sample = slab_state_zero\<lparr>slabs :=
     map (\<lambda>m. slab_ready (slab_base 0 [256..<262] m) m) [0..<11]\<rparr>"

definition sample_bases :: "nat \<Rightarrow> u64" where
  "sample_bases = slab_base 0 [256..<262]"

lemma slab_sample_ok: "slab_ok sample_bases slab_sample"
  and slab_sample_avail: "i < 11 \<Longrightarrow> slab_avail slab_sample i = slots sample_bases i"
proof -
  have bases: "bases_ok sample_bases"
    unfolding sample_bases_def by (rule bases_ok_slab_base) auto
  note ready = slab_ok_ready [OF bases, of slab_sample]
  show "slab_ok sample_bases slab_sample"
    by (rule ready(1)) (simp add: slab_sample_def sample_bases_def)
  show "i < 11 \<Longrightarrow> slab_avail slab_sample i = slots sample_bases i"
    using ready(2,3) [of i] by (simp add: slab_sample_def sample_bases_def slab_avail_def slots_def)
qed

lemma slots_nonempty: "slots bs i \<noteq> {}"
  by (auto simp: slots_def slab_objs_def)

lemma sample_bases_eq: "sample_bases 3 = 0xFFFF800000101800" "sample_bases 10 = 0xFFFF800000105000"
  by (simp_all add: sample_bases_def slab_base_def page_ptr_def phys_to_higher_half_data_def
      is_la57_enabled_def HIGHER_HALF_DATA_LV4_def PAGE_SIZE_def)

text \<open>
  C11: with six pages left, \<open>slab_init\<close> takes exactly six distinct pages and splits them
  into eleven disjoint slabs in which every object is free.
\<close>

theorem slab_init_all_free:
  assumes "pmm_ok pm" and "6 \<le> card (pmm_avail pm)"
  shows "\<exists>pm' ss ks. slab_init cr4 (pm, slab_state_zero) = Some (pm', ss) \<and>
    slab_ok (slab_base cr4 ks) ss \<and>
    (\<forall>i < 11. slab_avail ss i = slots (slab_base cr4 ks) i \<and>
       card (slab_avail ss i) = 2 ^ (10 - i)) \<and>
    length ks = 6 \<and> distinct ks \<and> set ks \<subseteq> pmm_avail pm \<and>
    pmm_avail pm' = pmm_avail pm - set ks \<and> pmm_ok pm'"
proof -
  obtain pm' ss ks where run: "slab_init cr4 (pm, slab_state_zero) = Some (pm', ss)"
    "slabs ss = map (\<lambda>m. slab_ready (slab_base cr4 ks m) m) [0..<11]"
    and ks: "length ks = 6" "distinct ks" "set ks \<subseteq> pmm_avail pm"
      "pmm_avail pm' = pmm_avail pm - set ks" "pmm_ok pm'"
    using slab_init_result [OF assms, of cr4] by blast
  have "\<forall>k \<in> set ks. k < 2 ^ 31"
    using ks(3) assms(1) pmm_avail_bounds(4) by (auto simp: pmm_ok_def)
  then have bases: "bases_ok (slab_base cr4 ks)"
    using ks by (intro bases_ok_slab_base)
  note ready = slab_ok_ready [OF bases run(2)]
  have "slab_avail ss i = slots (slab_base cr4 ks) i \<and> card (slab_avail ss i) = 2 ^ (10 - i)"
    if "i < 11" for i
    using ready(2,3) [OF that] distinct_slab_objs [OF bases that]
    by (simp add: slab_avail_def slots_def distinct_card)
  with run(1) ready(1) ks show ?thesis by blast
qed

theorem slab_init_all_free_witness:
  "\<exists>pm' ss ks. slab_init 0 (pmm_small, slab_state_zero) = Some (pm', ss) \<and>
    slab_ok (slab_base 0 ks) ss \<and> card (slab_avail ss 0) = 1024 \<and> card (slab_avail ss 10) = 1 \<and>
    length ks = 6 \<and> pmm_avail pm' = pmm_avail pmm_small - set ks"
proof -
  have "6 \<le> card (pmm_avail pmm_small)" by (simp add: card_pmm_small)
  from slab_init_all_free [OF pmm_small_ok this, of 0] obtain pm' ss ks
    where *: "slab_init 0 (pmm_small, slab_state_zero) = Some (pm', ss)"
      "slab_ok (slab_base 0 ks) ss" "\<forall>i < 11. card (slab_avail ss i) = 2 ^ (10 - i)"
      "length ks = 6" "pmm_avail pm' = pmm_avail pmm_small - set ks"
    by blast
  then have "card (slab_avail ss 0) = 1024" "card (slab_avail ss 10) = 1"
    by simp_all
  with * show ?thesis by blast
qed

text \<open>
  C12: a request for an object of a slab size returns one of the available objects and makes
  exactly that one unavailable, or returns the null pointer and changes nothing a client can
  get when there is none; the table keeps its invariant.
\<close>

theorem slab_alloc_correct:
  assumes "slab_ok bs ss" and "i < 11"
  shows "\<exists>ss' p. slab_alloc ss (2 ^ Suc i) = Some (ss', p) \<and> slab_ok bs ss' \<and>
    (if slab_avail ss i = {} then p = NULL \<and> (\<forall>m. slab_avail ss' m = slab_avail ss m)
     else p \<noteq> NULL \<and> p \<in> slab_avail ss i \<and>
       (\<forall>m. slab_avail ss' m = (if m = i then slab_avail ss i - {p} else slab_avail ss m)))"
proof (cases "slab_avail ss i = {}")
  case True
  with slab_alloc_none [OF assms] show ?thesis by auto
next
  case False
  obtain ss' p where *: "slab_alloc ss (2 ^ Suc i) = Some (ss', p)" "p \<in> slab_avail ss i"
    "slab_ok bs ss'" "p \<in> slots bs i"
    "\<And>m. slab_avail ss' m = (if m = i then slab_avail ss i - {p} else slab_avail ss m)"
    using slab_alloc_avail [OF assms False] by metis
  moreover have "p \<noteq> NULL"
    using slot_nonnull [of bs i p] *(4) assms by (simp add: slab_ok_def)
  ultimately show ?thesis
    using False by auto
qed

theorem slab_alloc_correct_witness:
  "\<exists>ss' p. slab_alloc slab_sample 16 = Some (ss', p) \<and> slab_ok sample_bases ss' \<and>
    p \<noteq> NULL \<and> p \<in> slots sample_bases 3 \<and> p \<notin> slab_avail ss' 3"
proof -
  have i: "(3 :: nat) < 11" by simp
  have avail: "slab_avail slab_sample 3 = slots sample_bases 3" "slots sample_bases 3 \<noteq> {}"
    by (simp_all add: slab_sample_avail slots_nonempty)
  show ?thesis
    using slab_alloc_correct [OF slab_sample_ok i] avail by (simp split: if_splits)
qed

text \<open>
  C13: an object that is handed out from the part of a slab that \<open>slab_free\<close> accepts and then
  returned is available again, and so is everything that was available before.
\<close>

theorem slab_alloc_free_round_trip:
  assumes "slab_ok bs ss" "i < 11" and "slab_alloc ss (2 ^ Suc i) = Some (ss1, p)"
    and "p \<noteq> NULL" and "unat p + 2 ^ Suc i \<le> unat (bs i) + 1024"
  shows "\<exists>ss2. slab_free ss1 p = Some ss2 \<and> slab_ok bs ss2 \<and>
    (\<forall>m. slab_avail ss2 m = slab_avail ss m)"
proof -
  have some: "slab_avail ss i \<noteq> {}"
    using slab_alloc_none [OF assms(1,2)] assms(3,4) by fastforce
  obtain ss' q where *: "slab_alloc ss (2 ^ Suc i) = Some (ss', q)" "q \<in> slab_avail ss i"
    "q \<in> slots bs i" "slab_ok bs ss'" "q \<notin> set (slab_frees ss' i)"
    "\<And>m. slab_avail ss' m = (if m = i then slab_avail ss i - {q} else slab_avail ss m)"
    "\<not> is_full (slabs ss' ! i)"
    using slab_alloc_avail [OF assms(1,2) some] by metis
  have same: "ss' = ss1" "q = p" using *(1) assms(3) by simp_all
  have "unat (bs i) \<le> unat p"
    using slot_range [of bs i p] *(3) assms(1,2) same by (simp add: slab_ok_def)
  then have range: "in_free_range ss1 i p"
    using in_free_range_iff [of bs ss1 i p] *(4) assms(2,5) same by simp
  obtain ss2 where free: "slab_free ss1 p = Some ss2" "slab_ok bs ss2"
    "set (slab_frees ss2 i) = insert p (set (slab_frees ss1 i))"
    "\<forall>m. m \<noteq> i \<longrightarrow> slab_frees ss2 m = slab_frees ss1 m"
    "\<forall>m. is_full (slabs ss2 ! m) = is_full (slabs ss1 ! m)"
    using slab_free_back [OF *(4) assms(2) *(3) *(5)] range same by blast
  have "slab_avail ss2 m = slab_avail ss m" for m
  proof (cases "m = i")
    case True
    have "slab_avail ss2 i = insert p (slab_avail ss1 i)"
      using free(3,5) *(7) same by (simp add: slab_avail_def)
    with True show ?thesis
      using *(2) *(6) [of i] same by auto
  next
    case False
    then show ?thesis
      using free(4,5) *(6) [of m] same by (auto simp: slab_avail_def)
  qed
  with free(1,2) show ?thesis by blast
qed

lemma slab_sample_alloc:
  "\<exists>ss1. slab_alloc slab_sample (2 ^ Suc 3) = Some (ss1, sample_bases 3)"
proof -
  have some: "slab_avail slab_sample 3 \<noteq> {}"
    by (simp add: slab_sample_avail slots_nonempty)
  obtain ss1 p where *: "slab_alloc slab_sample (2 ^ Suc 3) = Some (ss1, p)"
    "slab_frees slab_sample 3 = p # slab_frees ss1 3"
    using slab_alloc_some [OF slab_sample_ok _ some] by auto
  have "slab_frees slab_sample 3 = slab_objs (sample_bases 3) 3 (2 ^ (10 - 3))"
    using slab_sample_ok slab_ok_ready(2) [of sample_bases slab_sample 3]
    by (simp add: slab_sample_def sample_bases_def slab_ok_def)
  then have "p = hd (slab_objs (sample_bases 3) 3 (2 ^ (10 - 3)))"
    using *(2) by (metis list.sel(1))
  then have "p = sample_bases 3"
    by (simp add: slab_objs_def hd_map)
  with *(1) show ?thesis by blast
qed

theorem slab_alloc_free_round_trip_witness:
  "\<exists>ss1 ss2. slab_alloc slab_sample 16 = Some (ss1, 0xFFFF800000101800) \<and>
    slab_free ss1 0xFFFF800000101800 = Some ss2 \<and> slab_avail ss2 3 = slots sample_bases 3"
proof -
  obtain ss1 where a: "slab_alloc slab_sample (2 ^ Suc 3) = Some (ss1, sample_bases 3)"
    using slab_sample_alloc by blast
  have "sample_bases 3 \<noteq> NULL" "unat (sample_bases 3) + 2 ^ Suc 3 \<le> unat (sample_bases 3) + 1024"
    by (simp_all add: sample_bases_eq)
  then have "\<exists>ss2. slab_free ss1 (sample_bases 3) = Some ss2 \<and> slab_ok sample_bases ss2 \<and>
      (\<forall>m. slab_avail ss2 m = slab_avail slab_sample m)"
    by (intro slab_alloc_free_round_trip [OF slab_sample_ok _ a]) simp_all
  with a show ?thesis
    using slab_sample_avail [of 3] by (auto simp: sample_bases_eq)
qed

lemma slab_free_upper:
  assumes "slab_ok bs ss" "i < 11" "p \<in> slots bs i" and "unat (bs i) + 1024 < unat p + 2 ^ Suc i"
  shows "slab_free ss p = Some ss"
proof (rule slab_free_out_of_range)
  fix m :: nat
  assume m: "m < 11"
  have bases: "bases_ok bs" using assms(1) by (simp add: slab_ok_def)
  have p: "unat (bs i) \<le> unat p \<and> unat p < unat (bs i) + 2048"
    by (rule slot_range [OF bases assms(2,3)])
  show "\<not> in_free_range ss m p"
  proof (cases "m = i")
    case True
    with assms in_free_range_iff [OF assms(1,2), of p] show ?thesis by simp
  next
    case False
    then have "unat (bs i) + 2048 \<le> unat (bs m) \<or> unat (bs m) + 2048 \<le> unat (bs i)"
      using bases assms(2) m by (simp add: bases_ok_def)
    then show ?thesis
      using p in_free_range_iff [OF assms(1) m, of p] by (auto simp del: power_Suc)
  qed
qed

text \<open>
  An object in the upper part of its half page (any object whose end is more than 1024
  bytes past the base, and the only object of the largest slab) can never be returned:
  \<open>slab_free\<close> ignores it, because the end of the range is computed with 1024 and not 2048.
\<close>

theorem slab_free_ignores_upper_half:
  assumes "slab_ok bs ss" "i < 11" "p \<in> slots bs i" and "unat (bs i) + 1024 < unat p + 2 ^ Suc i"
  shows "slab_free ss p = Some ss"
  using assms by (rule slab_free_upper)

theorem slab_free_ignores_upper_half_witness:
  "slab_free slab_sample 0xFFFF800000105000 = Some slab_sample \<and>
   0xFFFF800000105000 \<in> slots sample_bases 10"
proof -
  have slot: "0xFFFF800000105000 \<in> slots sample_bases 10"
    by (simp add: slots_def slab_objs_def sample_bases_eq)
  have "slab_free slab_sample 0xFFFF800000105000 = Some slab_sample"
    by (rule slab_free_ignores_upper_half [OF slab_sample_ok _ slot]) (simp_all add: sample_bases_eq)
  then show ?thesis using slot by simp
qed

section \<open>A full slab\<close>

text \<open>Any sequence of requests to the slab allocator.\<close>

datatype slab_op = Slab_Alloc u64 | Slab_Free u64

fun slab_run :: "slab_op list \<Rightarrow> slab_state \<Rightarrow> slab_state option" where
  "slab_run [] ss = Some ss"
| "slab_run (Slab_Alloc sz # ops) ss =
     Option.bind (slab_alloc ss sz) (\<lambda>(ss', p). slab_run ops ss')"
| "slab_run (Slab_Free p # ops) ss = Option.bind (slab_free ss p) (slab_run ops)"

text \<open>What no operation undoes: the sizes, and the marks of full slabs.\<close>

definition slab_keeps :: "slab_state \<Rightarrow> slab_state \<Rightarrow> bool" where
  "slab_keeps ss ss' \<longleftrightarrow> length (slabs ss') = length (slabs ss) \<and>
     (\<forall>i < length (slabs ss). slab_size (slabs ss' ! i) = slab_size (slabs ss ! i) \<and>
        (is_full (slabs ss ! i) \<longrightarrow> is_full (slabs ss' ! i)))"

lemma slab_keeps_refl [simp]: "slab_keeps ss ss"
  by (simp add: slab_keeps_def)

lemma slab_keeps_trans: "slab_keeps a b \<Longrightarrow> slab_keeps b c \<Longrightarrow> slab_keeps a c"
  by (simp add: slab_keeps_def)

lemma slab_keeps_upd:
  assumes "\<And>s. slab_size (f s) = slab_size s" "\<And>s. is_full s \<Longrightarrow> is_full (f s)"
  shows "slab_keeps ss (upd_slab i f ss)"
  unfolding slab_keeps_def
proof (intro conjI allI impI)
  fix m
  assume "m < length (slabs ss)"
  then have at: "slabs (upd_slab i f ss) ! m = (if m = i then f (slabs ss ! i) else slabs ss ! m)"
    by (simp add: upd_slab_def nth_list_update)
  show "slab_size (slabs (upd_slab i f ss) ! m) = slab_size (slabs ss ! m)"
    using assms(1) by (simp add: at)
  show "is_full (slabs ss ! m) \<Longrightarrow> is_full (slabs (upd_slab i f ss) ! m)"
    using assms(2) by (auto simp: at)
qed (simp add: upd_slab_def)

lemma slab_alloc_loop_keeps: "slab_alloc_loop ss sz i n = Some (ss', p) \<Longrightarrow> slab_keeps ss ss'"
  by (induction n arbitrary: i)
    (auto simp: Let_def slab_keeps_upd split: if_splits Option.bind_splits)

lemma slab_free_loop_keeps: "slab_free_loop ss p i n = Some ss' \<Longrightarrow> slab_keeps ss ss'"
proof (induction n arbitrary: i ss)
  case (Suc n)
  have "slab_keeps ss (upd_slab i (\<lambda>s. s\<lparr>objects := (objects s)[k := p]\<rparr>) ss)" for k
    by (rule slab_keeps_upd) simp_all
  then show ?case
    using Suc.prems Suc.IH slab_keeps_trans
    by (fastforce simp: Let_def split: if_splits Option.bind_splits)
qed simp

lemma slab_run_keeps: "slab_run ops ss = Some ss' \<Longrightarrow> slab_keeps ss ss'"
proof (induction ops ss rule: slab_run.induct)
  case (2 sz ops ss)
  then show ?case
    using slab_alloc_loop_keeps slab_keeps_trans
    by (fastforce simp: slab_alloc_def split: Option.bind_splits)
next
  case (3 p ops ss)
  then show ?case
    using slab_free_loop_keeps slab_keeps_trans
    by (fastforce simp: slab_free_def split: if_splits Option.bind_splits)
qed simp

lemma slab_alloc_loop_full:
  assumes "k \<le> i" "i < k + n" "is_full (slabs ss ! i)"
    and "\<forall>m < k + n. slab_size (slabs ss ! m) = 2 ^ Suc m" "k + n \<le> 11"
  shows "slab_alloc_loop ss (2 ^ Suc i) k n = Some (ss, NULL)"
  using assms
proof (induction n arbitrary: k)
  case (Suc n)
  show ?case
  proof (cases "k = i")
    case False
    have "slab_alloc_loop ss (2 ^ Suc i) (Suc k) n = Some (ss, NULL)"
      by (rule Suc.IH) (use Suc.prems False in \<open>simp_all del: power_Suc\<close>)
    moreover have "slab_size (slabs ss ! k) \<noteq> 2 ^ Suc i"
      using Suc.prems False slab_size_inj [of k i] by simp
    ultimately show ?thesis by (simp del: power_Suc)
  qed (use Suc.prems in simp)
qed simp

text \<open>Once a slab has been marked full, every later request of its size fails, whatever was
  allocated and returned in between: no operation clears the mark.
\<close>

theorem slab_full_forever:
  assumes "length (slabs ss) = 11" "\<forall>m < 11. slab_size (slabs ss ! m) = 2 ^ Suc m"
    and "i < 11" "is_full (slabs ss ! i)" and "slab_run ops ss = Some ss'"
  shows "slab_alloc ss' (2 ^ Suc i) = Some (ss', NULL)"
proof -
  have keep: "slab_keeps ss ss'"
    using slab_run_keeps assms(5) .
  then have "\<forall>m < 11. slab_size (slabs ss' ! m) = 2 ^ Suc m" "is_full (slabs ss' ! i)"
    using assms by (simp_all add: slab_keeps_def)
  then show ?thesis
    using slab_alloc_loop_full [of 0 i 11 ss'] assms(3) by (simp add: slab_alloc_def SLAB_COUNT_def)
qed

text \<open>
  The largest slab has one object: two requests mark it full, and returning objects of any
  slab afterwards does not help.
\<close>

theorem slab_full_forever_witness:
  "\<exists>ss ss'. slab_run [Slab_Alloc 2048, Slab_Alloc 2048] slab_sample = Some ss \<and>
    slab_run [Slab_Free 0xFFFF800000105000] ss = Some ss' \<and>
    slab_alloc ss' 2048 = Some (ss', NULL)"
proof -
  have i: "(10 :: nat) < 11" by simp
  have avail: "slab_avail slab_sample 10 = {sample_bases 10}"
    by (simp add: slab_sample_avail slots_def slab_objs_def)
  obtain s1 p where s1: "slab_alloc slab_sample (2 ^ Suc 10) = Some (s1, p)"
    "p \<in> slab_avail slab_sample 10" "slab_ok sample_bases s1"
    "\<And>m. slab_avail s1 m = (if m = 10 then slab_avail slab_sample 10 - {p} else slab_avail slab_sample m)"
    by (rule slab_alloc_avail [OF slab_sample_ok i]) (simp_all add: avail)
  have "slab_avail s1 10 = {}"
    using s1(2,4) avail by simp
  then obtain s2 where s2: "slab_alloc s1 (2 ^ Suc 10) = Some (s2, NULL)" "slab_ok sample_bases s2"
    "is_full (slabs s2 ! 10)"
    using slab_alloc_none [OF s1(3) i] by blast
  have slot: "0xFFFF800000105000 \<in> slots sample_bases 10"
    by (simp add: slots_def slab_objs_def sample_bases_eq)
  have "slab_free s2 0xFFFF800000105000 = Some s2"
    by (rule slab_free_upper [OF s2(2) i slot]) (simp add: sample_bases_eq)
  then have run: "slab_run [Slab_Free 0xFFFF800000105000] s2 = Some s2"
    by simp
  have "slab_alloc s2 (2 ^ Suc 10) = Some (s2, NULL)"
    by (rule slab_full_forever [OF _ _ i s2(3) run]) (use s2(2) in \<open>simp_all add: slab_ok_def\<close>)
  then show ?thesis
    using s1(1) s2(1) run by (intro exI [of _ s2]) simp
qed

end
