(* ===== verification/Kmalloc.thy ===== *)
theory Kmalloc
  imports Slab_Pool
begin

text \<open>
  \<open>libk/alloc/kmalloc.c\<close>: the kernel heap over the page allocator and the slabs. Every
  block is preceded by a metadata word with its size; the memory that holds these words is
  an explicit store, because clients write to the same memory.
\<close>

section \<open>Data\<close>

record kmalloc_metadata_t =
  md_size :: u64

record heap =
  h_pmm :: pmm_state
  h_slab :: slab_state
  h_meta :: "u64 \<Rightarrow> kmalloc_metadata_t"

text \<open>\<open>sizeof(kmalloc_metadata_t)\<close>\<close>

definition METADATA_SIZE :: u64 where
  "METADATA_SIZE = 8"

section \<open>Operations\<close>

text \<open>The doubling loop; \<open>None\<close> when it does not end.\<close>

partial_function (option) next_pow_loop :: "u64 \<Rightarrow> u64 \<Rightarrow> u64 option" where
  "next_pow_loop result num =
     (if result < num then next_pow_loop (push_bit 1 result) num else Some result)"

definition next_pow_of_two :: "u64 \<Rightarrow> u64 option" where
  "next_pow_of_two num = next_pow_loop 2 num"

definition kmalloc :: "u64 \<Rightarrow> heap \<Rightarrow> u64 \<Rightarrow> (heap \<times> u64) option" where
  "kmalloc cr4 h sz = do {
     new_size \<leftarrow> next_pow_of_two sz;
     if PAGE_SIZE \<le> new_size then do {
       (pm, ptr) \<leftarrow> pmm_alloc cr4 (h_pmm h) (new_size div PAGE_SIZE + 1);
       Some (h\<lparr>h_pmm := pm, h_meta := (h_meta h)(ptr := \<lparr>md_size = new_size\<rparr>)\<rparr>, ptr + PAGE_SIZE)
     }
     else do {
       new_size \<leftarrow> next_pow_of_two (sz + METADATA_SIZE);
       (ss, ptr) \<leftarrow> slab_alloc (h_slab h) new_size;
       Some (h\<lparr>h_slab := ss, h_meta := (h_meta h)(ptr := \<lparr>md_size = new_size\<rparr>)\<rparr>,
             ptr + METADATA_SIZE)
     }
   }"

definition kfree :: "u64 \<Rightarrow> heap \<Rightarrow> u64 \<Rightarrow> heap option" where
  "kfree cr4 h ptr =
     (if ptr = NULL then Some h
      else if ptr AND 0xFFF = 0 then (let metadata = ptr - PAGE_SIZE in do {
        pm \<leftarrow> pmm_free cr4 (h_pmm h) metadata (md_size (h_meta h metadata) div 4096 + 1);
        Some (h\<lparr>h_pmm := pm\<rparr>)
      })
      else (let metadata = ptr - METADATA_SIZE in do {
        ss \<leftarrow> slab_free (h_slab h) metadata;
        Some (h\<lparr>h_slab := ss\<rparr>)
      }))"

section \<open>The next power of two\<close>

lemma unat_pow2: "m < 64 \<Longrightarrow> unat (2 ^ m :: u64) = 2 ^ m"
  using unat_of_nat_u64 [of "2 ^ m"] power_strict_increasing [of m 64 "2 :: nat"] by simp

lemma next_pow_loop_result:
  assumes "k \<le> m" "m < 64" "unat num \<le> 2 ^ m" "k < m \<longrightarrow> 2 ^ (m - 1) < unat num"
  shows "next_pow_loop (2 ^ k) num = Some (2 ^ m)"
  using assms
proof (induction "m - k" arbitrary: k)
  case 0
  then have "\<not> 2 ^ m < num"
    by (simp add: word_less_nat_alt unat_pow2)
  with 0 show ?case by (subst next_pow_loop.simps) simp
next
  case (Suc d)
  then have k: "k < m" by simp
  have "(2 :: nat) ^ k \<le> 2 ^ (m - 1)"
    using k by (intro power_increasing) simp_all
  then have "2 ^ k < unat num"
    using k Suc.prems(4) by linarith
  then have less: "(2 :: u64) ^ k < num"
    using k Suc.prems by (simp add: word_less_nat_alt unat_pow2)
  have step: "push_bit 1 (2 ^ k :: u64) = 2 ^ Suc k"
    by (simp add: push_bit_eq_mult)
  have "next_pow_loop (2 ^ Suc k) num = Some (2 ^ m)"
    by (rule Suc.hyps(1)) (use Suc.hyps(2) Suc.prems k in auto)
  with less step show ?case by (subst next_pow_loop.simps) (simp del: power_Suc)
qed

text \<open>The exponent of the least power of two, at least 2, that holds \<open>n\<close> bytes.\<close>

definition pow2_exp :: "nat \<Rightarrow> nat" where
  "pow2_exp n = (LEAST m. 1 \<le> m \<and> n \<le> 2 ^ m)"

lemma pow2_exp_spec: "1 \<le> pow2_exp n \<and> n \<le> 2 ^ pow2_exp n"
proof -
  have "1 \<le> Suc n \<and> n \<le> 2 ^ Suc n"
    by (metis le_add1 less_exp less_imp_le plus_1_eq_Suc Suc_leD order.strict_trans1 le_SucI)
  then show ?thesis
    unfolding pow2_exp_def by (rule LeastI)
qed

lemma pow2_exp_least: "1 < pow2_exp n \<Longrightarrow> 2 ^ (pow2_exp n - 1) < n"
  using not_less_Least [of "pow2_exp n - 1" "\<lambda>m. 1 \<le> m \<and> n \<le> 2 ^ m"]
  by (auto simp: pow2_exp_def not_le)

lemma pow2_exp_le: "1 \<le> m \<Longrightarrow> n \<le> 2 ^ m \<Longrightarrow> pow2_exp n \<le> m"
  unfolding pow2_exp_def by (rule Least_le) simp

lemma pow2_exp_eqI: "1 \<le> m \<Longrightarrow> n \<le> 2 ^ m \<Longrightarrow> m = 1 \<or> 2 ^ (m - 1) < n \<Longrightarrow> pow2_exp n = m"
proof (rule antisym)
  assume *: "1 \<le> m" "n \<le> 2 ^ m" "m = 1 \<or> 2 ^ (m - 1) < n"
  show "pow2_exp n \<le> m" using * by (intro pow2_exp_le)
  show "m \<le> pow2_exp n"
  proof (rule ccontr)
    assume "\<not> m \<le> pow2_exp n"
    then have "(2 :: nat) ^ pow2_exp n \<le> 2 ^ (m - 1)" "m \<noteq> 1"
      using pow2_exp_spec [of n] by (auto intro: power_increasing)
    with * pow2_exp_spec [of n] show False by linarith
  qed
qed

lemma next_pow_of_two_exp:
  assumes "unat num \<le> 2 ^ 63"
  shows "next_pow_of_two num = Some (2 ^ pow2_exp (unat num))"
proof -
  have "pow2_exp (unat num) \<le> 63"
    using assms by (intro pow2_exp_le) simp_all
  then have "next_pow_loop (2 ^ 1) num = Some (2 ^ pow2_exp (unat num))"
    using pow2_exp_spec pow2_exp_least by (intro next_pow_loop_result) simp_all
  then show ?thesis by (simp add: next_pow_of_two_def)
qed

text \<open>A run that ends has met a power of two that is large enough.\<close>

lemma next_pow_loop_ends:
  assumes "next_pow_loop result num = Some y"
  shows "num \<le> y \<and> (\<exists>j. y = push_bit j result)"
proof (rule next_pow_loop.raw_induct
    [where P = "\<lambda>r n y. n \<le> y \<and> (\<exists>j. y = push_bit j r)", OF _ assms])
  fix loop and r n y :: u64
  assume IH: "\<And>r n y. loop r n = Some y \<Longrightarrow> n \<le> y \<and> (\<exists>j. y = push_bit j r)"
    and run: "(if r < n then loop (push_bit 1 r) n else Some r) = Some y"
  show "n \<le> y \<and> (\<exists>j. y = push_bit j r)"
  proof (cases "r < n")
    case True
    with IH [of "push_bit 1 r" n y] run obtain j where "n \<le> y" "y = push_bit j (push_bit 1 r)"
      by auto
    then have "n \<le> y \<and> y = push_bit (j + 1) r"
      by (simp add: push_bit_push_bit)
    then show ?thesis by blast
  next
    case False
    with run show ?thesis
      by (intro conjI exI [of _ 0]) (simp_all add: not_less)
  qed
qed

lemma next_pow_of_two_diverges:
  assumes "2 ^ 63 < unat num"
  shows "next_pow_of_two num = None"
proof (cases "next_pow_of_two num")
  case (Some y)
  then obtain j where j: "num \<le> y" "y = push_bit j 2"
    using next_pow_loop_ends unfolding next_pow_of_two_def by blast
  have "unat y \<le> 2 ^ 63"
  proof (cases "j < 63")
    case True
    have "y = 2 ^ Suc j"
      using j(2) by (simp add: push_bit_eq_mult)
    then have "unat y = 2 ^ Suc j"
      using unat_pow2 [of "Suc j"] True by simp
    also have "(2 :: nat) ^ Suc j \<le> 2 ^ 63"
      using True by (intro power_increasing) simp_all
    finally show ?thesis .
  next
    case False
    have zero: "push_bit 63 (2 :: u64) = 0"
      by (simp add: push_bit_eq_mult)
    have "y = push_bit (j - 63) (push_bit 63 2)"
      using j(2) False by (simp only: push_bit_push_bit) simp
    then have "y = 0" by (simp only: zero push_bit_of_0)
    then show ?thesis by simp
  qed
  with j(1) assms show ?thesis
    by (simp add: word_le_nat_alt)
qed simp

section \<open>Small blocks\<close>

text \<open>The slab that serves a request for \<open>n\<close> bytes, metadata included.\<close>

definition kmalloc_class :: "nat \<Rightarrow> nat" where
  "kmalloc_class n = pow2_exp (n + 8) - 1"

lemma kmalloc_class_bounds:
  assumes "n \<le> 2040"
  shows "2 \<le> kmalloc_class n" "kmalloc_class n < 11" "n + 8 \<le> 2 ^ Suc (kmalloc_class n)"
    "pow2_exp (n + 8) = Suc (kmalloc_class n)"
proof -
  have exp: "1 \<le> pow2_exp (n + 8)" "n + 8 \<le> 2 ^ pow2_exp (n + 8)"
    using pow2_exp_spec by blast+
  have le: "pow2_exp (n + 8) \<le> 11"
    using assms by (intro pow2_exp_le) simp_all
  have ge: "3 \<le> pow2_exp (n + 8)"
  proof (rule ccontr)
    assume "\<not> 3 \<le> pow2_exp (n + 8)"
    then have "(2 :: nat) ^ pow2_exp (n + 8) \<le> 2 ^ 2"
      by (intro power_increasing) simp_all
    with exp(2) show False by simp
  qed
  show "2 \<le> kmalloc_class n" "kmalloc_class n < 11" "pow2_exp (n + 8) = Suc (kmalloc_class n)"
    using ge le by (simp_all add: kmalloc_class_def)
  with exp(2) show "n + 8 \<le> 2 ^ Suc (kmalloc_class n)" by metis
qed

text \<open>A request that is not rounded up to a page goes to \<open>slab_alloc\<close>.\<close>

lemma kmalloc_small:
  assumes "n \<le> 2048"
  shows "kmalloc cr4 h (of_nat n) = do {
    (ss, ptr) \<leftarrow> slab_alloc (h_slab h) (2 ^ pow2_exp (n + 8));
    Some (h\<lparr>h_slab := ss, h_meta := (h_meta h)(ptr := \<lparr>md_size = 2 ^ pow2_exp (n + 8)\<rparr>)\<rparr>,
          ptr + METADATA_SIZE)}"
proof -
  have n: "unat (of_nat n :: u64) = n" "unat (of_nat n + METADATA_SIZE) = n + 8"
    using assms unat_of_nat_u64 [of n] unat_of_nat_u64 [of "n + 8"]
    by (simp_all add: METADATA_SIZE_def)
  have "pow2_exp n \<le> 11"
    using assms by (intro pow2_exp_le) simp_all
  then have "(2 :: nat) ^ pow2_exp n \<le> 2 ^ 11"
    by (intro power_increasing) simp_all
  then have "\<not> PAGE_SIZE \<le> 2 ^ pow2_exp n"
    using \<open>pow2_exp n \<le> 11\<close> by (simp add: PAGE_SIZE_def word_le_nat_alt unat_pow2)
  then show ?thesis
    using n assms by (simp add: kmalloc_def next_pow_of_two_exp)
qed

lemma kmalloc_small_class:
  assumes "n \<le> 2040"
  shows "kmalloc cr4 h (of_nat n) = do {
    (ss, ptr) \<leftarrow> slab_alloc (h_slab h) (2 ^ Suc (kmalloc_class n));
    Some (h\<lparr>h_slab := ss, h_meta := (h_meta h)(ptr := \<lparr>md_size = 2 ^ Suc (kmalloc_class n)\<rparr>)\<rparr>,
          ptr + 8)}"
  using kmalloc_small [of n cr4 h] assms kmalloc_class_bounds(4) [OF assms]
  by (simp add: METADATA_SIZE_def del: power_Suc)

text \<open>The low twelve bits, which \<open>kfree\<close> dispatches on.\<close>

lemma and_0xFFF: "p AND 0xFFF = 0 \<longleftrightarrow> unat (p :: u64) mod 4096 = 0"
proof -
  have "p AND 0xFFF = take_bit 12 p"
    by (simp add: take_bit_eq_mask mask_eq_exp_minus_1)
  then have "unat (p AND 0xFFF) = unat p mod 4096"
    by (simp only:) (subst unsigned_take_bit_eq, simp add: take_bit_eq_mod)
  then show ?thesis by (metis unat_eq_zero)
qed

section \<open>Properties\<close>

text \<open>
  \<open>next_pow_of_two\<close> returns the least power of two that is at least 2 and at least its
  argument; for an argument above \<open>2 ^ 63\<close> its loop shifts the candidate out of the word and
  never ends.
\<close>

theorem next_pow_of_two_correct:
  "next_pow_of_two num =
    (if unat num \<le> 2 ^ 63 then Some (2 ^ (LEAST m. 1 \<le> m \<and> unat num \<le> 2 ^ m)) else None)"
  using next_pow_of_two_exp [of num] next_pow_of_two_diverges [of num] by (simp add: pow2_exp_def)

lemma kmalloc_small_result:
  assumes "slab_ok bs (h_slab h)" "n \<le> 2040" and "slab_avail (h_slab h) (kmalloc_class n) \<noteq> {}"
  shows "\<exists>h' p. kmalloc cr4 h (of_nat n) = Some (h', p + 8) \<and> p \<noteq> NULL \<and>
    p \<in> slab_avail (h_slab h) (kmalloc_class n) \<and> 8 + n \<le> 2 ^ Suc (kmalloc_class n) \<and>
    slab_ok bs (h_slab h') \<and>
    (\<forall>m. slab_avail (h_slab h') m =
       (if m = kmalloc_class n then slab_avail (h_slab h) m - {p} else slab_avail (h_slab h) m)) \<and>
    h_pmm h' = h_pmm h \<and> md_size (h_meta h' p) = 2 ^ Suc (kmalloc_class n) \<and>
    (\<forall>a. a \<noteq> p \<longrightarrow> h_meta h' a = h_meta h a)"
proof -
  note cls = kmalloc_class_bounds [OF assms(2)]
  obtain ss' p where *: "slab_alloc (h_slab h) (2 ^ Suc (kmalloc_class n)) = Some (ss', p)"
    "p \<in> slab_avail (h_slab h) (kmalloc_class n)" "p \<in> slots bs (kmalloc_class n)" "slab_ok bs ss'"
    "\<And>m. slab_avail ss' m = (if m = kmalloc_class n
       then slab_avail (h_slab h) (kmalloc_class n) - {p} else slab_avail (h_slab h) m)"
    using slab_alloc_avail [OF assms(1) cls(2) assms(3)] by metis
  have "p \<noteq> NULL"
    using slot_nonnull [OF _ cls(2) *(3)] assms(1) by (simp add: slab_ok_def)
  with * cls(3) show ?thesis
    by (simp add: kmalloc_small_class [OF assms(2)] del: power_Suc)
qed

text \<open>
  C17: a request of up to 2040 bytes, when its slab has an object, takes exactly that object:
  the block starts after a metadata word that holds the object's size, fits in the object, and
  neither the page allocator nor any other metadata word is touched.
\<close>

theorem kmalloc_small_block:
  assumes "slab_ok bs (h_slab h)" "n \<le> 2040" and "slab_avail (h_slab h) (kmalloc_class n) \<noteq> {}"
  shows "\<exists>h' p. kmalloc cr4 h (of_nat n) = Some (h', p + 8) \<and> p \<noteq> NULL \<and>
    p \<in> slab_avail (h_slab h) (kmalloc_class n) \<and> 8 + n \<le> 2 ^ Suc (kmalloc_class n) \<and>
    slab_ok bs (h_slab h') \<and>
    (\<forall>m. slab_avail (h_slab h') m =
       (if m = kmalloc_class n then slab_avail (h_slab h) m - {p} else slab_avail (h_slab h) m)) \<and>
    h_pmm h' = h_pmm h \<and> md_size (h_meta h' p) = 2 ^ Suc (kmalloc_class n) \<and>
    (\<forall>a. a \<noteq> p \<longrightarrow> h_meta h' a = h_meta h a)"
  using kmalloc_small_result [OF assms] .

definition heap_sample :: heap where
  "heap_sample = \<lparr>h_pmm = pmm_small, h_slab = slab_sample, h_meta = (\<lambda>a. \<lparr>md_size = 0\<rparr>)\<rparr>"

lemma kmalloc_class_8: "kmalloc_class 8 = 3"
  unfolding kmalloc_class_def by (subst pow2_exp_eqI [of 4]) simp_all

theorem kmalloc_small_block_witness:
  "\<exists>h' p. kmalloc 0 heap_sample 8 = Some (h', p + 8) \<and> p \<in> slots sample_bases 3 \<and>
    md_size (h_meta h' p) = 16"
  using kmalloc_small_block [of sample_bases heap_sample 8 0] slab_sample_ok
  by (auto simp: heap_sample_def kmalloc_class_8 slab_sample_avail slots_nonempty)

text \<open>Slabs that start at a multiple of 2048, as \<open>slab_init\<close> places them.\<close>

definition bases_aligned :: "(nat \<Rightarrow> u64) \<Rightarrow> bool" where
  "bases_aligned bs \<longleftrightarrow> (\<forall>i < 11. unat (bs i) mod 2048 = 0)"

lemma small_block_unaligned:
  assumes "bases_ok bs" "bases_aligned bs" "3 \<le> i" "i < 11" "p \<in> slots bs i"
  shows "(p + 8) AND 0xFFF \<noteq> 0"
proof -
  obtain j where j: "j < 2 ^ (10 - i)" "p = bs i + of_nat (j * 2 ^ Suc i)"
    using assms(5) by (auto simp: mem_slots)
  have p: "unat p = unat (bs i) + j * 2 ^ Suc i"
    using unat_slot [OF assms(1,4) j(1)] j(2) by simp
  have "unat p < unat (bs i) + 2048" "unat (bs i) + 2048 < 2 ^ 64"
    using slot_range [OF assms(1,4,5)] assms(1,4) by (auto simp: bases_ok_def)
  moreover have aligned: "unat (bs i) mod 2048 = 0"
    using assms(2,4) by (simp add: bases_aligned_def)
  have "16 dvd (2 :: nat) ^ Suc i"
    using assms(3) le_imp_power_dvd [of 4 "Suc i" "2 :: nat"] by simp
  moreover have "(16 :: nat) dvd 2048" by simp
  then have "16 dvd unat (bs i)"
    using aligned by (meson dvd_trans mod_eq_0_iff_dvd)
  ultimately have dvd: "16 dvd unat p" and small: "unat p + 8 < 2 ^ 64"
    using p by (auto intro!: dvd_add dvd_mult)
  obtain k where k: "unat p = 16 * k"
    using dvd by (rule dvdE)
  have "unat (p + 8) = unat p + 8"
    using small by (subst unat_add_u64) simp_all
  then have "unat (p + 8) mod 4096 mod 16 = (16 * k + 8) mod 16"
    using k by (subst mod_mod_cancel) simp_all
  also have "\<dots> = 8" by simp
  finally have "unat (p + 8) mod 4096 \<noteq> 0" by force
  then show ?thesis by (simp add: and_0xFFF)
qed

text \<open>
  C18: freeing a small block from the part of its slab that can be freed puts its object back:
  every slab has the same objects available as before the allocation, whatever the client
  wrote to memory in between. \<open>kfree\<close> recognises the block as a small one by its address.
\<close>

theorem kmalloc_kfree_small:
  assumes "slab_ok bs (h_slab h)" "bases_aligned bs" "1 \<le> n" "n \<le> 2040"
    and avail: "slab_avail (h_slab h) (kmalloc_class n) \<noteq> {}"
    and run: "kmalloc cr4 h (of_nat n) = Some (h1, ptr)"
    and low: "unat (ptr - 8) + 2 ^ Suc (kmalloc_class n) \<le> unat (bs (kmalloc_class n)) + 1024"
  shows "\<exists>h2. kfree cr4 (h1\<lparr>h_meta := client\<rparr>) ptr = Some h2 \<and> slab_ok bs (h_slab h2) \<and>
    (\<forall>m. slab_avail (h_slab h2) m = slab_avail (h_slab h) m) \<and> h_pmm h2 = h_pmm h"
proof -
  let ?i = "kmalloc_class n"
  note cls = kmalloc_class_bounds [OF assms(4)]
  obtain ss' p where *: "slab_alloc (h_slab h) (2 ^ Suc ?i) = Some (ss', p)"
    "p \<in> slab_avail (h_slab h) ?i" "p \<in> slots bs ?i" "slab_ok bs ss'" "p \<notin> set (slab_frees ss' ?i)"
    "\<And>m. slab_avail ss' m =
       (if m = ?i then slab_avail (h_slab h) ?i - {p} else slab_avail (h_slab h) m)"
    "\<not> is_full (slabs ss' ! ?i)"
    using slab_alloc_avail [OF assms(1) cls(2) avail] by metis
  have h1: "h_slab h1 = ss'" "h_pmm h1 = h_pmm h" "ptr = p + 8"
    using run *(1) by (auto simp: kmalloc_small_class [OF assms(4)] simp del: power_Suc)
  have bases: "bases_ok bs" using assms(1) by (simp add: slab_ok_def)
  have "3 \<le> ?i"
  proof (rule ccontr)
    assume "\<not> 3 \<le> ?i"
    then have "?i = 2" using cls(1) by simp
    then show False using cls(3) assms(3) by simp
  qed
  then have dispatch: "ptr AND 0xFFF \<noteq> 0"
    unfolding h1(3) by (rule small_block_unaligned [OF bases assms(2) _ cls(2) *(3)])
  then have nonnull: "ptr \<noteq> NULL" by auto
  have range: "in_free_range ss' ?i p"
    using in_free_range_iff [OF *(4) cls(2)] slot_range [OF bases cls(2) *(3)] low h1(3) by simp
  obtain ss2 where free: "slab_free ss' p = Some ss2" "slab_ok bs ss2"
    "set (slab_frees ss2 ?i) = insert p (set (slab_frees ss' ?i))"
    "\<forall>m. m \<noteq> ?i \<longrightarrow> slab_frees ss2 m = slab_frees ss' m"
    "\<forall>m. is_full (slabs ss2 ! m) = is_full (slabs ss' ! m)"
    using slab_free_back [OF *(4) cls(2) *(3,5) range] by blast
  have "slab_avail ss2 m = slab_avail (h_slab h) m" for m
  proof (cases "m = ?i")
    case True
    have "slab_avail ss2 ?i = insert p (slab_avail ss' ?i)"
      using free(3,5) *(7) by (simp add: slab_avail_def)
    with True show ?thesis using *(2) *(6) [of ?i] by auto
  next
    case False
    then show ?thesis using free(4,5) *(6) [of m] by (auto simp: slab_avail_def)
  qed
  then show ?thesis
    using free(1,2) dispatch nonnull h1 by (simp add: kfree_def METADATA_SIZE_def Let_def)
qed

lemma sample_bases_aligned: "bases_aligned sample_bases"
  unfolding bases_aligned_def less_11_cases
  by (auto simp: sample_bases_def slab_base_def page_ptr_def phys_to_higher_half_data_def
      is_la57_enabled_def HIGHER_HALF_DATA_LV4_def PAGE_SIZE_def)

theorem kmalloc_kfree_small_witness:
  "\<exists>h1 h2. kmalloc 0 heap_sample 8 = Some (h1, 0xFFFF800000101808) \<and>
    kfree 0 h1 0xFFFF800000101808 = Some h2 \<and> slab_avail (h_slab h2) 3 = slots sample_bases 3"
proof -
  obtain ss1 where "slab_alloc slab_sample (2 ^ Suc 3) = Some (ss1, sample_bases 3)"
    using slab_sample_alloc by blast
  then obtain h1 where run: "kmalloc 0 heap_sample (of_nat 8) = Some (h1, sample_bases 3 + 8)"
    using kmalloc_small_class [of 8 0 heap_sample] by (simp add: kmalloc_class_8 heap_sample_def)
  have ok: "slab_ok sample_bases (h_slab heap_sample)"
    using slab_sample_ok by (simp add: heap_sample_def)
  have avail: "slab_avail (h_slab heap_sample) (kmalloc_class 8) \<noteq> {}"
    by (simp add: kmalloc_class_8 heap_sample_def slab_sample_avail slots_nonempty)
  obtain h2 where "kfree 0 (h1\<lparr>h_meta := h_meta h1\<rparr>) (sample_bases 3 + 8) = Some h2"
    "\<forall>m. slab_avail (h_slab h2) m = slab_avail (h_slab heap_sample) m"
    using kmalloc_kfree_small [OF ok sample_bases_aligned _ _ avail run, of "h_meta h1"]
    by (auto simp: kmalloc_class_8)
  with run show ?thesis
    by (simp add: sample_bases_eq heap_sample_def slab_sample_avail)
qed

section \<open>Large blocks\<close>

lemma page_ptr_Suc: "page_ptr cr4 k + 4096 = page_ptr cr4 (Suc k)"
  by (simp add: page_ptr_def phys_to_higher_half_data_def PAGE_SIZE_def algebra_simps)

lemma page_ptr_aligned:
  assumes "k < 2 ^ 31"
  shows "page_ptr cr4 k AND 0xFFF = 0"
proof -
  have "((if is_la57_enabled cr4 then 0xFF00000000000000 else 0xFFFF800000000000 :: nat) + k * 4096)
      mod 4096 = 0"
    by simp
  then show ?thesis
    by (simp only: and_0xFFF unat_page_ptr [OF assms])
qed

text \<open>The pages of a block of \<open>n\<close> bytes: its power of two, and one page for the metadata.\<close>

definition kmalloc_pages :: "nat \<Rightarrow> nat" where
  "kmalloc_pages n = 2 ^ (pow2_exp n - 12) + 1"

lemma kmalloc_pages_word:
  assumes "2048 < n" "n \<le> 2 ^ 63"
  shows "12 \<le> pow2_exp n" "pow2_exp n < 64"
    and "unat ((2 ^ pow2_exp n :: u64) div PAGE_SIZE + 1) = kmalloc_pages n"
proof -
  show ge: "12 \<le> pow2_exp n"
  proof (rule ccontr)
    assume "\<not> 12 \<le> pow2_exp n"
    then have "(2 :: nat) ^ pow2_exp n \<le> 2 ^ 11"
      by (intro power_increasing) simp_all
    with pow2_exp_spec [of n] assms(1) show False by simp
  qed
  have "pow2_exp n \<le> 63"
    using assms(2) by (intro pow2_exp_le) simp_all
  then show lt: "pow2_exp n < 64" by simp
  have "(2 :: nat) ^ pow2_exp n div 4096 = 2 ^ (pow2_exp n - 12)"
    using ge power_diff [of "2 :: nat" 12 "pow2_exp n"] by simp
  then have div: "unat ((2 ^ pow2_exp n :: u64) div PAGE_SIZE) = 2 ^ (pow2_exp n - 12)"
    using lt by (simp add: PAGE_SIZE_def unat_div unat_pow2)
  have "(2 :: nat) ^ (pow2_exp n - 12) \<le> 2 ^ 51"
    using lt by (intro power_increasing) simp_all
  then show "unat ((2 ^ pow2_exp n :: u64) div PAGE_SIZE + 1) = kmalloc_pages n"
    using div by (subst unat_add_u64) (simp_all add: kmalloc_pages_def)
qed

lemma kmalloc_large:
  assumes "2048 < n" "n \<le> 2 ^ 63"
  shows "kmalloc cr4 h (of_nat n) = do {
    (pm, ptr) \<leftarrow> pmm_alloc cr4 (h_pmm h) (2 ^ pow2_exp n div PAGE_SIZE + 1);
    Some (h\<lparr>h_pmm := pm, h_meta := (h_meta h)(ptr := \<lparr>md_size = 2 ^ pow2_exp n\<rparr>)\<rparr>,
          ptr + PAGE_SIZE)}"
proof -
  note q = kmalloc_pages_word [OF assms]
  have n: "unat (of_nat n :: u64) = n"
    using assms(2) by (intro unat_of_nat_u64) simp
  have "(2 :: nat) ^ 12 \<le> 2 ^ pow2_exp n"
    using q(1) by (intro power_increasing) simp_all
  then have "PAGE_SIZE \<le> 2 ^ pow2_exp n"
    using q(2) by (simp add: PAGE_SIZE_def word_le_nat_alt unat_pow2)
  then show ?thesis
    using assms n by (simp add: kmalloc_def next_pow_of_two_exp)
qed

text \<open>
  C19: a request of more than 2048 bytes, when the pages after the first free page are free
  too, gets whole pages that hold it; \<open>kfree\<close> recognises the block as a large one and, as
  long as the client has left the metadata word alone, gives back exactly these pages.
\<close>

theorem kmalloc_kfree_large:
  assumes ok: "pmm_ok (h_pmm h)" and n: "2048 < n" "n \<le> 2 ^ 63"
    and run_free: "pmm_avail (h_pmm h) \<noteq> {}"
      "{Min (pmm_avail (h_pmm h))..<Min (pmm_avail (h_pmm h)) + kmalloc_pages n} \<subseteq> pmm_avail (h_pmm h)"
  defines "k \<equiv> Min (pmm_avail (h_pmm h))"
  shows "\<exists>h1. kmalloc cr4 h (of_nat n) = Some (h1, page_ptr cr4 (Suc k)) \<and>
    n \<le> (kmalloc_pages n - 1) * 4096 \<and>
    pmm_used (h_pmm h1) = pmm_used (h_pmm h) \<union> {k..<k + kmalloc_pages n} \<and>
    h_slab h1 = h_slab h \<and>
    (\<forall>client. client (page_ptr cr4 k) = h_meta h1 (page_ptr cr4 k) \<longrightarrow>
      (\<exists>h2. kfree cr4 (h1\<lparr>h_meta := client\<rparr>) (page_ptr cr4 (Suc k)) = Some h2 \<and>
        pmm_used (h_pmm h2) = pmm_used (h_pmm h) \<and>
        used_pages (pmm_info (h_pmm h2)) = used_pages (pmm_info (h_pmm h)) \<and>
        h_slab h2 = h_slab h))"
proof -
  let ?q = "kmalloc_pages n" and ?w = "(2 ^ pow2_exp n :: u64) div PAGE_SIZE + 1"
  note q = kmalloc_pages_word [OF n]
  have wf: "pmm_wf (h_pmm h)" using ok by (simp add: pmm_ok_def)
  have "k \<in> pmm_avail (h_pmm h)"
    using run_free(1) by (simp add: k_def)
  note kb = pmm_avail_bounds [OF wf this]
  have "2 \<le> ?q" by (simp add: kmalloc_pages_def)
  then have ends: "Suc k \<in> pmm_avail (h_pmm h)" "k + ?q - 1 \<in> pmm_avail (h_pmm h)"
    using run_free(2) by (auto simp: k_def)
  have fits: "k + ?q \<le> bm_cap (bitmap (h_pmm h))"
    using pmm_avail_bounds(3) [OF wf ends(2)] \<open>2 \<le> ?q\<close> by simp
  have used: "used_pages (pmm_info (h_pmm h)) \<noteq> 0"
    using ok by (auto simp: pmm_ok_def)
  have "?w \<noteq> 0"
    using q(3) \<open>2 \<le> ?q\<close> by auto
  then obtain pm1 where pm1: "pmm_alloc cr4 (h_pmm h) ?w = Some (pm1, page_ptr cr4 k)"
    "pmm_used pm1 = pmm_used (h_pmm h) \<union> {k..<k + ?q}"
    "used_pages (pmm_info pm1) = used_pages (pmm_info (h_pmm h)) + ucast ?w"
    "bm_cap (bitmap pm1) = bm_cap (bitmap (h_pmm h))"
    using pmm_alloc_first [OF wf used _ run_free(1), of ?w cr4] fits unfolding q(3) k_def by auto
  have idx: "unat (higher_half_data_to_phys cr4 (page_ptr cr4 k) div PAGE_SIZE) mod 2 ^ 32 = k"
    unfolding page_ptr_index [OF kb(4)] using kb(4) by (simp add: unat_of_nat_u64)
  obtain pm2 where pm2: "pmm_free cr4 pm1 (page_ptr cr4 k) ?w = Some pm2"
    "pmm_used pm2 = pmm_used pm1 - {k..<k + ?q}"
    "used_pages (pmm_info pm2) = used_pages (pmm_info pm1) - ucast ?w"
    using pmm_free_range [of pm1 cr4 "page_ptr cr4 k" k ?w] idx fits pm1(4) wf
    unfolding q(3) by (auto simp: pmm_wf_def)
  have same: "pmm_used pm2 = pmm_used (h_pmm h)"
    using pm1(2) pm2(2) run_free(2) by (auto simp: k_def pmm_avail_def)
  note lt = pmm_avail_bounds(4) [OF wf ends(1)]
  have "page_ptr cr4 (Suc k) - PAGE_SIZE = page_ptr cr4 k"
    by (simp add: PAGE_SIZE_def flip: page_ptr_Suc)
  note ptr = page_ptr_nonnull [OF lt, of cr4] page_ptr_aligned [OF lt, of cr4] this
  have "n \<le> 2 ^ pow2_exp n" using pow2_exp_spec by blast
  also have "\<dots> = (?q - 1) * 4096"
    using q(1) power_add [of "2 :: nat" "pow2_exp n - 12" 12] by (simp add: kmalloc_pages_def)
  finally have holds: "n \<le> (?q - 1) * 4096" .
  let ?h1 = "h\<lparr>h_pmm := pm1, h_meta := (h_meta h)(page_ptr cr4 k := \<lparr>md_size = 2 ^ pow2_exp n\<rparr>)\<rparr>"
  have "kmalloc cr4 h (of_nat n) = Some (?h1, page_ptr cr4 (Suc k))"
    using pm1(1) by (simp add: kmalloc_large [OF n] PAGE_SIZE_def page_ptr_Suc)
  moreover have "kfree cr4 (?h1\<lparr>h_meta := client\<rparr>) (page_ptr cr4 (Suc k)) =
      Some (?h1\<lparr>h_pmm := pm2, h_meta := client\<rparr>)"
    if "client (page_ptr cr4 k) = \<lparr>md_size = 2 ^ pow2_exp n\<rparr>" for client
    using ptr that pm2(1) by (simp add: kfree_def Let_def PAGE_SIZE_def)
  ultimately show ?thesis
    using pm1 pm2 same holds by (intro exI [of _ ?h1]) simp
qed

theorem kmalloc_kfree_large_witness:
  "\<exists>h1 h2. kmalloc 0 heap_sample 4096 = Some (h1, page_ptr 0 3) \<and>
    pmm_used (h_pmm h1) = {0, 1, 2, 3, 4} \<and>
    kfree 0 h1 (page_ptr 0 3) = Some h2 \<and> pmm_used (h_pmm h2) = {0, 1, 4}"
proof -
  have h: "h_pmm heap_sample = pmm_small" by (simp add: heap_sample_def)
  note min = pmm_small_Min
  have "pow2_exp 4096 = 12" by (rule pow2_exp_eqI) simp_all
  then have q: "kmalloc_pages 4096 = 2" by (simp add: kmalloc_pages_def)
  have "{2..<4} \<subseteq> pmm_avail pmm_small"
    by (auto simp: pmm_small_avail)
  then have pages: "{2..<2 + 2} \<subseteq> pmm_avail pmm_small" by simp
  note large = kmalloc_kfree_large [of heap_sample 4096 0, unfolded h min q pmm_small_used,
      OF pmm_small_ok _ _ pmm_small_nonempty pages]
  obtain h1 where h1: "kmalloc 0 heap_sample 4096 = Some (h1, page_ptr 0 3)"
    "pmm_used (h_pmm h1) = {0, 1, 4} \<union> {2..<4}"
    and rest: "\<forall>client. client (page_ptr 0 2) = h_meta h1 (page_ptr 0 2) \<longrightarrow>
      (\<exists>h2. kfree 0 (h1\<lparr>h_meta := client\<rparr>) (page_ptr 0 3) = Some h2 \<and>
        pmm_used (h_pmm h2) = {0, 1, 4} \<and>
        used_pages (pmm_info (h_pmm h2)) = used_pages (pmm_info pmm_small) \<and>
        h_slab h2 = h_slab heap_sample)"
    using large by auto
  have "\<exists>h2. kfree 0 h1 (page_ptr 0 3) = Some h2 \<and> pmm_used (h_pmm h2) = {0, 1, 4}"
    using rest [rule_format, of "h_meta h1"] by auto
  moreover have "{0, 1, 4} \<union> {2..<4} = {0, 1, 2, 3, 4 :: nat}" by auto
  ultimately show ?thesis using h1 by metis
qed

section \<open>Failure\<close>

text \<open>Failure is never reported. A request of at most 2048 bytes that no slab can serve -
  because its slab has nothing left, or because it is one of the sizes 2041 to 2048, for which
  \<open>kmalloc\<close> asks for an object of 4096 bytes that no slab has - returns the pointer 8 and
  stores the metadata word at address 0.
\<close>

lemma slab_alloc_4096: "slab_ok bs ss \<Longrightarrow> slab_alloc ss (2 ^ 12) = Some (ss, NULL)"
  unfolding slab_alloc_def
proof (rule slab_alloc_loop_other)
  fix m
  assume ok: "slab_ok bs ss" and "m < 0 + SLAB_COUNT"
  then have m: "m < 11" by (simp add: SLAB_COUNT_def)
  have "(2 :: u64) ^ Suc m \<noteq> 2 ^ 12"
    using m by (auto simp: less_11_cases)
  then show "slab_size (slabs ss ! m) \<noteq> 2 ^ 12"
    using slab_okD(1) [OF ok m] by simp
qed

theorem kmalloc_failure_not_reported:
  assumes "slab_ok bs (h_slab h)" "n \<le> 2048"
    and "n \<le> 2040 \<Longrightarrow> slab_avail (h_slab h) (kmalloc_class n) = {}"
  shows "\<exists>h'. kmalloc cr4 h (of_nat n) = Some (h', 8) \<and>
    h_meta h' NULL = \<lparr>md_size = 2 ^ pow2_exp (n + 8)\<rparr> \<and>
    (\<forall>m. slab_avail (h_slab h') m = slab_avail (h_slab h) m) \<and> h_pmm h' = h_pmm h"
proof -
  have "\<exists>ss. slab_alloc (h_slab h) (2 ^ pow2_exp (n + 8)) = Some (ss, NULL) \<and>
      (\<forall>m. slab_avail ss m = slab_avail (h_slab h) m)"
  proof (cases "n \<le> 2040")
    case True
    note cls = kmalloc_class_bounds [OF True]
    show ?thesis
      unfolding cls(4) using slab_alloc_none [OF assms(1) cls(2) assms(3) [OF True]] by blast
  next
    case False
    then have "pow2_exp (n + 8) = 12"
      using assms(2) by (intro pow2_exp_eqI) simp_all
    then show ?thesis
      using slab_alloc_4096 [OF assms(1)] by simp
  qed
  then obtain ss where "slab_alloc (h_slab h) (2 ^ pow2_exp (n + 8)) = Some (ss, NULL)"
    "\<forall>m. slab_avail ss m = slab_avail (h_slab h) m"
    by blast
  then show ?thesis
    by (simp add: kmalloc_small [OF assms(2)] METADATA_SIZE_def)
qed

theorem kmalloc_failure_not_reported_witness:
  "\<exists>h'. kmalloc 0 heap_sample 2048 = Some (h', 8) \<and> md_size (h_meta h' NULL) = 4096"
proof -
  have "pow2_exp 2056 = 12" by (rule pow2_exp_eqI) simp_all
  then show ?thesis
    using kmalloc_failure_not_reported [of sample_bases heap_sample 2048 0] slab_sample_ok
    by (auto simp: heap_sample_def)
qed

section \<open>Two blocks\<close>

lemma slot_end:
  assumes "bases_ok bs" "i < 11" "p \<in> slots bs i"
  shows "unat p + 2 ^ Suc i \<le> unat (bs i) + 2048"
proof -
  obtain j where j: "j < 2 ^ (10 - i)" "p = bs i + of_nat (j * 2 ^ Suc i)"
    using assms(3) by (auto simp: mem_slots)
  show ?thesis
    using unat_slot [OF assms(1,2) j(1)] slab_offset_bound [OF assms(2) j(1)]
    unfolding j(2) by linarith
qed

lemma slots_disjoint:
  assumes "bases_ok bs" "i < 11" "m < 11" "p \<in> slots bs i" "q \<in> slots bs m" "i \<noteq> m \<or> p \<noteq> q"
  shows "unat p + 2 ^ Suc i \<le> unat q \<or> unat q + 2 ^ Suc m \<le> unat p"
proof (cases "i = m")
  case True
  obtain j where j: "j < 2 ^ (10 - i)" "p = bs i + of_nat (j * 2 ^ Suc i)"
    using assms(4) by (auto simp: mem_slots)
  obtain k where k: "k < 2 ^ (10 - i)" "q = bs i + of_nat (k * 2 ^ Suc i)"
    using assms(5) True by (auto simp: mem_slots)
  have at: "unat p = unat (bs i) + j * 2 ^ Suc i" "unat q = unat (bs i) + k * 2 ^ Suc i"
    using unat_slot [OF assms(1,2)] j k by simp_all
  have "Suc j \<le> k \<or> Suc k \<le> j"
    using assms(6) True j k by (metis Suc_leI nat_neq_iff)
  then have "Suc j * 2 ^ Suc i \<le> k * 2 ^ Suc i \<or> Suc k * 2 ^ Suc i \<le> j * 2 ^ Suc i"
    using mult_le_mono1 by blast
  then show ?thesis
    unfolding at True [symmetric] by (simp only: mult_Suc) linarith
next
  case False
  have "unat (bs i) + 2048 \<le> unat (bs m) \<or> unat (bs m) + 2048 \<le> unat (bs i)"
    using assms(1-3) False by (simp add: bases_ok_def)
  then show ?thesis
    using slot_end [OF assms(1,2,4)] slot_end [OF assms(1,3,5)] slot_range [OF assms(1,2,4)]
      slot_range [OF assms(1,3,5)] by linarith
qed



end
