(* ===== verification/Kstring.thy ===== *)
theory Kstring
  imports Prelude
begin

text \<open>
  \<open>libs/libk/string/string.c\<close>: filling and comparing memory. Memory is a function from
  addresses to bytes; pointers wrap at 64 bits like the machine's.
\<close>

section \<open>Operations\<close>

text \<open>The value is an \<open>uint32_t\<close> of which the store keeps the low byte.\<close>

primrec memset_loop :: "(u64 \<Rightarrow> u8) \<Rightarrow> u64 \<Rightarrow> u32 \<Rightarrow> nat \<Rightarrow> (u64 \<Rightarrow> u8)" where
  "memset_loop mem buffer_pointer val 0 = mem"
| "memset_loop mem buffer_pointer val (Suc n) =
     memset_loop (mem(buffer_pointer := ucast val)) (buffer_pointer + 1) val n"

definition memset :: "(u64 \<Rightarrow> u8) \<Rightarrow> u64 \<Rightarrow> u32 \<Rightarrow> u64 \<Rightarrow> (u64 \<Rightarrow> u8) \<times> u64" where
  "memset mem pointer val sz = (memset_loop mem pointer val (unat sz), pointer)"

primrec memcmp_loop :: "(u64 \<Rightarrow> u8) \<Rightarrow> u64 \<Rightarrow> u64 \<Rightarrow> nat \<Rightarrow> int" where
  "memcmp_loop mem str1 str2 0 = 0"
| "memcmp_loop mem str1 str2 (Suc n) =
     (if mem str1 \<noteq> mem str2 then uint (mem str1) - uint (mem str2)
      else memcmp_loop mem (str1 + 1) (str2 + 1) n)"

definition memcmp :: "(u64 \<Rightarrow> u8) \<Rightarrow> u64 \<Rightarrow> u64 \<Rightarrow> u64 \<Rightarrow> int" where
  "memcmp mem string1 string2 n = memcmp_loop mem string1 string2 (unat n)"

section \<open>Lemmas\<close>

text \<open>The bytes from \<open>p\<close> on, as a list.\<close>

primrec bytes_at :: "(u64 \<Rightarrow> u8) \<Rightarrow> u64 \<Rightarrow> nat \<Rightarrow> u8 list" where
  "bytes_at mem p 0 = []"
| "bytes_at mem p (Suc n) = mem p # bytes_at mem (p + 1) n"

lemma length_bytes_at [simp]: "length (bytes_at mem p n) = n"
  by (induction n arbitrary: p) simp_all

lemma nth_bytes_at: "i < n \<Longrightarrow> bytes_at mem p n ! i = mem (p + of_nat i)"
proof (induction n arbitrary: p i)
  case (Suc n)
  then show ?case by (cases i) (simp_all add: add.assoc add.left_commute)
qed simp

text \<open>\<open>a\<close> lies in the \<open>n\<close> bytes from \<open>p\<close> on.\<close>

lemma offset_Suc:
  assumes "n < 2 ^ 64" and "a \<noteq> p"
  shows "unat (a - (p + 1) :: u64) < n \<longleftrightarrow> unat (a - p) < Suc n"
proof -
  have "a - p \<noteq> 0"
    using assms(2) by simp
  then have "unat (a - p - 1) = unat (a - p) - 1"
    by (rule unat_minus_one)
  moreover have "0 < unat (a - p)"
    using \<open>a - p \<noteq> 0\<close> by (simp add: unat_gt_0)
  ultimately show ?thesis
    by (simp add: diff_diff_eq) linarith
qed

lemma memset_loop_at:
  "n < 2 ^ 64 \<Longrightarrow>
   memset_loop mem p v n a = (if unat (a - p) < n then ucast v else mem a)"
proof (induction n arbitrary: mem p)
  case (Suc n)
  show ?case
  proof (cases "a = p")
    case True
    have "p - (p + 1) = - 1" by simp
    moreover have "unat (- 1 :: u64) = 2 ^ 64 - 1"
      by (simp add: unsigned_minus_1_eq_mask mask_eq_exp_minus_1)
    ultimately have "unat (p - (p + 1)) = 2 ^ 64 - 1" by metis
    with True Suc show ?thesis by simp
  next
    case False
    with Suc offset_Suc [of n a p] show ?thesis by simp
  qed
qed simp

lemma memcmp_loop_zero: "memcmp_loop mem p q n = 0 \<longleftrightarrow> bytes_at mem p n = bytes_at mem q n"
  by (induction n arbitrary: p q) (simp_all add: word_uint_eq_iff)

lemma memcmp_loop_swap: "memcmp_loop mem q p n = - memcmp_loop mem p q n"
proof (induction n arbitrary: p q)
  case (Suc n)
  show ?case using Suc.IH [of "q + 1" "p + 1"] by simp
qed simp

text \<open>The first byte that differs decides the sign.\<close>

lemma memcmp_loop_neg:
  "memcmp_loop mem p q n < 0 \<longleftrightarrow>
   (bytes_at mem p n, bytes_at mem q n) \<in> lexord {(a, b). a < b}"
proof (induction n arbitrary: p q)
  case (Suc n)
  then show ?case
    by (auto simp: word_less_def)
qed simp

section \<open>Results\<close>

text \<open>
  \<open>memset\<close> writes the low byte of the value to exactly the \<open>size\<close> bytes from the
  pointer on, leaves every other byte as it was, and returns the pointer.
\<close>

lemma memset_exact:
  "snd (memset mem p v sz) = p \<and>
   fst (memset mem p v sz) a = (if unat (a - p) < unat sz then ucast v else mem a)"
  using memset_loop_at [OF unat_lt_u64] by (simp add: memset_def)

text \<open>
  \<open>memcmp\<close> is 0 exactly when the two areas hold the same bytes and negative exactly
  when the first is lexicographically smaller, and swapping the arguments swaps the sign.
\<close>

lemma memcmp_lexicographic:
  "(memcmp mem p q n = 0 \<longleftrightarrow> bytes_at mem p (unat n) = bytes_at mem q (unat n)) \<and>
   (memcmp mem p q n < 0 \<longleftrightarrow>
      (bytes_at mem p (unat n), bytes_at mem q (unat n)) \<in> lexord {(a, b). a < b}) \<and>
   memcmp mem q p n = - memcmp mem p q n"
  unfolding memcmp_def memcmp_loop_zero memcmp_loop_neg
  using memcmp_loop_swap [of mem q p "unat n"] by blast

end
