(* ===== verification/Acpi.thy ===== *)
theory Acpi
  imports Kmalloc Store64 Kstring
begin

text \<open>
  \<open>firmware/acpi\<close>: the tables of the firmware. Memory is a function from virtual addresses to
  bytes; the tables are read in place, and the arrays of found records are written to heap
  blocks in the same memory. The addresses of the string literals are parameters. \<open>None\<close> is
  undefined behaviour or a loop that does not end, \<open>Halted\<close> is the machine that the code stops. Log output, which
  changes nothing of this state, is left out.
\<close>

datatype 'a outcome = Halted | Running 'a

section \<open>Tables in memory\<close>

text \<open>\<open>sdt_header_t\<close>: 36 packed bytes.\<close>

definition sizeof_sdt_header :: u64 where "sizeof_sdt_header = 36"

definition sdt_signature :: "u64 \<Rightarrow> u64" where "sdt_signature hdr = hdr"

definition sdt_length :: "(u64 \<Rightarrow> u8) \<Rightarrow> u64 \<Rightarrow> u32" where
  "sdt_length mem hdr = load32 mem (hdr + 4)"

text \<open>\<open>rsdt_structure_t\<close>: a header, then 32-bit physical addresses.\<close>

definition rsdt_entry :: "(u64 \<Rightarrow> u8) \<Rightarrow> u64 \<Rightarrow> u64 \<Rightarrow> u32" where
  "rsdt_entry mem rsdt i = load32 mem (rsdt + sizeof_sdt_header + 4 * i)"

text \<open>\<open>rsdp_structure_t\<close>: the revision and the address of the root table.\<close>

definition rsdp_revision :: "(u64 \<Rightarrow> u8) \<Rightarrow> u64 \<Rightarrow> u8" where
  "rsdp_revision mem rsdp = mem (rsdp + 15)"

definition rsdp_rsdt_address :: "(u64 \<Rightarrow> u8) \<Rightarrow> u64 \<Rightarrow> u32" where
  "rsdp_rsdt_address mem rsdp = load32 mem (rsdp + 16)"

text \<open>\<open>madt_structure_t\<close>: a header, two 32-bit fields, then the records.\<close>

definition madt_table_start :: "u64 \<Rightarrow> u64" where
  "madt_table_start madt = madt + sizeof_sdt_header + 8"

definition PROCESSOR_LOCAL_APIC :: u8 where "PROCESSOR_LOCAL_APIC = 0x0"
definition IO_APIC :: u8 where "IO_APIC = 0x1"
definition INTERRUPT_SOURCE_OVERRIDE :: u8 where "INTERRUPT_SOURCE_OVERRIDE = 0x2"
definition LAPIC_NMI :: u8 where "LAPIC_NMI = 0x4"

lemmas madt_entry_types =
  PROCESSOR_LOCAL_APIC_def IO_APIC_def INTERRUPT_SOURCE_OVERRIDE_def LAPIC_NMI_def

section \<open>State\<close>

record acpi_state =
  a_mem :: "u64 \<Rightarrow> u8"
  a_heap :: heap
  rsdp :: u64
  has_xsdt_var :: bool
  rsdt :: u64
  madt :: u64
  madt_lapics :: u64
  madt_io_apics :: u64
  madt_isos :: u64
  madt_lapic_nmis :: u64
  madt_lapics_i :: u64
  madt_io_apics_i :: u64
  madt_isos_i :: u64
  madt_lapic_nmis_i :: u64

section \<open>The root pointer\<close>

definition rsdp_verify_checksum :: "(u64 \<Rightarrow> u8) \<Rightarrow> u64 \<Rightarrow> unit outcome" where
  "rsdp_verify_checksum mem rsdp_address =
     (let checksum = foldl (\<lambda>checksum i. checksum + mem (rsdp_address + of_nat i)) 0 [0..<20]
      in if checksum AND 0xFF = 0x00 then Running () else Halted)"

definition rsdp_init :: "u64 \<Rightarrow> acpi_state \<Rightarrow> acpi_state outcome" where
  "rsdp_init rsdp_address st =
     (case rsdp_verify_checksum (a_mem st) rsdp_address of
        Halted \<Rightarrow> Halted
      | Running u \<Rightarrow>
          (let st = st\<lparr>rsdp := rsdp_address\<rparr>
           in Running (if 2 \<le> rsdp_revision (a_mem st) (rsdp st) then st\<lparr>has_xsdt_var := True\<rparr> else st)))"

section \<open>Checking and finding tables\<close>

text \<open>The loop counter is a byte, the length has 32 bits.\<close>

partial_function (option) checksum_loop :: "(u64 \<Rightarrow> u8) \<Rightarrow> u64 \<Rightarrow> u32 \<Rightarrow> u8 \<Rightarrow> u8 \<Rightarrow> u8 option" where
  "checksum_loop mem ptr len i checksum =
     (if ucast i < len then checksum_loop mem ptr len (i + 1) (checksum + mem (ptr + ucast i))
      else Some checksum)"

definition acpi_verify_sdt_header_checksum :: "(u64 \<Rightarrow> u8) \<Rightarrow> u64 \<Rightarrow> int option" where
  "acpi_verify_sdt_header_checksum mem sdt_header = do {
     checksum \<leftarrow> checksum_loop mem sdt_header (sdt_length mem sdt_header) 0 0;
     Some (if checksum AND 0xFF = 0 then 0 else 1)
   }"

definition acpi_check_sdt_header :: "(u64 \<Rightarrow> u8) \<Rightarrow> u64 \<Rightarrow> u64 \<Rightarrow> int option" where
  "acpi_check_sdt_header mem sdt_header signature =
     (if memcmp mem (sdt_signature sdt_header) signature 4 = 0 then do {
        bad \<leftarrow> acpi_verify_sdt_header_checksum mem sdt_header;
        Some (if bad = 0 then 0 else 1)
      }
      else Some 1)"

text \<open>The search from entry \<open>i\<close> on, with \<open>n\<close> entries left.\<close>

primrec find_table_loop :: "u64 \<Rightarrow> acpi_state \<Rightarrow> u64 \<Rightarrow> u64 \<Rightarrow> nat \<Rightarrow> u64 option" where
  "find_table_loop cr4 st signature i 0 = Some NULL"
| "find_table_loop cr4 st signature i (Suc n) =
     (let current_entry = ucast (rsdt_entry (a_mem st) (rsdt st) i) in do {
        bad \<leftarrow> acpi_check_sdt_header (a_mem st) current_entry signature;
        if bad = 0 then Some (phys_to_higher_half_data cr4 current_entry)
        else find_table_loop cr4 st signature (i + 1) n
      })"

definition entry_count :: "acpi_state \<Rightarrow> u64" where
  "entry_count st =
     (ucast (sdt_length (a_mem st) (rsdt st)) - sizeof_sdt_header) div (if has_xsdt_var st then 8 else 4)"

definition acpi_find_sdt_table :: "u64 \<Rightarrow> acpi_state \<Rightarrow> u64 \<Rightarrow> u64 option" where
  "acpi_find_sdt_table cr4 st signature = find_table_loop cr4 st signature 0 (unat (entry_count st))"

section \<open>The interrupt controllers' table\<close>

text \<open>An array is a heap block of 256 bytes: a pointer stored past its 32 words is undefined.\<close>

definition array_store :: "(u64 \<Rightarrow> u8) \<Rightarrow> u64 \<Rightarrow> u64 \<Rightarrow> u64 \<Rightarrow> (u64 \<Rightarrow> u8) option" where
  "array_store mem arr i p = (if i < 32 then Some (store64 mem (arr + 8 * i) p) else None)"

definition madt_record :: "u64 \<Rightarrow> acpi_state \<Rightarrow> acpi_state option" where
  "madt_record table_ptr st =
     (let entry_type = a_mem st table_ptr in
      if entry_type = PROCESSOR_LOCAL_APIC then do {
        m \<leftarrow> array_store (a_mem st) (madt_lapics st) (madt_lapics_i st) table_ptr;
        Some (st\<lparr>a_mem := m, madt_lapics_i := madt_lapics_i st + 1\<rparr>)
      }
      else if entry_type = IO_APIC then do {
        m \<leftarrow> array_store (a_mem st) (madt_io_apics st) (madt_io_apics_i st) table_ptr;
        Some (st\<lparr>a_mem := m, madt_io_apics_i := madt_io_apics_i st + 1\<rparr>)
      }
      else if entry_type = INTERRUPT_SOURCE_OVERRIDE then do {
        m \<leftarrow> array_store (a_mem st) (madt_isos st) (madt_isos_i st) table_ptr;
        Some (st\<lparr>a_mem := m, madt_isos_i := madt_isos_i st + 1\<rparr>)
      }
      else if entry_type = LAPIC_NMI then do {
        m \<leftarrow> array_store (a_mem st) (madt_lapic_nmis st) (madt_lapic_nmis_i st) table_ptr;
        Some (st\<lparr>a_mem := m, madt_lapic_nmis_i := madt_lapic_nmis_i st + 1\<rparr>)
      }
      else Some st)"

partial_function (option) madt_loop :: "u64 \<Rightarrow> u64 \<Rightarrow> acpi_state \<Rightarrow> acpi_state option" where
  "madt_loop table_end table_ptr st =
     (if table_ptr < table_end then do {
        st \<leftarrow> madt_record table_ptr st;
        madt_loop table_end (table_ptr + ucast (a_mem st (table_ptr + 1))) st
      }
      else Some st)"

definition madt_init :: "u64 \<Rightarrow> u64 \<Rightarrow> acpi_state \<Rightarrow> acpi_state outcome option" where
  "madt_init cr4 str_APIC st = do {
     table \<leftarrow> acpi_find_sdt_table cr4 st str_APIC;
     let st = st\<lparr>madt := table\<rparr>;
     if madt st = NULL then Some Halted
     else do {
       (h, p) \<leftarrow> kmalloc cr4 (a_heap st) 256;
       let st = st\<lparr>a_heap := h, madt_lapics := p\<rparr>;
       (h, p) \<leftarrow> kmalloc cr4 (a_heap st) 256;
       let st = st\<lparr>a_heap := h, madt_io_apics := p\<rparr>;
       (h, p) \<leftarrow> kmalloc cr4 (a_heap st) 256;
       let st = st\<lparr>a_heap := h, madt_isos := p\<rparr>;
       (h, p) \<leftarrow> kmalloc cr4 (a_heap st) 256;
       let st = st\<lparr>a_heap := h, madt_lapic_nmis := p\<rparr>;
       st \<leftarrow> madt_loop (madt st + ucast (sdt_length (a_mem st) (madt st))) (madt_table_start (madt st)) st;
       Some (Running st)
     }
   }"

section \<open>Initialisation\<close>

text \<open>
  \<open>tags\<close> is the memory of the boot loader's tags; the address in the tag of the root
  pointer follows its 16 bytes of header.
\<close>

definition acpi_init ::
    "u64 \<Rightarrow> u64 \<Rightarrow> u64 \<Rightarrow> (u64 \<Rightarrow> stivale2_tag option) \<Rightarrow> u64 \<Rightarrow> acpi_state \<Rightarrow> acpi_state outcome option" where
  "acpi_init cr4 str_RSDT str_APIC tags first_tag st = do {
     rsdp_tag \<leftarrow> stivale2_get_tag tags first_tag STIVALE2_STRUCT_TAG_RSDP_ID;
     if rsdp_tag = NULL then None
     else
       (case rsdp_init (load64 (a_mem st) (rsdp_tag + 16)) st of
          Halted \<Rightarrow> Some Halted
        | Running st \<Rightarrow>
            (let st = st\<lparr>rsdt := phys_to_higher_half_data cr4 (ucast (rsdp_rsdt_address (a_mem st) (rsdp st)))\<rparr> in do {
               bad \<leftarrow> acpi_check_sdt_header (a_mem st) (rsdt st) str_RSDT;
               if bad \<noteq> 0 then Some Halted else madt_init cr4 str_APIC st
             }))
   }"

section \<open>Checksums\<close>

lemma byte_len [simp]: "unat (ucast (i :: u8) :: u32) = unat i"
  by transfer (simp add: take_bit_take_bit)

lemma byte_less [simp]: "ucast (i :: u8) < (len :: u32) \<longleftrightarrow> unat i < unat len"
  by (simp add: word_less_nat_alt del: unsigned_ucast_eq)

lemma checksum_loop_sum:
  assumes "unat len < 256" "unat i \<le> unat len"
  shows "checksum_loop mem ptr len i c =
    Some (c + sum_list (map (\<lambda>j. mem (ptr + of_nat j)) [unat i..<unat len]))"
  using assms
proof (induction "unat len - unat i" arbitrary: i c)
  case 0
  then have "\<not> ucast i < len" by simp
  with 0 show ?case by (subst checksum_loop.simps) simp
next
  case (Suc d)
  then have less: "unat i < unat len" by simp
  have idx: "unat (i + 1) = unat i + 1" using less Suc.prems(1) by (simp add: unat_word_ariths)
  have "ucast i < len" using less by simp
  moreover have "checksum_loop mem ptr len (i + 1) (c + mem (ptr + ucast i)) =
      Some (c + mem (ptr + ucast i) + sum_list (map (\<lambda>j. mem (ptr + of_nat j)) [unat (i + 1)..<unat len]))"
    by (rule Suc.hyps(1)) (use Suc.hyps(2) Suc.prems less idx in simp_all)
  ultimately show ?case
    using less by (subst checksum_loop.simps) (simp add: idx upt_conv_Cons [of "unat i"] add.assoc)
qed

lemma checksum_loop_diverges:
  assumes "256 \<le> unat len"
  shows "checksum_loop mem ptr len i c = None"
proof (rule ccontr)
  assume "checksum_loop mem ptr len i c \<noteq> None"
  then obtain r where r: "checksum_loop mem ptr len i c = Some r" by blast
  have "unat len < 256"
  proof (rule checksum_loop.raw_induct [where P = "\<lambda>mem ptr len i c r. unat len < 256", OF _ r])
    fix f mem ptr and len :: u32 and i c r
    assume IH: "\<And>mem ptr len i c r. f mem ptr len i c = Some r \<Longrightarrow> unat len < 256"
      and eq: "(if ucast (i :: u8) < len then f mem ptr len (i + 1) (c + mem (ptr + ucast i)) else Some c) = Some r"
    have "unat i < 256" using unsigned_less [of i] by simp
    then show "unat len < 256"
      using IH eq by (auto simp: split: if_splits)
  qed
  with assms show False by simp
qed

lemma bytes_at_map: "bytes_at mem p n = map (\<lambda>j. mem (p + of_nat j)) [0..<n]"
  by (rule nth_equalityI) (simp_all add: nth_bytes_at)

lemma u8_and_mask: "(c :: u8) AND 0xFF = c"
  proof -
  have "(0xFF :: u8) = mask 8" by (simp add: mask_eq_exp_minus_1)
  moreover have "c AND mask 8 = c" by (simp add: take_bit_word_eq_self flip: take_bit_eq_mask)
  ultimately show ?thesis by (simp only:)
qed

lemma check_header:
  "acpi_check_sdt_header mem hdr signature =
   (if bytes_at mem hdr 4 \<noteq> bytes_at mem signature 4 then Some 1
    else if 256 \<le> unat (sdt_length mem hdr) then None
    else Some (if sum_list (bytes_at mem hdr (unat (sdt_length mem hdr))) = 0 then 0 else 1))"
  by (simp add: acpi_check_sdt_header_def acpi_verify_sdt_header_checksum_def memcmp_def memcmp_loop_zero
    sdt_signature_def checksum_loop_diverges checksum_loop_sum bytes_at_map [of _ _ "unat _"] u8_and_mask not_le)

lemma rsdp_checksum: "rsdp_verify_checksum mem p = (if sum_list (bytes_at mem p 20) = 0 then Running () else Halted)"
proof -
  have "foldl (\<lambda>c j. c + mem (p + of_nat j)) c js = c + sum_list (map (\<lambda>j. mem (p + of_nat j)) js)" for c and js :: "nat list"
    by (induction js arbitrary: c) (simp_all add: add.assoc)
  then show ?thesis by (simp add: rsdp_verify_checksum_def bytes_at_map u8_and_mask)
qed

section \<open>Finding a table\<close>

definition table_ok :: "(u64 \<Rightarrow> u8) \<Rightarrow> u64 \<Rightarrow> u64 \<Rightarrow> bool" where
  "table_ok mem signature e \<longleftrightarrow> bytes_at mem e 4 = bytes_at mem signature 4 \<and>
     sum_list (bytes_at mem e (unat (sdt_length mem e))) = 0"

definition root_entries :: "acpi_state \<Rightarrow> u64 list" where
  "root_entries st = map (\<lambda>i. ucast (rsdt_entry (a_mem st) (rsdt st) (of_nat i)))
     [0..<(unat (sdt_length (a_mem st) (rsdt st)) - 36) div (if has_xsdt_var st then 8 else 4)]"

lemma check_header_bad:
  assumes "bytes_at mem e 4 = bytes_at mem signature 4 \<longrightarrow> unat (sdt_length mem e) < 256"
  shows "acpi_check_sdt_header mem e signature = Some (if table_ok mem signature e then 0 else 1)"
  using assms by (auto simp: check_header table_ok_def)

lemma find_table_loop_first:
  assumes "\<forall>j < n. let e = ucast (rsdt_entry (a_mem st) (rsdt st) (of_nat (i + j))) in
      bytes_at (a_mem st) e 4 = bytes_at (a_mem st) signature 4 \<longrightarrow> unat (sdt_length (a_mem st) e) < 256"
  shows "find_table_loop cr4 st signature (of_nat i) n =
    Some (case find (table_ok (a_mem st) signature) (map (\<lambda>i. ucast (rsdt_entry (a_mem st) (rsdt st) (of_nat i))) [i..<i + n])
          of None \<Rightarrow> NULL | Some e \<Rightarrow> phys_to_higher_half_data cr4 e)"
  using assms
proof (induction n arbitrary: i)
  case (Suc n)
  have "\<forall>j < n. let e = ucast (rsdt_entry (a_mem st) (rsdt st) (of_nat (Suc i + j))) in
      bytes_at (a_mem st) e 4 = bytes_at (a_mem st) signature 4 \<longrightarrow> unat (sdt_length (a_mem st) e) < 256"
    using Suc.prems by (metis Suc_less_eq add_Suc_shift)
  note rest = Suc.IH [OF this]
  have next_i: "(of_nat i + 1 :: u64) = of_nat (Suc i)" by simp
  have "[i..<i + Suc n] = i # [Suc i..<Suc i + n]" by (simp add: upt_conv_Cons)
  moreover have "acpi_check_sdt_header (a_mem st) (ucast (rsdt_entry (a_mem st) (rsdt st) (of_nat i))) signature =
      Some (if table_ok (a_mem st) signature (ucast (rsdt_entry (a_mem st) (rsdt st) (of_nat i))) then 0 else 1)"
    using Suc.prems by (intro check_header_bad) (auto simp: Let_def)
  ultimately show ?case
    using rest by (simp add: Let_def next_i del: of_nat_Suc)
qed simp

lemma unat_entry_count:
  assumes "36 \<le> unat (sdt_length (a_mem st) (rsdt st))"
  shows "unat (entry_count st) = (unat (sdt_length (a_mem st) (rsdt st)) - 36) div (if has_xsdt_var st then 8 else 4)"
proof -
  have len: "unat (ucast (w :: u32) :: u64) = unat w" for w
    by transfer (simp add: take_bit_take_bit)
  then have "(36 :: u64) \<le> ucast (sdt_length (a_mem st) (rsdt st))"
    using assms by (simp add: word_le_nat_alt)
  then show ?thesis
    by (simp add: entry_count_def sizeof_sdt_header_def unat_div unat_sub_u64 len)
qed

lemma find_table_first:
  assumes "36 \<le> unat (sdt_length (a_mem st) (rsdt st))"
    and "\<forall>e \<in> set (root_entries st). bytes_at (a_mem st) e 4 = bytes_at (a_mem st) signature 4 \<longrightarrow>
      unat (sdt_length (a_mem st) e) < 256"
  shows "acpi_find_sdt_table cr4 st signature =
    Some (case find (table_ok (a_mem st) signature) (root_entries st)
          of None \<Rightarrow> NULL | Some e \<Rightarrow> phys_to_higher_half_data cr4 e)"
  using find_table_loop_first [of "unat (entry_count st)" st 0 signature cr4] assms
  by (simp add: acpi_find_sdt_table_def unat_entry_count root_entries_def Let_def)

section \<open>The records of the interrupt controllers' table\<close>

definition kinds :: "u8 set" where
  "kinds = {PROCESSOR_LOCAL_APIC, IO_APIC, INTERRUPT_SOURCE_OVERRIDE, LAPIC_NMI}"

definition arr_base :: "acpi_state \<Rightarrow> u8 \<Rightarrow> u64" where
  "arr_base st k = (if k = PROCESSOR_LOCAL_APIC then madt_lapics st else if k = IO_APIC then madt_io_apics st
     else if k = INTERRUPT_SOURCE_OVERRIDE then madt_isos st else madt_lapic_nmis st)"

definition arr_i :: "acpi_state \<Rightarrow> u8 \<Rightarrow> u64" where
  "arr_i st k = (if k = PROCESSOR_LOCAL_APIC then madt_lapics_i st else if k = IO_APIC then madt_io_apics_i st
     else if k = INTERRUPT_SOURCE_OVERRIDE then madt_isos_i st else madt_lapic_nmis_i st)"

text \<open>The addresses of the records from \<open>p\<close> to the end \<open>e\<close> of the table.\<close>

inductive madt_table :: "(u64 \<Rightarrow> u8) \<Rightarrow> u64 \<Rightarrow> u64 \<Rightarrow> u64 list \<Rightarrow> bool" for mem and e where
  madt_end: "\<not> p < e \<Longrightarrow> madt_table mem e p []"
| madt_next: "p < e \<Longrightarrow> madt_table mem e (p + ucast (mem (p + 1))) ps \<Longrightarrow> madt_table mem e p (p # ps)"

definition found :: "(u64 \<Rightarrow> u8) \<Rightarrow> u8 \<Rightarrow> u64 list \<Rightarrow> u64 list" where
  "found mem k ps = filter (\<lambda>p. mem p = k) ps"

text \<open>The four arrays are aligned and lie apart; \<open>in_arrays\<close> is their memory.\<close>

definition arrays_apart :: "acpi_state \<Rightarrow> bool" where
  "arrays_apart st \<longleftrightarrow> (\<forall>k \<in> kinds. aligned8 (arr_base st k) \<and> unat (arr_base st k) + 256 \<le> 2 ^ 64 \<and>
     (\<forall>k' \<in> kinds. k \<noteq> k' \<longrightarrow> unat (arr_base st k) + 256 \<le> unat (arr_base st k') \<or>
        unat (arr_base st k') + 256 \<le> unat (arr_base st k)))"

definition in_arrays :: "acpi_state \<Rightarrow> u64 \<Rightarrow> bool" where
  "in_arrays st a \<longleftrightarrow> (\<exists>k \<in> kinds. unat (arr_base st k) \<le> unat a \<and> unat a < unat (arr_base st k) + 256)"

definition madt_holds :: "(u64 \<Rightarrow> u8) \<Rightarrow> u64 list \<Rightarrow> acpi_state \<Rightarrow> bool" where
  "madt_holds m ps st \<longleftrightarrow>
     (\<forall>k \<in> kinds. unat (arr_i st k) = length (found m k ps) \<and>
        (\<forall>j < length (found m k ps). load64 (a_mem st) (arr_base st k + 8 * of_nat j) = found m k ps ! j)) \<and>
     (\<forall>a. \<not> in_arrays st a \<longrightarrow> a_mem st a = m a)"

lemma unat_array_word:
  assumes "arrays_apart st" "k \<in> kinds" "j < 32"
  shows "unat (arr_base st k + 8 * of_nat j) = unat (arr_base st k) + 8 * j"
proof -
  have "unat (8 * of_nat j :: u64) = 8 * j"
    using assms(3) unat_of_nat_u64 [of "8 * j"] by simp
  moreover have "unat (arr_base st k) + 256 \<le> 2 ^ 64" using assms(1,2) by (simp add: arrays_apart_def)
  ultimately show ?thesis using assms(3) by (subst unat_add_u64) simp_all
qed

lemma array_word_aligned:
  assumes "arrays_apart st" "k \<in> kinds" "j < 32"
  shows "aligned8 (arr_base st k + 8 * of_nat j)"
proof -
  have "unat (arr_base st k) mod 8 = 0" using assms(1,2) by (simp add: arrays_apart_def aligned8_def)
  then show ?thesis unfolding aligned8_def unat_array_word [OF assms] by simp
qed

lemma array_word_inj:
  assumes "arrays_apart st" "k \<in> kinds" "k' \<in> kinds" "j < 32" "j' < 32"
    and "arr_base st k + 8 * of_nat j = arr_base st k' + 8 * of_nat j'"
  shows "k = k' \<and> j = j'"
proof -
  have "unat (arr_base st k) + 8 * j = unat (arr_base st k') + 8 * j'"
    using unat_array_word [OF assms(1,2,4)] unat_array_word [OF assms(1,3,5)] assms(6) by simp
  moreover have "k = k' \<or> unat (arr_base st k) + 256 \<le> unat (arr_base st k') \<or>
      unat (arr_base st k') + 256 \<le> unat (arr_base st k)"
    using assms(1-3) unfolding arrays_apart_def by blast
  ultimately show ?thesis using assms(4,5) by auto
qed

lemma store_in_array:
  assumes "arrays_apart st" "k \<in> kinds" "j < 32" "\<not> in_arrays st a"
  shows "store64 m (arr_base st k + 8 * of_nat j) v a = m a"
proof -
  let ?b = "arr_base st k + 8 * of_nat j"
  have "\<not> a - ?b < 8"
  proof
    assume less: "a - ?b < 8"
    define i where "i = unat (a - ?b)"
    have i: "i < 8" "a = ?b + of_nat i" using less by (simp_all add: i_def word_less_nat_alt)
    have "unat a = unat (arr_base st k) + 8 * j + i"
      using aligned8_offset [OF array_word_aligned [OF assms(1-3)] i(1)] i(2) unat_array_word [OF assms(1-3)] by simp
    then show False using assms(2-4) i(1) by (auto simp: in_arrays_def)
  qed
  then show ?thesis by (simp add: store64_def)
qed

lemma madt_record_kind:
  assumes "a_mem st p \<in> kinds" "unat (arr_i st (a_mem st p)) < 32"
  shows "\<exists>st'. madt_record p st = Some st' \<and> arr_base st' = arr_base st \<and>
    (\<forall>k \<in> kinds. arr_i st' k = (if k = a_mem st p then arr_i st k + 1 else arr_i st k)) \<and>
    a_mem st' = store64 (a_mem st) (arr_base st (a_mem st p) + 8 * arr_i st (a_mem st p)) p \<and>
    a_heap st' = a_heap st"
  using assms
  by (auto simp: kinds_def madt_record_def array_store_def arr_i_def arr_base_def madt_entry_types fun_eq_iff
    word_less_nat_alt)

lemma madt_record_skip: "a_mem st p \<notin> kinds \<Longrightarrow> madt_record p st = Some st"
  by (simp add: kinds_def madt_record_def)

lemma madt_record_step:
  assumes "arrays_apart st" "madt_holds m ps st" "\<not> in_arrays st p"
    and "\<forall>k \<in> kinds. length (found m k (ps @ [p])) \<le> 32"
  shows "\<exists>st'. madt_record p st = Some st' \<and> madt_holds m (ps @ [p]) st' \<and> arr_base st' = arr_base st \<and>
    a_heap st' = a_heap st"
proof (cases "m p \<in> kinds")
  case False
  have "a_mem st p = m p" using assms(2,3) by (simp add: madt_holds_def)
  then have "madt_record p st = Some st" using False by (intro madt_record_skip) simp
  moreover have "found m k (ps @ [p]) = found m k ps" if "k \<in> kinds" for k
    using False that by (auto simp: found_def)
  ultimately show ?thesis using assms(2) by (simp add: madt_holds_def)
next
  case True
  let ?k = "m p" and ?n = "length (found m (m p) ps)"
  have at: "a_mem st p = ?k" using assms(2,3) by (simp add: madt_holds_def)
  have i: "unat (arr_i st ?k) = ?n" using assms(2) True by (simp add: madt_holds_def)
  have n: "?n < 32" using assms(4) True by (force simp: found_def)
  have iw: "arr_i st ?k = of_nat ?n" using i by (metis of_nat_unat ucast_id)
  obtain st' where st': "madt_record p st = Some st'" "arr_base st' = arr_base st"
    "\<forall>k \<in> kinds. arr_i st' k = (if k = ?k then arr_i st k + 1 else arr_i st k)"
    "a_mem st' = store64 (a_mem st) (arr_base st ?k + 8 * arr_i st ?k) p" "a_heap st' = a_heap st"
    using madt_record_kind [of st p, unfolded at] True i n by metis
  note mem = st'(4) [unfolded iw]
  have same: "in_arrays st' = in_arrays st" using st'(2) by (simp add: in_arrays_def fun_eq_iff)
  have load: "load64 (a_mem st') (arr_base st k + 8 * of_nat j) =
      (if k = ?k \<and> j = ?n then p else load64 (a_mem st) (arr_base st k + 8 * of_nat j))"
    if "k \<in> kinds" "j < 32" for k j
    using array_word_inj [OF assms(1) that(1) True that(2) n]
      load64_store64_other [OF array_word_aligned [OF assms(1) that] array_word_aligned [OF assms(1) True n]]
    unfolding mem by (cases "k = ?k \<and> j = ?n") auto
  have "madt_holds m (ps @ [p]) st'"
    unfolding madt_holds_def
  proof (intro conjI ballI)
    fix k
    assume k: "k \<in> kinds"
    have old: "unat (arr_i st k) = length (found m k ps)"
      "\<forall>j < length (found m k ps). load64 (a_mem st) (arr_base st k + 8 * of_nat j) = found m k ps ! j"
      using assms(2) k by (simp_all add: madt_holds_def)
    have new: "found m k (ps @ [p]) = (if k = ?k then found m k ps @ [p] else found m k ps)"
      by (auto simp: found_def)
    have "unat (arr_i st ?k + 1) = Suc ?n" using i n by (subst unat_add_u64) simp_all
    then show "unat (arr_i st' k) = length (found m k (ps @ [p]))"
      using old(1) using st'(3) k by (auto simp: new)
    have "length (found m k ps) \<le> 32" using assms(4) k by (force simp: found_def)
    then show "\<forall>j < length (found m k (ps @ [p])). load64 (a_mem st') (arr_base st' k + 8 * of_nat j) = found m k (ps @ [p]) ! j"
      using old(2) n k True unfolding st'(2) new by (auto simp: load nth_append less_Suc_eq)
  next
    show "\<forall>a. \<not> in_arrays st' a \<longrightarrow> a_mem st' a = m a"
      using assms(2) store_in_array [OF assms(1) True n] unfolding same mem by (simp add: madt_holds_def)
  qed
  with st' show ?thesis by blast
qed

lemma madt_loop_collects:
  assumes "madt_table m e p ps" "arrays_apart st" "madt_holds m before st"
    and "\<forall>k \<in> kinds. length (found m k (before @ ps)) \<le> 32"
    and "\<forall>q \<in> set ps. \<not> in_arrays st q \<and> \<not> in_arrays st (q + 1)"
  shows "\<exists>st'. madt_loop e p st = Some st' \<and> madt_holds m (before @ ps) st' \<and> arr_base st' = arr_base st \<and>
    a_heap st' = a_heap st"
  using assms
proof (induction arbitrary: st before)
  case (madt_end p)
  then show ?case by (subst madt_loop.simps) simp
next
  case (madt_next p ps)
  have "length (found m k (before @ [p])) \<le> 32" if "k \<in> kinds" for k
    using madt_next.prems(3) that unfolding found_def by (force split: if_splits)
  then obtain st1 where st1: "madt_record p st = Some st1" "madt_holds m (before @ [p]) st1"
    "arr_base st1 = arr_base st" "a_heap st1 = a_heap st"
    using madt_record_step [OF madt_next.prems(1,2), of p] madt_next.prems(4) by auto
  have same: "in_arrays st1 = in_arrays st" "arrays_apart st1"
    using st1(3) madt_next.prems(1) by (simp_all add: in_arrays_def arrays_apart_def fun_eq_iff)
  have "a_mem st1 (p + 1) = m (p + 1)"
    using st1(2) madt_next.prems(4) by (simp add: madt_holds_def same(1))
  then have step: "madt_loop e p st = madt_loop e (p + ucast (m (p + 1))) st1"
    using madt_next.hyps(1) st1(1) by (subst madt_loop.simps) simp
  show ?case
    unfolding step using madt_next.IH [OF same(2) st1(2)] madt_next.prems(3,4) st1(3,4) by (simp add: same(1))
qed

section \<open>The heap blocks of the arrays\<close>

lemma kmalloc_class_256: "kmalloc_class 256 = 8"
  unfolding kmalloc_class_def by (subst pow2_exp_eqI [of 9]) simp_all

text \<open>Only the slab of 512 bytes differs.\<close>

definition same_but_512 :: "heap \<Rightarrow> heap \<Rightarrow> bool" where
  "same_but_512 h h' \<longleftrightarrow> h_pmm h' = h_pmm h \<and> (\<forall>m. m \<noteq> 8 \<longrightarrow> slab_avail (h_slab h') m = slab_avail (h_slab h) m)"

lemma kmalloc_256:
  assumes "slab_ok bs (h_slab h)" "slab_avail (h_slab h) 8 \<noteq> {}"
  shows "\<exists>h' p. kmalloc cr4 h 256 = Some (h', p + 8) \<and> p \<in> slab_avail (h_slab h) 8 \<and>
    slab_ok bs (h_slab h') \<and> slab_avail (h_slab h') 8 = slab_avail (h_slab h) 8 - {p} \<and> same_but_512 h h'"
  using kmalloc_small_result [OF assms(1), of 256 cr4] assms(2) by (auto simp: kmalloc_class_256 same_but_512_def)

lemma slab_avail_slots: "slab_ok bs ss \<Longrightarrow> i < 11 \<Longrightarrow> slab_avail ss i \<subseteq> slots bs i"
  using slab_okD(6) [of bs ss i] by (auto simp: slab_avail_def)

lemma array_block:
  assumes "bases_ok bs" "bases_aligned bs" "p \<in> slots bs 8"
  shows "aligned8 (p + 8)" "unat (p + 8) = unat p + 8" "unat (bs 8) \<le> unat p"
    "unat p + 512 \<le> unat (bs 8) + 2048" "unat (bs 8) + 2048 < 2 ^ 64"
proof -
  obtain j where j: "j < 4" "p = bs 8 + of_nat (j * 2 ^ Suc 8)"
    using assms(3) by (auto simp: mem_slots)
  have p: "unat p = unat (bs 8) + j * 512"
    using unat_slot [OF assms(1), of 8 j] j by simp
  have top: "unat (bs 8) + 2048 < 2 ^ 64" using assms(1) by (simp add: bases_ok_def)
  show top': "unat (bs 8) + 2048 < 2 ^ 64" by (fact top)
  show "unat (bs 8) \<le> unat p" "unat p + 512 \<le> unat (bs 8) + 2048" using p j(1) by simp_all
  show plus: "unat (p + 8) = unat p + 8" using p j(1) top by (subst unat_add_u64) simp_all
  have "unat (bs 8) mod 2048 = 0" using assms(2) by (simp add: bases_aligned_def)
  then have "unat (bs 8) mod 8 = 0" using mod_mod_cancel [of 8 2048 "unat (bs 8)"] by simp
  moreover have "unat (p + 8) = unat (bs 8) + (64 * j + 1) * 8" using plus p by simp
  ultimately show "aligned8 (p + 8)" unfolding aligned8_def by (metis mod_mult_self1)
qed

definition pointers_at :: "(u64 \<Rightarrow> u8) \<Rightarrow> u64 \<Rightarrow> u64 \<Rightarrow> u64 list" where
  "pointers_at m arr n = map (\<lambda>j. load64 m (arr + 8 * of_nat j)) [0..<unat n]"

lemma found_pointers:
  assumes "madt_holds m ps st" "k \<in> kinds"
  shows "pointers_at (a_mem st) (arr_base st k) (arr_i st k) = found m k ps"
  using assms by (intro nth_equalityI) (simp_all add: madt_holds_def pointers_at_def)

lemma four_blocks:
  assumes "slab_ok bs (h_slab h)" "card (slab_avail (h_slab h) 8) = 4"
  obtains h1 h2 h3 h4 p1 p2 p3 p4 where
    "kmalloc cr4 h 256 = Some (h1, p1 + 8)" "kmalloc cr4 h1 256 = Some (h2, p2 + 8)"
    "kmalloc cr4 h2 256 = Some (h3, p3 + 8)" "kmalloc cr4 h3 256 = Some (h4, p4 + 8)"
    "distinct [p1, p2, p3, p4]" "set [p1, p2, p3, p4] \<subseteq> slots bs 8" "slab_avail (h_slab h4) 8 = {}"
    "slab_ok bs (h_slab h4)" "same_but_512 h h4"
proof -
  have fin: "finite (slab_avail (h_slab h) 8)" using assms(2) by (intro card_ge_0_finite) simp
  obtain h1 p1 where 1: "kmalloc cr4 h 256 = Some (h1, p1 + 8)" "p1 \<in> slab_avail (h_slab h) 8"
    "slab_ok bs (h_slab h1)" "slab_avail (h_slab h1) 8 = slab_avail (h_slab h) 8 - {p1}" "same_but_512 h h1"
    using kmalloc_256 [OF assms(1), of cr4] assms(2) by fastforce
  have c1: "card (slab_avail (h_slab h1) 8) = 3" using 1(2,4) assms(2) fin by simp
  obtain h2 p2 where 2: "kmalloc cr4 h1 256 = Some (h2, p2 + 8)" "p2 \<in> slab_avail (h_slab h1) 8"
    "slab_ok bs (h_slab h2)" "slab_avail (h_slab h2) 8 = slab_avail (h_slab h1) 8 - {p2}" "same_but_512 h1 h2"
    using kmalloc_256 [OF 1(3), of cr4] c1 by fastforce
  have c2: "card (slab_avail (h_slab h2) 8) = 2" using 1(4) 2(2,4) c1 fin by simp
  obtain h3 p3 where 3: "kmalloc cr4 h2 256 = Some (h3, p3 + 8)" "p3 \<in> slab_avail (h_slab h2) 8"
    "slab_ok bs (h_slab h3)" "slab_avail (h_slab h3) 8 = slab_avail (h_slab h2) 8 - {p3}" "same_but_512 h2 h3"
    using kmalloc_256 [OF 2(3), of cr4] c2 by fastforce
  have c3: "card (slab_avail (h_slab h3) 8) = 1" using 1(4) 2(4) 3(2,4) c2 fin by simp
  obtain h4 p4 where 4: "kmalloc cr4 h3 256 = Some (h4, p4 + 8)" "p4 \<in> slab_avail (h_slab h3) 8"
    "slab_avail (h_slab h4) 8 = slab_avail (h_slab h3) 8 - {p4}" "slab_ok bs (h_slab h4)" "same_but_512 h3 h4"
    using kmalloc_256 [OF 3(3), of cr4] c3 by fastforce
  have "slab_avail (h_slab h4) 8 = {}" using c3 4(2,3) by (metis card_1_singletonE Diff_cancel singletonD)
  moreover have "slab_avail (h_slab h) 8 \<subseteq> slots bs 8" by (rule slab_avail_slots [OF assms(1)]) simp
  moreover have "same_but_512 h h4" using 1(5) 2(5) 3(5) 4(5) by (simp add: same_but_512_def)
  ultimately show ?thesis
    using 1(1,2,4) 2(1,2,4) 3(1,2,4) 4(1,2,4) by (intro that [of h1 p1 h2 p2 h3 p3 h4 p4]) auto
qed

lemma madt_init_run:
  assumes "acpi_find_sdt_table cr4 st str_APIC = Some tbl" "tbl \<noteq> NULL"
    and "kmalloc cr4 (a_heap st) 256 = Some (h1, p1)" "kmalloc cr4 h1 256 = Some (h2, p2)"
    and "kmalloc cr4 h2 256 = Some (h3, p3)" "kmalloc cr4 h3 256 = Some (h4, p4)"
  shows "madt_init cr4 str_APIC st = map_option Running
    (madt_loop (tbl + ucast (sdt_length (a_mem st) tbl)) (tbl + 44)
      (st\<lparr>madt := tbl, a_heap := h4, madt_lapics := p1, madt_io_apics := p2, madt_isos := p3, madt_lapic_nmis := p4\<rparr>))"
  using assms
  by (cases st) (simp add: madt_init_def madt_table_start_def sizeof_sdt_header_def map_conv_bind_option comp_def
    add.commute [of 44])

lemma blocks_apart:
  assumes "bases_ok bs" "bases_aligned bs" "distinct [p1, p2, p3, p4]" "set [p1, p2, p3, p4] \<subseteq> slots bs 8"
    and "madt_lapics st = p1 + 8" "madt_io_apics st = p2 + 8" "madt_isos st = p3 + 8" "madt_lapic_nmis st = p4 + 8"
  shows "arrays_apart st"
    and "in_arrays st a \<Longrightarrow> unat (bs 8) \<le> unat a \<and> unat a < unat (bs 8) + 2048"
proof -
  have sep: "unat p + 512 \<le> unat q \<or> unat q + 512 \<le> unat p" if "p \<in> slots bs 8" "q \<in> slots bs 8" "p \<noteq> q" for p q
    using slots_disjoint [OF assms(1) _ _ that(1,2)] that(3) by simp
  have base: "\<exists>p \<in> slots bs 8. arr_base st k = p + 8" if "k \<in> kinds" for k
    using that assms(4-8) by (auto simp: arr_base_def)
  have inj: "arr_base st k = arr_base st k' \<longrightarrow> k = k'" if "k \<in> kinds" "k' \<in> kinds" for k k'
    using that assms(3,5-8) by (auto simp: arr_base_def kinds_def madt_entry_types)
  note block = array_block [OF assms(1,2)]
  show "arrays_apart st"
    unfolding arrays_apart_def
  proof (intro ballI conjI impI)
    fix k
    assume "k \<in> kinds"
    then obtain p where p: "p \<in> slots bs 8" "arr_base st k = p + 8" using base by blast
    note b = block [OF p(1)]
    show "aligned8 (arr_base st k)" using b(1) p(2) by simp
    show "unat (arr_base st k) + 256 \<le> 2 ^ 64" using b(2-5) p(2) by simp
    fix k'
    assume "k' \<in> kinds" "k \<noteq> k'"
    then obtain q where q: "q \<in> slots bs 8" "arr_base st k' = q + 8" using base by blast
    have "p \<noteq> q" using inj [OF \<open>k \<in> kinds\<close> \<open>k' \<in> kinds\<close>] \<open>k \<noteq> k'\<close> p(2) q(2) by auto
    then show "unat (arr_base st k) + 256 \<le> unat (arr_base st k') \<or> unat (arr_base st k') + 256 \<le> unat (arr_base st k)"
      using sep [OF p(1) q(1)] b(2) block(2) [OF q(1)] p(2) q(2) by auto
  qed
  show "unat (bs 8) \<le> unat a \<and> unat a < unat (bs 8) + 2048" if inside: "in_arrays st a"
  proof -
    obtain k where k: "k \<in> kinds" "unat (arr_base st k) \<le> unat a" "unat a < unat (arr_base st k) + 256"
      using inside by (auto simp: in_arrays_def)
    obtain p where p: "p \<in> slots bs 8" "arr_base st k = p + 8" using base [OF k(1)] by blast
    show ?thesis using block [OF p(1)] k(2,3) p(2) by simp
  qed
qed

lemma madt_collects:
  assumes "slab_ok bs (h_slab (a_heap st))" "bases_aligned bs" "card (slab_avail (h_slab (a_heap st)) 8) = 4"
    and tbl: "acpi_find_sdt_table cr4 st str_APIC = Some tbl" "tbl \<noteq> NULL"
    and zero: "madt_lapics_i st = 0" "madt_io_apics_i st = 0" "madt_isos_i st = 0" "madt_lapic_nmis_i st = 0"
    and table: "madt_table (a_mem st) (tbl + ucast (sdt_length (a_mem st) tbl)) (tbl + 44) ps"
    and fits: "\<forall>t. length (filter (\<lambda>p. a_mem st p = t) ps) \<le> 32"
    and away: "\<forall>p \<in> set ps. \<forall>a \<in> {p, p + 1}. unat a < unat (bs 8) \<or> unat (bs 8) + 2048 \<le> unat a"
  shows "\<exists>st'. madt_init cr4 str_APIC st = Some (Running st') \<and>
    pointers_at (a_mem st') (madt_lapics st') (madt_lapics_i st') = filter (\<lambda>p. a_mem st p = PROCESSOR_LOCAL_APIC) ps \<and>
    pointers_at (a_mem st') (madt_io_apics st') (madt_io_apics_i st') = filter (\<lambda>p. a_mem st p = IO_APIC) ps \<and>
    pointers_at (a_mem st') (madt_isos st') (madt_isos_i st') = filter (\<lambda>p. a_mem st p = INTERRUPT_SOURCE_OVERRIDE) ps \<and>
    pointers_at (a_mem st') (madt_lapic_nmis st') (madt_lapic_nmis_i st') = filter (\<lambda>p. a_mem st p = LAPIC_NMI) ps \<and>
    slab_avail (h_slab (a_heap st')) 8 = {} \<and> slab_ok bs (h_slab (a_heap st')) \<and> same_but_512 (a_heap st) (a_heap st') \<and>
    (\<forall>a. unat a < unat (bs 8) \<or> unat (bs 8) + 2048 \<le> unat a \<longrightarrow> a_mem st' a = a_mem st a)"
proof -
  obtain h1 h2 h3 h4 p1 p2 p3 p4 where blocks:
    "kmalloc cr4 (a_heap st) 256 = Some (h1, p1 + 8)" "kmalloc cr4 h1 256 = Some (h2, p2 + 8)"
    "kmalloc cr4 h2 256 = Some (h3, p3 + 8)" "kmalloc cr4 h3 256 = Some (h4, p4 + 8)"
    "distinct [p1, p2, p3, p4]" "set [p1, p2, p3, p4] \<subseteq> slots bs 8" "slab_avail (h_slab h4) 8 = {}"
    "slab_ok bs (h_slab h4)" "same_but_512 (a_heap st) h4"
    using four_blocks [OF assms(1,3)] .
  define s where "s = st\<lparr>madt := tbl, a_heap := h4, madt_lapics := p1 + 8, madt_io_apics := p2 + 8,
    madt_isos := p3 + 8, madt_lapic_nmis := p4 + 8\<rparr>"
  have bases: "bases_ok bs" using assms(1) by (simp add: slab_ok_def)
  note apart = blocks_apart [OF bases assms(2) blocks(5,6), of s]
  have "arrays_apart s" by (rule apart(1)) (simp_all add: s_def)
  moreover have "\<forall>q \<in> set ps. \<not> in_arrays s q \<and> \<not> in_arrays s (q + 1)"
    using apart(2) away by (fastforce simp: s_def)
  moreover have "madt_holds (a_mem st) [] s"
    using zero by (simp add: madt_holds_def s_def found_def arr_i_def)
  ultimately obtain st' where st': "madt_loop (tbl + ucast (sdt_length (a_mem st) tbl)) (tbl + 44) s = Some st'"
    "madt_holds (a_mem st) ps st'" "a_heap st' = h4" "\<And>k. arr_base st' k = arr_base s k"
    using madt_loop_collects [OF table, of s "[]"] fits by (auto simp: found_def s_def)
  have "in_arrays st' a \<longleftrightarrow> in_arrays s a" for a by (simp add: in_arrays_def st'(4))
  then have rest: "a_mem st' a = a_mem st a" if "unat a < unat (bs 8) \<or> unat (bs 8) + 2048 \<le> unat a" for a
    using st'(2) apart(2) [of a] that by (fastforce simp: madt_holds_def s_def)
  note found = found_pointers [OF st'(2), unfolded found_def]
  show ?thesis
    using madt_init_run [OF tbl blocks(1-4)] st'(1,3) blocks(7-9) rest found [of PROCESSOR_LOCAL_APIC] found [of IO_APIC]
      found [of INTERRUPT_SOURCE_OVERRIDE] found [of LAPIC_NMI]
    by (simp add: s_def kinds_def arr_base_def arr_i_def madt_entry_types)
qed


section \<open>Results of the checks\<close>

lemma acpi_init_running:
  assumes "acpi_init cr4 str_RSDT str_APIC tags first_tag st = Some (Running st')"
  obtains tag st1 where "stivale2_get_tag tags first_tag STIVALE2_STRUCT_TAG_RSDP_ID = Some tag" "tag \<noteq> NULL"
    "sum_list (bytes_at (a_mem st) (load64 (a_mem st) (tag + 16)) 20) = 0"
    "a_mem st1 = a_mem st"
    "rsdt st1 = phys_to_higher_half_data cr4 (ucast (rsdp_rsdt_address (a_mem st) (load64 (a_mem st) (tag + 16))))"
    "table_ok (a_mem st) str_RSDT (rsdt st1)" "unat (sdt_length (a_mem st) (rsdt st1)) < 256"
    "madt_init cr4 str_APIC st1 = Some (Running st')"
proof -
  obtain tag where tag: "stivale2_get_tag tags first_tag STIVALE2_STRUCT_TAG_RSDP_ID = Some tag" "tag \<noteq> NULL"
    using assms by (auto simp: acpi_init_def split: Option.bind_splits if_splits)
  let ?p = "load64 (a_mem st) (tag + 16)"
  obtain st0 where st0: "rsdp_init ?p st = Running st0"
    using assms tag by (cases "rsdp_init ?p st") (simp_all add: acpi_init_def)
  have sum: "sum_list (bytes_at (a_mem st) ?p 20) = 0" and keep: "a_mem st0 = a_mem st" "rsdp st0 = ?p"
    using st0 by (auto simp: rsdp_init_def rsdp_checksum Let_def split: if_splits outcome.splits)
  define st1 where "st1 = st0\<lparr>rsdt := phys_to_higher_half_data cr4 (ucast (rsdp_rsdt_address (a_mem st) ?p))\<rparr>"
  have "acpi_check_sdt_header (a_mem st) (rsdt st1) str_RSDT = Some 0 \<and> madt_init cr4 str_APIC st1 = Some (Running st')"
    using assms tag st0 keep by (auto simp: acpi_init_def st1_def Let_def split: Option.bind_splits if_splits)
  then show ?thesis
    using tag sum keep by (intro that [of tag st1]) (auto simp: check_header table_ok_def st1_def not_le split: if_splits)
qed


lemma find_table_loop_sound:
  "find_table_loop cr4 st signature i n = Some q \<Longrightarrow> q \<noteq> NULL \<Longrightarrow>
   \<exists>e. table_ok (a_mem st) signature e \<and> q = phys_to_higher_half_data cr4 e"
proof (induction n arbitrary: i)
  case (Suc n)
  let ?e = "ucast (rsdt_entry (a_mem st) (rsdt st) i) :: u64"
  from Suc.prems obtain bad where bad: "acpi_check_sdt_header (a_mem st) ?e signature = Some bad"
    by (auto simp: Let_def split: Option.bind_splits)
  show ?case
  proof (cases "bad = 0")
    case True
    then have "q = phys_to_higher_half_data cr4 ?e" using Suc.prems(1) bad by (simp add: Let_def)
    moreover have "table_ok (a_mem st) signature ?e"
      using bad True by (auto simp: check_header table_ok_def split: if_splits)
    ultimately show ?thesis by blast
  next
    case False
    then show ?thesis using Suc bad by (simp add: Let_def)
  qed
qed simp

lemma madt_loop_madt: "madt_loop e p st = Some st' \<Longrightarrow> madt st' = madt st"
proof (rule madt_loop.raw_induct [where P = "\<lambda>e p st st'. madt st' = madt st"], goal_cases)
  case (1 f e p s s')
  then show ?case
    by (auto simp: madt_record_def Let_def split: if_splits Option.bind_splits)
qed simp

lemma madt_init_madt:
  assumes "madt_init cr4 str_APIC st = Some (Running st')"
  shows "\<exists>e. table_ok (a_mem st) str_APIC e \<and> madt st' = phys_to_higher_half_data cr4 e"
proof -
  obtain q where q: "acpi_find_sdt_table cr4 st str_APIC = Some q" "q \<noteq> NULL" "madt st' = q"
    using assms by (auto simp: madt_init_def Let_def dest!: madt_loop_madt split: if_splits Option.bind_splits)
  show ?thesis
    using find_table_loop_sound [of cr4 st str_APIC 0 "unat (entry_count st)" q] q by (simp add: acpi_find_sdt_table_def)
qed

section \<open>A small machine for the witnesses\<close>

definition place :: "u64 \<Rightarrow> u8 list \<Rightarrow> (u64 \<Rightarrow> u8) \<Rightarrow> u64 \<Rightarrow> u8" where
  "place p bs mem a = (if unat (a - p) < length bs then bs ! unat (a - p) else mem a)"

lemma bytes_at_place:
  assumes "n \<le> length bs" "n < 2 ^ 64"
  shows "bytes_at (place p bs mem) p n = take n bs"
  using assms by (intro nth_equalityI) (simp_all add: nth_bytes_at place_def unat_of_nat_u64)

lemma bytes_at_place_other:
  assumes "unat p + n \<le> unat q \<or> unat q + length bs \<le> unat p" "unat p + n \<le> 2 ^ 64" "unat q + length bs \<le> 2 ^ 64"
  shows "bytes_at (place q bs mem) p n = bytes_at mem p n"
proof (rule nth_equalityI)
  fix j
  assume "j < length (bytes_at (place q bs mem) p n)"
  then have j: "j < n" by simp
  then have "unat (of_nat j :: u64) = j" using assms(2) by (intro unat_of_nat_u64) linarith
  then have at: "unat (p + of_nat j) = unat p + j" using j assms(2) by (subst unat_add_u64) simp_all
  have "\<not> unat (p + of_nat j - q) < length bs"
  proof
    assume less: "unat (p + of_nat j - q) < length bs"
    define i where "i = unat (p + of_nat j - q)"
    have i: "p + of_nat j = q + of_nat i" "unat (of_nat i :: u64) = i" by (simp_all add: i_def)
    have "unat (q + of_nat i) = (unat q + i) mod 2 ^ 64" by (simp add: unat_word_ariths i(2))
    then have *: "unat p + j = (unat q + i) mod 2 ^ 64" using at i(1) by metis
    have "i < length bs" using less by (simp add: i_def)
    then have "unat p + j = unat q + i" using * assms(3) by simp
    with assms(1) j \<open>i < length bs\<close> show False by linarith
  qed
  then show "bytes_at (place q bs mem) p n ! j = bytes_at mem p n ! j"
    using j by (simp add: nth_bytes_at place_def)
qed simp

definition sample_rsdp :: "u8 list" where
  "sample_rsdp = replicate 8 0 @ [0xF0] @ replicate 8 0 @ [0x10, 0, 0]"

definition sample_rsdt :: "u8 list" where
  "sample_rsdt = [82, 83, 68, 84, 44, 0, 0, 0, 0, 71] @ replicate 26 0 @ [0, 0x30, 0, 0, 0, 0x20, 0, 0]"

definition sample_madt :: "u8 list" where
  "sample_madt = [65, 80, 73, 67, 64, 0, 0, 0, 0, 142] @ replicate 34 0 @ [0, 8] @ replicate 6 0 @ [1, 12] @ replicate 10 0"

definition acpi_sample_mem :: "u64 \<Rightarrow> u8" where
  "acpi_sample_mem = place 0xFFFF800000001000 sample_rsdt (place 0xFFFF800000002000 sample_madt
     (place 0x2000 sample_madt (place 0x6000 sample_rsdp (place 0x7010 [0, 0x60] (place 0x3000 [70]
     (place 0x5000 [65, 80, 73, 67] (place 0x5010 [82, 83, 68, 84] (\<lambda>_. 0))))))))"

lemma sample_sizes [simp]: "length sample_rsdp = 20" "length sample_rsdt = 44" "length sample_madt = 64"
  by (simp_all add: sample_rsdp_def sample_rsdt_def sample_madt_def)

lemmas sample_bytes = acpi_sample_mem_def place_def sample_rsdp_def sample_rsdt_def sample_madt_def

definition acpi_sample :: acpi_state where
  "acpi_sample = \<lparr>a_mem = acpi_sample_mem, a_heap = heap_sample, rsdp = 0x6000, has_xsdt_var = False,
     rsdt = 0xFFFF800000001000, madt = 0, madt_lapics = 0, madt_io_apics = 0, madt_isos = 0, madt_lapic_nmis = 0,
     madt_lapics_i = 0, madt_io_apics_i = 0, madt_isos_i = 0, madt_lapic_nmis_i = 0\<rparr>"

lemma upt_4: "[0..<4] = [0, 1, 2, 3 :: nat]" by (simp add: upt_rec)

lemma sample_lengths:
  "sdt_length acpi_sample_mem 0xFFFF800000001000 = 44" "sdt_length acpi_sample_mem 0x2000 = 64"
  "sdt_length acpi_sample_mem 0xFFFF800000002000 = 64"
  by (simp_all add: sdt_length_def load32_def upt_4 sample_bytes nth_append)

lemma sample_entries: "root_entries acpi_sample = [0x3000, 0x2000]"
proof -
  have "root_entries acpi_sample = [ucast (rsdt_entry acpi_sample_mem 0xFFFF800000001000 0), ucast (rsdt_entry acpi_sample_mem 0xFFFF800000001000 1)]"
    by (simp add: root_entries_def acpi_sample_def sample_lengths upt_rec)
  then show ?thesis
    by (simp add: rsdt_entry_def sizeof_sdt_header_def load32_def upt_4 sample_bytes nth_append)
qed

lemma sample_signatures: "bytes_at acpi_sample_mem 0x3000 4 \<noteq> bytes_at acpi_sample_mem 0x5000 4"
  "bytes_at acpi_sample_mem 0x2000 4 = bytes_at acpi_sample_mem 0x5000 4"
  by (simp_all add: bytes_at_map upt_4 sample_bytes nth_append)
lemma sample_sum: "sum_list (bytes_at acpi_sample_mem 0x2000 64) = 0"
proof -
  have "bytes_at acpi_sample_mem 0x2000 64 = sample_madt"
    by (simp add: acpi_sample_mem_def bytes_at_place bytes_at_place_other)
  then show ?thesis by (simp add: sample_madt_def sum_list_replicate)
qed

lemma sample_find: "acpi_find_sdt_table 0 acpi_sample 0x5000 = Some 0xFFFF800000002000"
proof -
  have "acpi_find_sdt_table 0 acpi_sample 0x5000 =
    Some (case find (table_ok acpi_sample_mem 0x5000) [0x3000, 0x2000]
          of None \<Rightarrow> NULL | Some e \<Rightarrow> phys_to_higher_half_data 0 e)"
    using find_table_first [of acpi_sample "0x5000" 0] sample_lengths sample_signatures
    unfolding sample_entries by (simp add: acpi_sample_def)
  then show ?thesis
    using sample_signatures sample_sum
    by (simp add: table_ok_def sample_lengths phys_to_higher_half_data_def is_la57_enabled_def HIGHER_HALF_DATA_LV4_def)
qed

lemma sample_table:
  "madt_table acpi_sample_mem 0xFFFF800000002040 0xFFFF80000000202C [0xFFFF80000000202C, 0xFFFF800000002034]"
proof -
  have "madt_table acpi_sample_mem 0xFFFF800000002040 0xFFFF800000002040 []" by (intro madt_end) simp
  then have "madt_table acpi_sample_mem 0xFFFF800000002040 0xFFFF800000002034 [0xFFFF800000002034]"
    by (intro madt_next) (simp_all add: sample_bytes nth_append)
  then show ?thesis by (intro madt_next) (simp_all add: sample_bytes nth_append)
qed

lemma card_slots_8: "bases_ok bs \<Longrightarrow> card (slots bs 8) = 4"
  unfolding slots_def using distinct_card [OF distinct_slab_objs [of bs 8]] by (simp add: length_slab_objs)

lemma sample_madt_runs:
  "\<exists>st'. madt_init 0 0x5000 acpi_sample = Some (Running st')"
  and sample_slabs: "slab_ok sample_bases (h_slab (a_heap acpi_sample))"
    "card (slab_avail (h_slab (a_heap acpi_sample)) 8) = 4"
  and sample_ready: "madt_lapics_i acpi_sample = 0" "madt_io_apics_i acpi_sample = 0" "madt_isos_i acpi_sample = 0"
    "madt_lapic_nmis_i acpi_sample = 0"
  and sample_madt_table: "madt_table (a_mem acpi_sample)
      (0xFFFF800000002000 + ucast (sdt_length (a_mem acpi_sample) 0xFFFF800000002000))
      (0xFFFF800000002000 + 44) [0xFFFF80000000202C, 0xFFFF800000002034]"
  and sample_few: "\<forall>t. length (filter (\<lambda>p. a_mem acpi_sample p = t) [0xFFFF80000000202C, 0xFFFF800000002034]) \<le> 32"
  and sample_away: "\<forall>p \<in> set [0xFFFF80000000202C, 0xFFFF800000002034 :: u64]. \<forall>a \<in> {p, p + 1}.
      unat a < unat (sample_bases 8) \<or> unat (sample_bases 8) + 2048 \<le> unat a"
proof -
  have base8: "unat (sample_bases 8) = 0xFFFF800000104000"
    by (simp add: sample_bases_def slab_base_def page_ptr_def phys_to_higher_half_data_def
      is_la57_enabled_def HIGHER_HALF_DATA_LV4_def PAGE_SIZE_def)
  have ok: "slab_ok sample_bases (h_slab (a_heap acpi_sample))"
    using slab_sample_ok by (simp add: acpi_sample_def heap_sample_def)
  have "bases_ok sample_bases" using slab_sample_ok by (simp add: slab_ok_def)
  then have card: "card (slab_avail (h_slab (a_heap acpi_sample)) 8) = 4"
    using card_slots_8 by (simp add: acpi_sample_def heap_sample_def slab_sample_avail)
  have few: "\<forall>t. length (filter (\<lambda>p. a_mem acpi_sample p = t) [0xFFFF80000000202C, 0xFFFF800000002034]) \<le> 32"
    by simp
  have table: "madt_table (a_mem acpi_sample) (0xFFFF800000002000 + ucast (sdt_length (a_mem acpi_sample) 0xFFFF800000002000))
      (0xFFFF800000002000 + 44) [0xFFFF80000000202C, 0xFFFF800000002034]"
    using sample_table by (simp add: acpi_sample_def sample_lengths)
  have away: "\<forall>p \<in> set [0xFFFF80000000202C, 0xFFFF800000002034 :: u64]. \<forall>a \<in> {p, p + 1}.
      unat a < unat (sample_bases 8) \<or> unat (sample_bases 8) + 2048 \<le> unat a"
    by (simp add: base8)
  have zero: "madt_lapics_i acpi_sample = 0" "madt_io_apics_i acpi_sample = 0" "madt_isos_i acpi_sample = 0"
    "madt_lapic_nmis_i acpi_sample = 0"
    by (simp_all add: acpi_sample_def)
  show "\<exists>st'. madt_init 0 0x5000 acpi_sample = Some (Running st')"
    using madt_collects [OF ok sample_bases_aligned card sample_find _ zero table few away] by auto
  show "slab_ok sample_bases (h_slab (a_heap acpi_sample))" by (fact ok)
  show "card (slab_avail (h_slab (a_heap acpi_sample)) 8) = 4" by (fact card)
  show "madt_lapics_i acpi_sample = 0" "madt_io_apics_i acpi_sample = 0" "madt_isos_i acpi_sample = 0"
    "madt_lapic_nmis_i acpi_sample = 0" by (fact zero)+
  show "madt_table (a_mem acpi_sample)
      (0xFFFF800000002000 + ucast (sdt_length (a_mem acpi_sample) 0xFFFF800000002000))
      (0xFFFF800000002000 + 44) [0xFFFF80000000202C, 0xFFFF800000002034]" by (fact table)
  show "\<forall>t. length (filter (\<lambda>p. a_mem acpi_sample p = t) [0xFFFF80000000202C, 0xFFFF800000002034]) \<le> 32"
    by (fact few)
  show "\<forall>p \<in> set [0xFFFF80000000202C, 0xFFFF800000002034 :: u64]. \<forall>a \<in> {p, p + 1}.
      unat a < unat (sample_bases 8) \<or> unat (sample_bases 8) + 2048 \<le> unat a" by (fact away)
qed

definition acpi_sample_tags :: "u64 \<Rightarrow> stivale2_tag option" where
  "acpi_sample_tags = [0x7000 \<mapsto> \<lparr>tag_identifier = STIVALE2_STRUCT_TAG_RSDP_ID, tag_next = 0\<rparr>]"

lemma sample_root:
  "load64 acpi_sample_mem 0x7010 = 0x6000" "acpi_sample_mem 0x600F = 0" "rsdp_rsdt_address acpi_sample_mem 0x6000 = 0x1000"
  by (simp_all add: load64_def upt_8 rsdp_rsdt_address_def load32_def upt_4 sample_bytes nth_append)

lemma sample_root_sums:
  "sum_list (bytes_at acpi_sample_mem 0x6000 20) = 0"
  "bytes_at acpi_sample_mem 0xFFFF800000001000 4 = bytes_at acpi_sample_mem 0x5010 4"
  "sum_list (bytes_at acpi_sample_mem 0xFFFF800000001000 44) = 0"
proof -
  have "bytes_at acpi_sample_mem 0x6000 20 = sample_rsdp"
    by (simp add: acpi_sample_mem_def bytes_at_place bytes_at_place_other)
  then show "sum_list (bytes_at acpi_sample_mem 0x6000 20) = 0" by (simp add: sample_rsdp_def sum_list_replicate)
  show "bytes_at acpi_sample_mem 0xFFFF800000001000 4 = bytes_at acpi_sample_mem 0x5010 4"
    by (simp add: acpi_sample_mem_def bytes_at_place bytes_at_place_other) (simp add: sample_rsdt_def)
  have "bytes_at acpi_sample_mem 0xFFFF800000001000 44 = sample_rsdt"
    by (simp add: acpi_sample_mem_def bytes_at_place)
  then show "sum_list (bytes_at acpi_sample_mem 0xFFFF800000001000 44) = 0" by (simp add: sample_rsdt_def sum_list_replicate)
qed

lemma sample_acpi_init: "acpi_init 0 0x5010 0x5000 acpi_sample_tags 0x7000 acpi_sample = madt_init 0 0x5000 acpi_sample"
proof -
  have tag: "stivale2_get_tag acpi_sample_tags 0x7000 STIVALE2_STRUCT_TAG_RSDP_ID = Some 0x7000"
    by (subst stivale2_get_tag.simps) (simp add: acpi_sample_tags_def)
  have fields: "rsdt acpi_sample = 0xFFFF800000001000" "rsdp acpi_sample = 0x6000" "a_mem acpi_sample = acpi_sample_mem"
    "acpi_sample\<lparr>rsdp := 0x6000\<rparr> = acpi_sample" "acpi_sample\<lparr>rsdt := 0xFFFF800000001000\<rparr> = acpi_sample"
    by (simp_all add: acpi_sample_def)
  have "rsdp_init 0x6000 acpi_sample = Running acpi_sample"
    by (simp add: rsdp_init_def rsdp_checksum fields sample_root sample_root_sums rsdp_revision_def)
  moreover have "acpi_check_sdt_header acpi_sample_mem 0xFFFF800000001000 0x5010 = Some 0"
    by (simp add: check_header sample_root_sums sample_lengths)
  ultimately show ?thesis
    using tag by (simp add: acpi_init_def fields sample_root phys_to_higher_half_data_def is_la57_enabled_def HIGHER_HALF_DATA_LV4_def)
qed

section \<open>Properties\<close>

text \<open>
  C35: a table is accepted exactly when its signature is the one asked for and its bytes sum
  up to 0; but the loop over the bytes counts in 8 bits, so the check of a table of 256 bytes or more does not
  return.
\<close>

theorem acpi_check_sdt_header_correct:
  "acpi_check_sdt_header mem hdr signature =
   (if bytes_at mem hdr 4 \<noteq> bytes_at mem signature 4 then Some 1
    else if 256 \<le> unat (sdt_length mem hdr) then None
    else Some (if sum_list (bytes_at mem hdr (unat (sdt_length mem hdr))) = 0 then 0 else 1))"
  by (rule check_header)

text \<open>
  The first table in the list with the signature and a valid checksum is found, in the higher
  half. The list is cut to half its entries when the root pointer has revision 2 or later, although
  it is still the table of 32-bit entries.
\<close>

theorem acpi_find_sdt_table_first:
  assumes "36 \<le> unat (sdt_length (a_mem st) (rsdt st))"
    and "\<forall>e \<in> set (root_entries st). bytes_at (a_mem st) e 4 = bytes_at (a_mem st) signature 4 \<longrightarrow>
      unat (sdt_length (a_mem st) e) < 256"
  shows "acpi_find_sdt_table cr4 st signature =
    Some (case find (table_ok (a_mem st) signature) (root_entries st)
          of None \<Rightarrow> NULL | Some e \<Rightarrow> phys_to_higher_half_data cr4 e)"
  using find_table_first [OF assms] .

text \<open>
  C7: with a well-formed table and a heap whose slab of 512 bytes is untouched, \<open>madt_init\<close>
  returns, and the four arrays hold exactly the addresses of the records of their type, in the order of the
  table. The slab of 512 bytes is then used up; no other slab, no page and no byte outside this slab has changed.
\<close>

theorem madt_init_collects_records:
  assumes "slab_ok bs (h_slab (a_heap st))" "bases_aligned bs" "card (slab_avail (h_slab (a_heap st)) 8) = 4"
    and tbl: "acpi_find_sdt_table cr4 st str_APIC = Some tbl" "tbl \<noteq> NULL"
    and zero: "madt_lapics_i st = 0" "madt_io_apics_i st = 0" "madt_isos_i st = 0" "madt_lapic_nmis_i st = 0"
    and table: "madt_table (a_mem st) (tbl + ucast (sdt_length (a_mem st) tbl)) (tbl + 44) ps"
    and fits: "\<forall>t. length (filter (\<lambda>p. a_mem st p = t) ps) \<le> 32"
    and away: "\<forall>p \<in> set ps. \<forall>a \<in> {p, p + 1}. unat a < unat (bs 8) \<or> unat (bs 8) + 2048 \<le> unat a"
  shows "\<exists>st'. madt_init cr4 str_APIC st = Some (Running st') \<and>
    pointers_at (a_mem st') (madt_lapics st') (madt_lapics_i st') = filter (\<lambda>p. a_mem st p = PROCESSOR_LOCAL_APIC) ps \<and>
    pointers_at (a_mem st') (madt_io_apics st') (madt_io_apics_i st') = filter (\<lambda>p. a_mem st p = IO_APIC) ps \<and>
    pointers_at (a_mem st') (madt_isos st') (madt_isos_i st') = filter (\<lambda>p. a_mem st p = INTERRUPT_SOURCE_OVERRIDE) ps \<and>
    pointers_at (a_mem st') (madt_lapic_nmis st') (madt_lapic_nmis_i st') = filter (\<lambda>p. a_mem st p = LAPIC_NMI) ps \<and>
    slab_avail (h_slab (a_heap st')) 8 = {} \<and> slab_ok bs (h_slab (a_heap st')) \<and> same_but_512 (a_heap st) (a_heap st') \<and>
    (\<forall>a. unat a < unat (bs 8) \<or> unat (bs 8) + 2048 \<le> unat a \<longrightarrow> a_mem st' a = a_mem st a)"
  using madt_collects [OF assms] .

theorem madt_init_collects_records_witness:
  "\<exists>st'. madt_init 0 0x5000 acpi_sample = Some (Running st') \<and>
    pointers_at (a_mem st') (madt_lapics st') (madt_lapics_i st') = [0xFFFF80000000202C] \<and>
    pointers_at (a_mem st') (madt_io_apics st') (madt_io_apics_i st') = [0xFFFF800000002034] \<and>
    pointers_at (a_mem st') (madt_isos st') (madt_isos_i st') = []"
proof -
  have mem: "a_mem acpi_sample = acpi_sample_mem" by (simp add: acpi_sample_def)
  have types: "acpi_sample_mem 0xFFFF80000000202C = 0" "acpi_sample_mem 0xFFFF800000002034 = 1"
    by (simp_all add: sample_bytes nth_append)
  show ?thesis
    using madt_init_collects_records [OF sample_slabs(1) sample_bases_aligned sample_slabs(2) sample_find _ sample_ready
        sample_madt_table sample_few sample_away]
    unfolding mem by (auto simp: types madt_entry_types)
qed

text \<open>
  C14: \<open>acpi_init\<close> goes on only with tables that it has verified: the root pointer's first 20
  bytes sum up to 0, and the root table and the table of the interrupt controllers have the right signature
  and checksum. Otherwise the machine is halted.
\<close>

theorem acpi_init_verifies_tables:
  assumes "acpi_init cr4 str_RSDT str_APIC tags first_tag st = Some (Running st')"
  shows "\<exists>tag e. stivale2_get_tag tags first_tag STIVALE2_STRUCT_TAG_RSDP_ID = Some tag \<and> tag \<noteq> NULL \<and>
    (let p = load64 (a_mem st) (tag + 16);
         r = phys_to_higher_half_data cr4 (ucast (rsdp_rsdt_address (a_mem st) p))
     in sum_list (bytes_at (a_mem st) p 20) = 0 \<and> table_ok (a_mem st) str_RSDT r) \<and>
    table_ok (a_mem st) str_APIC e \<and> madt st' = phys_to_higher_half_data cr4 e"
  using assms
proof (rule acpi_init_running)
  fix tag st1
  assume "madt_init cr4 str_APIC st1 = Some (Running st')" "a_mem st1 = a_mem st"
    and "rsdt st1 = phys_to_higher_half_data cr4 (ucast (rsdp_rsdt_address (a_mem st) (load64 (a_mem st) (tag + 16))))"
    and "stivale2_get_tag tags first_tag STIVALE2_STRUCT_TAG_RSDP_ID = Some tag" "tag \<noteq> NULL"
    and "sum_list (bytes_at (a_mem st) (load64 (a_mem st) (tag + 16)) 20) = 0" "table_ok (a_mem st) str_RSDT (rsdt st1)"
  then show ?thesis
    using madt_init_madt [of cr4 str_APIC st1 st'] by (auto simp: Let_def)
qed

theorem acpi_init_verifies_tables_witness:
  "\<exists>st' e. acpi_init 0 0x5010 0x5000 acpi_sample_tags 0x7000 acpi_sample = Some (Running st') \<and>
    table_ok acpi_sample_mem 0x5000 e \<and> madt st' = phys_to_higher_half_data 0 e"
proof -
  obtain st' where "acpi_init 0 0x5010 0x5000 acpi_sample_tags 0x7000 acpi_sample = Some (Running st')"
    using sample_madt_runs unfolding sample_acpi_init by blast
  moreover have "a_mem acpi_sample = acpi_sample_mem" by (simp add: acpi_sample_def)
  ultimately show ?thesis using acpi_init_verifies_tables by metis
qed

end
