(* ===== verification/Cpu.thy ===== *)
theory Cpu
  imports Slab_Pool Kprintf_Seq
begin

text \<open>
  \<open>devices/cpu\<close>: the identification of the processor. The \<open>cpuid\<close> instruction is a parameter
  \<open>insn leaf subleaf\<close> that returns \<open>eax\<close>, \<open>ebx\<close>, \<open>ecx\<close> and \<open>edx\<close>; the first use of it does not set
  the subleaf, which is then whatever \<open>ecx\<close> holds (the parameter \<open>ecx0\<close>).
\<close>

type_synonym cpuid_insn = "u32 \<Rightarrow> u32 \<Rightarrow> u32 \<times> u32 \<times> u32 \<times> u32"

record cpuid_registers_t =
  leaf :: u32
  subleaf :: u32
  cpu_eax :: u32
  cpu_ebx :: u32
  cpu_ecx :: u32
  cpu_edx :: u32

definition CPUID_GET_VENDOR_STRING :: u32 where "CPUID_GET_VENDOR_STRING = 0"
definition CPUID_GET_FEATURES :: u32 where "CPUID_GET_FEATURES = 1"
definition CPUID_FEAT_EDX_APIC :: u32 where "CPUID_FEAT_EDX_APIC = 2 ^ 9"

definition cpuid :: "cpuid_insn \<Rightarrow> u32 \<Rightarrow> cpuid_registers_t \<Rightarrow> int \<times> cpuid_registers_t" where
  "cpuid insn ecx0 registers =
     (let cpuid_max = fst (insn (leaf registers AND 0x80000000) ecx0) in
      if leaf registers > cpuid_max then (0, registers)
      else (let (a, b, c, d) = insn (leaf registers) (subleaf registers)
            in (1, registers\<lparr>cpu_eax := a, cpu_ebx := b, cpu_ecx := c, cpu_edx := d\<rparr>)))"

text \<open>A register in memory, and the characters from a field of the struct to its end.\<close>

definition reg_chars :: "u32 \<Rightarrow> string" where
  "reg_chars w = map (\<lambda>i. char_of (unat (ucast (drop_bit (8 * i) w) :: u8))) [0..<4]"

definition chars_at :: "(u64 \<Rightarrow> u8) \<Rightarrow> u64 \<Rightarrow> nat \<Rightarrow> string" where
  "chars_at mem p n = map (\<lambda>i. char_of (unat (mem (p + of_nat i)))) [0..<n]"

definition put_chars :: "(u64 \<Rightarrow> u8) \<Rightarrow> u64 \<Rightarrow> string \<Rightarrow> u64 \<Rightarrow> u8" where
  "put_chars mem p s = (\<lambda>a. if unat (a - p) < length s then of_nat (of_char (s ! unat (a - p))) else mem a)"

text \<open>
  The string goes to an object of the 16-byte slab, whose memory is \<open>mem\<close>. For the null pointer \<open>snprintf\<close> writes
  nothing.
\<close>

definition cpu_get_vendor_string ::
    "cpuid_insn \<Rightarrow> u32 \<Rightarrow> slab_state \<times> (u64 \<Rightarrow> u8) \<Rightarrow> (u64 \<times> slab_state \<times> (u64 \<Rightarrow> u8)) option" where
  "cpu_get_vendor_string insn ecx0 st = do {
     let (ss, mem) = st;
     let regs = snd (cpuid insn ecx0 \<lparr>leaf = CPUID_GET_VENDOR_STRING, subleaf = 0,
       cpu_eax = 0, cpu_ebx = 0, cpu_ecx = 0, cpu_edx = 0\<rparr>);
     (ss, vendor_string) \<leftarrow> slab_alloc ss 16;
     (buf, n) \<leftarrow> snprintf (vendor_string = NULL) (if vendor_string = NULL then [] else chars_at mem vendor_string 16) 13
       ''%.4s%.4s%.4s''
       [Va_Str (reg_chars (cpu_ebx regs) @ reg_chars (cpu_ecx regs) @ reg_chars (cpu_edx regs)),
        Va_Str (reg_chars (cpu_edx regs)),
        Va_Str (reg_chars (cpu_ecx regs) @ reg_chars (cpu_edx regs))];
     Some (vendor_string, ss, (if vendor_string = NULL then mem else put_chars mem vendor_string buf))
   }"

section \<open>The vendor string\<close>

lemma c_prefix_take: "c_prefix p n True = take n (takeWhile (\<lambda>c. c \<noteq> NUL) p)"
  by (induction p arbitrary: n) (auto simp: take_Cons')

lemma format_string4:
  "format_text (''%.4s'' @ f) (Va_Str p # va) =
     map_option ((@) (take 4 (takeWhile (\<lambda>c. c \<noteq> NUL) p))) (format_text f va)"
proof -
  let ?sp = "\<lparr>sp_flags = FLAGS_PRECISION, sp_width = 0, sp_precision = 4, sp_char = CHR ''s''\<rparr>"
  have chars: "(CHR ''s'' = NUL) = False" "is_digit CHR ''.'' = False" "is_digit CHR ''4''" "is_digit CHR ''s'' = False"
    by code_simp+
  have parse: "parse_spec (''.4s'' @ f) (Va_Str p # va) = Some (?sp, f, Va_Str p # va)"
    by (simp add: parse_spec_def parse_width_def parse_precision_def parse_length_def next_is_def chars atoi_def)
  have has: "has FLAGS_PRECISION FLAGS_PRECISION" "\<not> has FLAGS_PRECISION FLAGS_LEFT" by code_simp+
  have "spec_text ?sp (Va_Str p # va) = Some (take 4 (takeWhile (\<lambda>c. c \<noteq> NUL) p), va)"
    using has by (simp add: spec_text_def padded_def spaces_def c_prefix_take Let_def)
  then show ?thesis
    using format_conversion [OF parse] by simp
qed

lemma length_reg_chars [simp]: "length (reg_chars w) = 4"
  by (simp add: reg_chars_def)

lemma vendor_text:
  assumes "NUL \<notin> set (reg_chars b @ reg_chars c @ reg_chars d)"
  shows "format_text ''%.4s%.4s%.4s''
    [Va_Str (reg_chars b @ reg_chars c @ reg_chars d), Va_Str (reg_chars d), Va_Str (reg_chars c @ reg_chars d)] =
    Some (reg_chars b @ reg_chars d @ reg_chars c)"
proof -
  have whole: "takeWhile (\<lambda>c. c \<noteq> NUL) p = p" if "NUL \<notin> set p" for p
    using that by (induction p) auto
  have split: "''%.4s%.4s%.4s'' = ''%.4s'' @ ''%.4s'' @ ''%.4s'' @ []" by simp
  have "\<forall>p \<in> set [reg_chars b @ reg_chars c @ reg_chars d, reg_chars d, reg_chars c @ reg_chars d]. NUL \<notin> set p"
    using assms by auto
  then show ?thesis
    unfolding split format_string4 by (simp add: whole)
qed

lemma chars_at_put_chars:
  assumes "n \<le> length s" "length s < 2 ^ 64"
  shows "chars_at (put_chars mem p s) p n = take n s"
proof (rule nth_equalityI)
  show "length (chars_at (put_chars mem p s) p n) = length (take n s)" using assms by (simp add: chars_at_def)
  fix i
  assume "i < length (chars_at (put_chars mem p s) p n)"
  then have i: "i < n" "i < length s" using assms by (simp_all add: chars_at_def)
  then have "unat (of_nat i :: u64) = i" using assms(2) by (intro unat_of_nat_u64) simp
  then show "chars_at (put_chars mem p s) p n ! i = take n s ! i"
    using i by (simp add: chars_at_def put_chars_def unsigned_of_nat char_of_take_bit_eq)
qed

lemma vendor_string_written:
  assumes "slab_ok bs ss" "slab_avail ss 3 \<noteq> {}"
    and "insn 0 0 = (a, b, c, d)" "NUL \<notin> set (reg_chars b @ reg_chars c @ reg_chars d)"
  shows "\<exists>p ss' mem'. cpu_get_vendor_string insn ecx0 (ss, mem) = Some (p, ss', mem') \<and>
    p \<in> slab_avail ss 3 \<and> slab_ok bs ss' \<and> (\<forall>m. slab_avail ss' m = (if m = 3 then slab_avail ss 3 - {p} else slab_avail ss m)) \<and>
    chars_at mem' p 13 = reg_chars b @ reg_chars d @ reg_chars c @ [NUL] \<and>
    (\<forall>x. \<not> unat (x - p) < 16 \<longrightarrow> mem' x = mem x)"
proof -
  obtain ss' p where p: "slab_alloc ss 16 = Some (ss', p)" "p \<in> slab_avail ss 3" "slab_ok bs ss'"
    "p \<in> slots bs 3" "\<And>m. slab_avail ss' m = (if m = 3 then slab_avail ss 3 - {p} else slab_avail ss m)"
  proof -
    have three: "2 ^ Suc 3 = (16 :: u64)" "(3 :: nat) < 11" by simp_all
    show ?thesis using slab_alloc_avail [OF assms(1) three(2) assms(2), unfolded three(1)] that by metis
  qed
  have "p \<noteq> NULL" using slot_nonnull [of bs 3 p] p(4) assms(1) by (simp add: slab_ok_def)
  let ?t = "reg_chars b @ reg_chars d @ reg_chars c"
  define buf where "buf = ?t @ [NUL] @ drop 13 (chars_at mem p 16)"
  have n12: "unat (13 :: u64) - 1 = 12" by simp
  have "length (chars_at mem p 16) = 16" by (simp add: chars_at_def)
  then have run: "snprintf False (chars_at mem p 16) 13 ''%.4s%.4s%.4s''
      [Va_Str (reg_chars b @ reg_chars c @ reg_chars d), Va_Str (reg_chars d), Va_Str (reg_chars c @ reg_chars d)] =
      Some (buf, 12)"
    unfolding snprintf_def buffer_printed vendor_text [OF assms(4)] Option.bind.bind_lunit
    by (simp add: n12 buf_def to_int32_small)
  have len: "length buf = 16" by (simp add: buf_def chars_at_def)
  have "cpu_get_vendor_string insn ecx0 (ss, mem) = Some (p, ss', put_chars mem p buf)"
    using p(1) assms(3) run \<open>p \<noteq> NULL\<close>
    by (simp add: cpu_get_vendor_string_def cpuid_def CPUID_GET_VENDOR_STRING_def)
  moreover have "chars_at (put_chars mem p buf) p 13 = ?t @ [NUL]"
    using chars_at_put_chars [of 13 buf mem p] len by (simp add: buf_def)
  ultimately show ?thesis
    using p(2,3,5) len by (auto simp: put_chars_def)
qed

section \<open>Properties\<close>

text \<open>
  C31: with an object of 16 bytes left, \<open>cpu_get_vendor_string\<close> takes one such object and writes the twelve characters
  that the processor gives in \<open>ebx\<close>, \<open>edx\<close> and \<open>ecx\<close>, in this order and terminated, into it and nowhere else; the slabs
  keep their invariant. (A vendor's characters are not zero.)
\<close>

theorem cpu_get_vendor_string_correct:
  assumes "slab_ok bs ss" "slab_avail ss 3 \<noteq> {}"
    and "insn 0 0 = (a, b, c, d)" "NUL \<notin> set (reg_chars b @ reg_chars c @ reg_chars d)"
  shows "\<exists>p ss' mem'. cpu_get_vendor_string insn ecx0 (ss, mem) = Some (p, ss', mem') \<and>
    p \<in> slab_avail ss 3 \<and> slab_ok bs ss' \<and> slab_avail ss' 3 = slab_avail ss 3 - {p} \<and>
    chars_at mem' p 13 = reg_chars b @ reg_chars d @ reg_chars c @ [NUL] \<and>
    (\<forall>x. \<not> unat (x - p) < 16 \<longrightarrow> mem' x = mem x)"
proof -
  obtain p ss' mem' where *: "cpu_get_vendor_string insn ecx0 (ss, mem) = Some (p, ss', mem')"
    "p \<in> slab_avail ss 3" "slab_ok bs ss'" "\<forall>m. slab_avail ss' m = (if m = 3 then slab_avail ss 3 - {p} else slab_avail ss m)"
    "chars_at mem' p 13 = reg_chars b @ reg_chars d @ reg_chars c @ [NUL]" "\<forall>x. \<not> unat (x - p) < 16 \<longrightarrow> mem' x = mem x"
    using vendor_string_written [where insn = insn, OF assms, of ecx0 mem] by (elim exE conjE)
  then show ?thesis by auto
qed

text \<open>A processor that answers ``GenuineIntel''.\<close>

definition genuine_intel :: cpuid_insn where
  "genuine_intel l s = (if l = 0 then (0xD, 0x756E6547, 0x6C65746E, 0x49656E69) else (0, 0, 0, 0x200))"

theorem cpu_get_vendor_string_correct_witness:
  "\<exists>p ss' mem'. cpu_get_vendor_string genuine_intel 0 (slab_sample, \<lambda>_. 0) = Some (p, ss', mem') \<and>
     chars_at mem' p 13 = ''GenuineIntel'' @ [NUL]"
proof -
  have "slab_avail slab_sample 3 \<noteq> {}" by (simp add: slab_sample_avail slots_nonempty)
  moreover have "genuine_intel 0 0 = (0xD, 0x756E6547, 0x6C65746E, 0x49656E69)" by (simp add: genuine_intel_def)
  moreover have "NUL \<notin> set (reg_chars 0x756E6547 @ reg_chars 0x6C65746E @ reg_chars 0x49656E69)" by code_simp
  moreover have "reg_chars 0x756E6547 @ reg_chars 0x49656E69 @ reg_chars 0x6C65746E @ [NUL] = ''GenuineIntel'' @ [NUL]"
    by code_simp
  ultimately show ?thesis
    using cpu_get_vendor_string_correct [OF slab_sample_ok] by metis
qed

end
