(* ===== verification/Apic.thy ===== *)
theory Apic
  imports Console Acpi Cpu
begin

text \<open>
  \<open>devices/apic\<close>: the local and the I/O interrupt controllers, which are accessed through memory. What a 32-bit access
  to an address does is a parameter, an \<open>'m mmio\<close>; for the properties it is a documented
  local controller or ordinary memory. \<open>__FILE__\<close> is the parameter \<open>file\<close>.
\<close>

section \<open>Memory-mapped devices\<close>

record 'm mmio =
  mmio_read :: "u64 \<Rightarrow> 'm \<Rightarrow> u32 \<times> 'm"
  mmio_write :: "u64 \<Rightarrow> u32 \<Rightarrow> 'm \<Rightarrow> 'm"

definition APIC_SPURIOUS_VECTOR_REGISTER :: u32 where "APIC_SPURIOUS_VECTOR_REGISTER = 0xF"
definition APIC_EOI_REGISTER :: u32 where "APIC_EOI_REGISTER = 0xB0"
definition APIC_SOFTWARE_ENABLE :: u32 where "APIC_SOFTWARE_ENABLE = 2 ^ 8"

section \<open>The local controller\<close>

definition apic_is_available :: "cpuid_insn \<Rightarrow> u32 \<Rightarrow> bool" where
  "apic_is_available insn ecx0 =
     (let regs = snd (cpuid insn ecx0 \<lparr>leaf = CPUID_GET_FEATURES, subleaf = 0,
       cpu_eax = 0, cpu_ebx = 0, cpu_ecx = 0, cpu_edx = 0\<rparr>)
      in cpu_edx regs AND CPUID_FEAT_EDX_APIC \<noteq> 0)"

text \<open>A read counts the register in words, a write in bytes.\<close>

definition lapic_read_register :: "'m mmio \<Rightarrow> u64 \<Rightarrow> u32 \<Rightarrow> 'm \<Rightarrow> u32 \<times> 'm" where
  "lapic_read_register mmio lapic_base reg m = mmio_read mmio (lapic_base + 4 * ucast reg) m"

definition lapic_write_register :: "'m mmio \<Rightarrow> u64 \<Rightarrow> u32 \<Rightarrow> u32 \<Rightarrow> 'm \<Rightarrow> 'm" where
  "lapic_write_register mmio lapic_base reg data m = mmio_write mmio (lapic_base + ucast reg) data m"

definition lapic_enable :: "'m mmio \<Rightarrow> u64 \<Rightarrow> 'm \<Rightarrow> 'm" where
  "lapic_enable mmio lapic_base =
     lapic_write_register mmio lapic_base APIC_SPURIOUS_VECTOR_REGISTER (APIC_SOFTWARE_ENABLE OR ucast SPURIOUS_INTERRUPT)"

definition lapic_signal_eoi :: "'m mmio \<Rightarrow> u64 \<Rightarrow> 'm \<Rightarrow> 'm" where
  "lapic_signal_eoi mmio lapic_base = lapic_write_register mmio lapic_base APIC_EOI_REGISTER 0"

section \<open>Initialisation\<close>

record ('d, 's, 'm) apic_machine =
  ap_buffers :: log_buffers
  ap_devices :: 'd
  ap_screen :: 's
  ap_mmio :: 'm
  lapic_base :: u64

text \<open>The code halts the processor, or returns.\<close>

datatype 'a init_result = Stopped 'a | Ready 'a

definition log_both ::
    "'d bus \<Rightarrow> 's screen \<Rightarrow> string \<Rightarrow> u64 \<Rightarrow> string \<Rightarrow> ('d, 's, 'm) apic_machine \<Rightarrow> ('d, 's, 'm) apic_machine option" where
  "log_both bus screen file line fmt st = do {
     (b, d) \<leftarrow> serial_log_impl bus file line ERROR fmt [] (ap_buffers st, ap_devices st);
     (b, s) \<leftarrow> kernel_log_impl screen file (line + 1) ERROR fmt [] (b, ap_screen st);
     Some (st\<lparr>ap_buffers := b, ap_devices := d, ap_screen := s\<rparr>)
   }"

definition no_apic :: string where "no_apic = ''No APIC was found on this computer!'' @ NL"
definition halted_msg :: string where "halted_msg = ''Kernel halted!'' @ NL"

definition apic_init ::
    "string \<Rightarrow> 'd bus \<Rightarrow> 's screen \<Rightarrow> 'm mmio \<Rightarrow> cpuid_insn \<Rightarrow> u32 \<Rightarrow> u64 \<Rightarrow> acpi_state \<Rightarrow> ('d, 's, 'm) apic_machine \<Rightarrow>
     ('d, 's, 'm) apic_machine init_result option" where
  "apic_init file bus screen mmio insn ecx0 cr4 acpi st =
     (if \<not> apic_is_available insn ecx0 then do {
        st \<leftarrow> log_both bus screen file 37 no_apic st;
        st \<leftarrow> log_both bus screen file 41 halted_msg st;
        Some (Stopped st)
      }
      else
        (let st = st\<lparr>lapic_base := phys_to_higher_half_data cr4 (ucast (load32 (a_mem acpi) (madt acpi + 36)))\<rparr>;
             d = snd (run_state (pic_remap bus) (ap_devices st));
             d = snd (run_state (pic_disable bus) d)
         in Some (Ready (st\<lparr>ap_devices := d, ap_mmio := lapic_enable mmio (lapic_base st) (ap_mmio st)\<rparr>))))"

section \<open>The I/O controllers\<close>

text \<open>\<open>madt_io_apics[i]\<close>, the address of a record of the table, is used as the address of the controller.\<close>

definition current_io_apic_base :: "acpi_state \<Rightarrow> u64 \<Rightarrow> u64" where
  "current_io_apic_base acpi io_apic_i = load64 (a_mem acpi) (madt_io_apics acpi + 8 * io_apic_i)"

definition io_apic_read_register :: "'m mmio \<Rightarrow> acpi_state \<Rightarrow> u64 \<Rightarrow> u8 \<Rightarrow> 'm \<Rightarrow> u32 \<times> 'm" where
  "io_apic_read_register mmio acpi io_apic_i reg_offset m =
     (let base = current_io_apic_base acpi io_apic_i;
          m = mmio_write mmio base (ucast reg_offset) m
      in mmio_read mmio (base + 4 * 0x10) m)"

definition io_apic_write_register :: "'m mmio \<Rightarrow> acpi_state \<Rightarrow> u64 \<Rightarrow> u8 \<Rightarrow> u32 \<Rightarrow> 'm \<Rightarrow> 'm" where
  "io_apic_write_register mmio acpi io_apic_i reg_offset data m =
     (let base = current_io_apic_base acpi io_apic_i;
          m = mmio_write mmio base (ucast reg_offset) m
      in mmio_write mmio (base + 4 * 0x10) data m)"

section \<open>A local controller\<close>

text \<open>
  The documented registers that the driver means to use: the spurious interrupt vector register at offset 0xF0, whose bit 8 enables the
  controller, and the end-of-interrupt register at offset 0xB0. An access to another offset has no effect on them.
\<close>

record lapic =
  svr :: u32
  eois :: nat

definition lapic_device :: "u64 \<Rightarrow> lapic mmio" where
  "lapic_device base =
     \<lparr>mmio_read = (\<lambda>a d. (if a = base + 0xF0 then svr d else 0, d)),
      mmio_write = (\<lambda>a v d. if a = base + 0xF0 then d\<lparr>svr := v\<rparr>
        else if a = base + 0xB0 then d\<lparr>eois := Suc (eois d)\<rparr> else d)\<rparr>"

lemma base_offset: "(base :: u64) + a = base + b \<longleftrightarrow> a = b"
  by simp

lemma lapic_enable_device: "lapic_enable (lapic_device base) base d = d"
  by (simp add: lapic_enable_def lapic_write_register_def lapic_device_def APIC_SPURIOUS_VECTOR_REGISTER_def)

lemma log_both_runs:
  assumes "drains bus busy sent" "text_screen screen ok displ" "buffers_ok (ap_buffers st)" "ok (ap_screen st)"
    and "format_text fmt [] = Some msg" "NUL \<notin> set msg" "NUL \<notin> set file"
    and "to_int32 line \<noteq> - (2 ^ 31)" "to_int32 (line + 1) \<noteq> - (2 ^ 31)"
    and "length (log_line file line msg) < 5120" "length (status_tag ERROR @ log_line file (line + 1) msg) < 5120"
    and "displ (status_tag ERROR @ log_line file (line + 1) msg)"
  shows "\<exists>st'. log_both bus screen file line fmt st = Some st' \<and> buffers_ok (ap_buffers st') \<and> ok (ap_screen st') \<and>
    sent (ap_devices st') = sent (ap_devices st) @
      bytes (status_color ERROR @ status_tag ERROR @ log_line file line msg @ TERM_COLOR_RESET) \<and>
    ap_mmio st' = ap_mmio st"
proof -
  obtain b d where serial: "serial_log_impl bus file line ERROR fmt [] (ap_buffers st, ap_devices st) = Some (b, d)"
    "buffers_ok b" "sent d = sent (ap_devices st) @
      bytes (status_color ERROR @ status_tag ERROR @ log_line file line msg @ TERM_COLOR_RESET)"
    using serial_log_sends [OF assms(1,5-8,10), of ERROR] assms(3) unfolding sends_def by blast
  obtain b' s where "kernel_log_impl screen file (line + 1) ERROR fmt [] (b, ap_screen st) = Some (b', s)"
    "buffers_ok b'" "ok s"
    using text_screen.kernel_log_keeps [OF assms(2,5-7,9,11,12)] serial(2) assms(4) unfolding keeps_def by blast
  with serial show ?thesis by (simp add: log_both_def)
qed

lemma messages:
  "format_text no_apic [] = Some no_apic" "NUL \<notin> set no_apic" "format_text halted_msg [] = Some halted_msg" "NUL \<notin> set halted_msg"
  "length no_apic < 50" "length halted_msg < 50"
proof -
  have l: "literal no_apic" "literal halted_msg" by (code_simp)+
  show "format_text no_apic [] = Some no_apic" "NUL \<notin> set no_apic" "format_text halted_msg [] = Some halted_msg" "NUL \<notin> set halted_msg"
    using literal_text(2,3) [OF l(1)] literal_text(2,3) [OF l(2)] by blast+
  show "length no_apic < 50" "length halted_msg < 50" by (code_simp)+
qed

lemma line_numbers:
  assumes "n \<in> {37, 38, 41, 42}"
  shows "to_int32 n \<noteq> - (2 ^ 31)" "length (signed_text (to_int32 n)) = 2"
proof -
  have small: "to_int32 37 = 37" "to_int32 38 = 38" "to_int32 41 = 41" "to_int32 42 = 42"
    by (simp_all add: to_int32_small)
  have "\<forall>i \<in> set [37, 38, 41, 42]. length (signed_text i) = 2" by code_simp
  then show "to_int32 n \<noteq> - (2 ^ 31)" "length (signed_text (to_int32 n)) = 2"
    using assms small by auto
qed

lemma log_line_short:
  assumes "n \<in> {37, 38, 41, 42}" "length file < 4000" "length msg < 50"
  shows "length (log_line file n msg) < 4100" "length (status_tag ERROR @ log_line file n msg) < 5120"
proof -
  show "length (log_line file n msg) < 4100"
    using assms line_numbers(2) [OF assms(1)] by (simp add: log_line_def arrow_def)
  then show "length (status_tag ERROR @ log_line file n msg) < 5120" by (simp add: status_tag_def)
qed

definition apic_error_text :: "string \<Rightarrow> u64 \<Rightarrow> string \<Rightarrow> string" where
  "apic_error_text file n msg = status_color ERROR @ status_tag ERROR @ log_line file n msg @ TERM_COLOR_RESET"

section \<open>Properties\<close>

text \<open>
  C32: without a local controller \<open>apic_init\<close> stops the processor, and not before both messages have gone out on a port that
  drains and on a screen that prints them. With one it returns: the legacy controllers raise the vectors from 32 on but every line is
  masked, and the base is the table's address in the higher half. But the controller is not enabled: its
  register at offset 0xF0 keeps its value, because the driver writes to offset 0x0F.
\<close>

theorem apic_init_correct:
  "(\<not> apic_is_available insn ecx0 \<longrightarrow> drains bus busy sent \<longrightarrow> text_screen screen ok displ \<longrightarrow>
     buffers_ok (ap_buffers st) \<longrightarrow> ok (ap_screen st) \<longrightarrow> NUL \<notin> set file \<longrightarrow> length file < 4000 \<longrightarrow>
     displ (status_tag ERROR @ log_line file 38 no_apic) \<longrightarrow> displ (status_tag ERROR @ log_line file 42 halted_msg) \<longrightarrow>
     (\<exists>st'. apic_init file bus screen mmio insn ecx0 cr4 acpi st = Some (Stopped st') \<and> ok (ap_screen st') \<and>
        sent (ap_devices st') = sent (ap_devices st) @
          bytes (apic_error_text file 37 no_apic) @ bytes (apic_error_text file 41 halted_msg) \<and>
        ap_mmio st' = ap_mmio st)) \<and>
   (apic_is_available insn ecx0 \<longrightarrow>
     (\<exists>st'. apic_init file pics_bus screen
        (lapic_device (phys_to_higher_half_data cr4 (ucast (load32 (a_mem acpi) (madt acpi + 36))))) insn ecx0 cr4 acpi st2 = Some (Ready st') \<and>
        lapic_base st' = phys_to_higher_half_data cr4 (ucast (load32 (a_mem acpi) (madt acpi + 36))) \<and>
        (\<forall>k < 16. masked (ap_devices st') k \<and> line_vector (ap_devices st') k = of_nat (32 + k)) \<and>
        svr (ap_mmio st') = svr (ap_mmio st2)))"
proof (intro conjI impI)
  assume no: "\<not> apic_is_available insn ecx0" and bus: "drains bus busy sent" and scr: "text_screen screen ok displ"
    and ok: "buffers_ok (ap_buffers st)" "ok (ap_screen st)" and path: "NUL \<notin> set file" "length file < 4000"
    and d: "displ (status_tag ERROR @ log_line file 38 no_apic)" "displ (status_tag ERROR @ log_line file 42 halted_msg)"
  have n: "to_int32 n \<noteq> - (2 ^ 31)" if "n \<in> {37, 38, 41, 42}" for n using line_numbers(1) that .
  have short: "length (log_line file n msg) < 5120" if "n \<in> {37, 38, 41, 42}" "length msg < 50" for n msg
    using log_line_short(1) [OF that(1) path(2) that(2)] by simp
  obtain st1 where st1: "log_both bus screen file 37 no_apic st = Some st1" "buffers_ok (ap_buffers st1)" "ok (ap_screen st1)"
    "sent (ap_devices st1) = sent (ap_devices st) @ bytes (apic_error_text file 37 no_apic)" "ap_mmio st1 = ap_mmio st"
    using log_both_runs [OF bus scr ok messages(1,2) path(1), of 37] n short [OF _ messages(5)]
      log_line_short(2) [OF _ path(2) messages(5)] d(1) by (auto simp: apic_error_text_def)
  obtain st2 where "log_both bus screen file 41 halted_msg st1 = Some st2" "ok (ap_screen st2)"
    "sent (ap_devices st2) = sent (ap_devices st1) @ bytes (apic_error_text file 41 halted_msg)" "ap_mmio st2 = ap_mmio st1"
    using log_both_runs [OF bus scr st1(2,3) messages(3,4) path(1), of 41] n short [OF _ messages(6)]
      log_line_short(2) [OF _ path(2) messages(6)] d(2) by (auto simp: apic_error_text_def)
  with no st1 show "\<exists>st'. apic_init file bus screen mmio insn ecx0 cr4 acpi st = Some (Stopped st') \<and> ok (ap_screen st') \<and>
      sent (ap_devices st') = sent (ap_devices st) @
        bytes (apic_error_text file 37 no_apic) @ bytes (apic_error_text file 41 halted_msg) \<and> ap_mmio st' = ap_mmio st"
    by (simp add: apic_init_def)
next
  assume yes: "apic_is_available insn ecx0"
  define base where "base = phys_to_higher_half_data cr4 (ucast (load32 (a_mem acpi) (madt acpi + 36)))"
  define d1 where "d1 = snd (run_state (pic_remap pics_bus) (ap_devices st2))"
  define d2 where "d2 = snd (run_state (pic_disable pics_bus) d1)"
  have "run_state (pic_remap pics_bus) (ap_devices st2) = ((), d1)" by (simp add: d1_def prod_eq_iff)
  note remap = remap_facts [OF this]
  have "masked d2 k \<and> line_vector d2 k = of_nat (32 + k)" if "k < 16" for k
    using remap(1) remap(2) [OF that] disabled_masks [OF remap(1) that] by (simp add: d2_def)
  then show "\<exists>st'. apic_init file pics_bus screen (lapic_device (phys_to_higher_half_data cr4 (ucast (load32 (a_mem acpi) (madt acpi + 36)))))
      insn ecx0 cr4 acpi st2 = Some (Ready st') \<and>
      lapic_base st' = phys_to_higher_half_data cr4 (ucast (load32 (a_mem acpi) (madt acpi + 36))) \<and>
      (\<forall>k < 16. masked (ap_devices st') k \<and> line_vector (ap_devices st') k = of_nat (32 + k)) \<and>
      svr (ap_mmio st') = svr (ap_mmio st2)"
    using yes by (simp add: apic_init_def base_def [symmetric] d1_def [symmetric] d2_def [symmetric] lapic_enable_device)
qed

text \<open>A processor without any feature.\<close>

definition old_cpu :: cpuid_insn where
  "old_cpu l s = (1, 0, 0, 0)"

definition apic_sample :: "'d \<Rightarrow> ('d, fb_state, lapic) apic_machine" where
  "apic_sample d = \<lparr>ap_buffers = boot_buffers, ap_devices = d, ap_screen = screen_sample,
     ap_mmio = \<lparr>svr = 0xFF, eois = 0\<rparr>, lapic_base = 0\<rparr>"

theorem apic_init_correct_witness:
  "(\<exists>st'. apic_init ''apic.c'' slow_port framebuffer_print_string (lapic_device 0) old_cpu 0 0 acpi_sample (apic_sample (0, [])) =
     Some (Stopped st') \<and> fb_ok (ap_screen st')) \<and>
   (\<exists>base st'. apic_init ''apic.c'' pics_bus framebuffer_print_string (lapic_device base) genuine_intel 0 0 acpi_sample
       (apic_sample \<lparr>master = reset_pic, slave = reset_pic, unused = 0\<rparr>) = Some (Ready st') \<and>
     masked (ap_devices st') 1 \<and> svr (ap_mmio st') = 0xFF)"
proof -
  have "\<not> apic_is_available old_cpu 0" "apic_is_available genuine_intel 0" by code_simp+
  moreover have "drains slow_port fst snd" by (simp add: drains_def slow_port_def)
  moreover have "buffers_ok boot_buffers" by (simp add: buffers_ok_def boot_buffers_def)
  moreover have plain: "displayable ''apic.c''" "displayable no_apic" "displayable halted_msg"
    by (rule plain_displayable, code_simp)+
  have "displayable (status_tag ERROR @ log_line ''apic.c'' 38 no_apic)"
    "displayable (status_tag ERROR @ log_line ''apic.c'' 42 halted_msg)"
    by (intro log_line_displayable plain)+
  moreover have "NUL \<notin> set ''apic.c''" "length ''apic.c'' < 4000" by code_simp+
  ultimately show ?thesis
    using apic_init_correct [of old_cpu 0 slow_port fst snd framebuffer_print_string fb_ok displayable "apic_sample (0, [])"
        "''apic.c''" "lapic_device 0" 0 acpi_sample]
      apic_init_correct [of genuine_intel 0 slow_port fst snd framebuffer_print_string fb_ok displayable "apic_sample (0, [])"
        "''apic.c''" "lapic_device 0" 0 acpi_sample "apic_sample \<lparr>master = reset_pic, slave = reset_pic, unused = 0\<rparr>"]
      fbs.text_screen_axioms screen_sample_ok
    unfolding apic_sample_def apic_machine.simps by fastforce
qed

text \<open>
  The local controller's registers: the end of an interrupt reaches the register; but what is written to a register is not what is
  read from it, because a read counts in words: the value of the spurious vector register is
  found under the number 0x3C.
\<close>

theorem lapic_registers:
  "eois (lapic_signal_eoi (lapic_device base) base d) = Suc (eois d) \<and>
   svr (lapic_write_register (lapic_device base) base 0xF0 v d) = v \<and>
   fst (lapic_read_register (lapic_device base) base 0xF0 d) = 0 \<and>
   fst (lapic_read_register (lapic_device base) base 0x3C d) = svr d"
  by (simp add: lapic_signal_eoi_def lapic_write_register_def lapic_read_register_def lapic_device_def APIC_EOI_REGISTER_def)

text \<open>
  An access to a register of an I/O controller goes to the table of the firmware: it overwrites the type of the record with
  the number of the register and its length with zero, and a write changes the memory 64 bytes behind the record.
\<close>

definition ram :: "(u64 \<Rightarrow> u8) mmio" where
  "ram = \<lparr>mmio_read = (\<lambda>a m. (load32 m a, m)), mmio_write = (\<lambda>a v m. store32 m a v)\<rparr>"

theorem io_apic_write_register_hits_table:
  "let p = current_io_apic_base acpi i; m' = io_apic_write_register ram acpi i reg data m in
   m' p = reg \<and> m' (p + 1) = 0 \<and> m' (p + 0x40) = ucast data \<and>
   (\<forall>a. \<not> a - p < 4 \<and> \<not> a - (p + 0x40) < 4 \<longrightarrow> m' a = m a)"
proof -
  have "ucast (ucast reg :: u32) = reg" by (rule bit_word_eqI) (auto simp: bit_simps)
  moreover have "ucast (drop_bit 8 (ucast reg :: u32)) = (0 :: u8)"
    by (rule bit_word_eqI) (auto simp: bit_simps dest: u8_bit_less)
  ultimately show ?thesis by (simp add: io_apic_write_register_def Let_def ram_def store32_def)
qed

end
