(* ===== verification/Boot_Screen.thy ===== *)
theory Boot_Screen
  imports Console
begin

text \<open>
  \<open>logo.c\<close> and \<open>boot/boot_screen.c\<close>: the logos and the splash screen. The buffer of
  \<open>printk\<close> was sized for the big logo; the theorem shows that it is large enough.
\<close>

section \<open>The logos\<close>

text \<open>The characters for drawing boxes that the logos use, in UTF-8, and the apostrophe.\<close>

definition box_h :: string where "box_h = map char_of [0xE2, 0x94, 0x80 :: nat]"
definition box_v :: string where "box_v = map char_of [0xE2, 0x94, 0x82 :: nat]"
definition box_dr :: string where "box_dr = map char_of [0xE2, 0x94, 0x8C :: nat]"
definition box_dl :: string where "box_dl = map char_of [0xE2, 0x94, 0x90 :: nat]"
definition box_ur :: string where "box_ur = map char_of [0xE2, 0x94, 0x94 :: nat]"
definition box_ul :: string where "box_ul = map char_of [0xE2, 0x94, 0x98 :: nat]"

definition full_block :: string where "full_block = map char_of [0xE2, 0x96, 0x88 :: nat]"

definition quote :: string where "quote = [char_of (39 :: nat)]"

definition text_lines :: "string list \<Rightarrow> string" where
  "text_lines ls = concat (map (\<lambda>l. l @ NL) ls)"

definition small_logo_rows :: "string list list" where
  "small_logo_rows =
    [[box_dr, box_dl, box_dr, box_h, box_dl, ''         '', box_dr, box_dl, '' '', box_dr, box_h, box_h, box_h,
       box_dl, box_dr, box_h, box_h, box_h, box_dl],
     [box_v, box_v, box_v, box_dr, box_ul, ''        '', box_dr, box_ul, box_ur, box_dl, box_v, box_dr, box_h,
       box_dl, box_v, box_v, box_dr, box_h, box_dl, box_v],
     [box_v, box_ur, box_ul, box_ul, '' '', box_dr, box_h, box_dl, '' '', box_dr, box_dl, box_dr, box_dl, box_ur,
       box_dl, box_dr, box_ul, box_v, box_v, '' '', box_v, box_v, box_v, box_ur, box_h, box_h, box_dl],
     [box_v, box_dr, box_dl, box_v, '' '', box_v, box_dr, box_dl, box_dl, box_v, box_v, box_v, box_v, '' '',
       box_v, box_v, '' '', box_v, box_v, '' '', box_v, box_v, box_ur, box_h, box_h, box_dl, box_v],
     [box_v, box_v, box_v, box_ur, box_dl, box_v, box_v, box_v, box_v, box_v, box_ur, box_ul, box_v, '' '', box_v,
       box_ur, box_dl, box_v, box_ur, box_h, box_ul, box_v, box_v, box_ur, box_h, box_ul, box_v],
     [box_ur, box_ul, box_ur, box_h, box_ul, box_ur, box_ul, box_ur, box_ul, box_ur, box_h, box_h, box_ul, '' '',
       box_ur, box_h, box_ul, box_ur, box_h, box_h, box_h, box_ul, box_ur, box_h, box_h, box_h, box_ul]]"

definition small_logo_text :: string where
  "small_logo_text = text_lines (map concat small_logo_rows)"

definition big_logo_top :: "string list" where
  "big_logo_top =
    [''MMMMMMMMMMMMMMMMMMMMMMMNKkdoooloolloox0WMMMMMMMMMMMMMMMMMMMXkl;'..    ..':oxKWMMMMMMMMMMMMMMMMMMMMMM'',
     ''MMMMMMMMMMMMMMMMMMMMWKd::lc;'...'..,:c;lKMMMMMMMMMMMMMMMMXd,.            'lc;cOWMMMMMMMMMMMMMMMMMMMM'',
     ''MMMMMMMMMMMMMMMMMMMNd;:kXk,         .co;:0NXXK00O000KKKXk;;:.            .kWKl,oNMMMMMMMMMMMMMMMMMMM'',
     ''MMMMMMMMMMMMMMMMMMXl,xNMNc            ,:.'clloooooooooll,.:c.            .xMMNd'oNMMMMMMMMMMMMMMMMMM'',
     ''MMMMMMMMMMMMMMMMMWd'xWMMWk'           .:oOXNWMMMMMMMMMWNXOdl;'          .oXMMMNo'xWMMMMMMMMMMMMMMMMM'',
     ''MMMMMMMMMMMMMMMMMXc'dkxxddc.    .. 'oOXWMMMMMMMMMMMMMMMMMMMMW0,;xxoc;'..;x0NMMMK;cNMMMMMMMMMMMMMMMMM'',
     ''MMMMMMMMMMMMMN0xlc;:looddxxo,.'o0d'dWMMMMMMMMMMMMMMMMMMMMMMMMO,oWMMMWN0:.':cld0k,lNMMMMMMMMMMMMMMMMM'',
     ''MMMMMMMMMWXkl:cld0NWMMMMNOl::xXMMO,dWMMMMMMMMMMMMMMMMMMMMMMMM0;oWMMMMMMK:,x0kl:'.lXWMMMMMMMMMMMMMMMM'',
     ''MMMMMMMW0l:cd0NMMMMMWXkl::o0NMMMM0,oWMMMMMMMMMMMMMMMMMMMMMMMMK;cNMMMMMMMKc,xNMNOoc:cdOXWMMMMMMMMMMMM'',
     ''MMMMMW0l;l0WMMMMMWKxl:cd0NMMMMMMM0,lWMMMMMMMMMMMMMMMMMMMMMMMMNl,OMMMMMMMMNo,lKMMMWKkocccxXMMMMMMMMMM'',
     ''MMMWKo;c0WMMMWKkoc:lxKWMMMMMMMMMM0,lWMMMMMMMMMMMMMMMMMMMMMMMMMK;;0MMMMMMMMWO:;xNMMMMMWXx:;dXMMMMMMMM'',
     ''MMKo;cOWMMMXxc:cdONMMMMMMMMMMMMMM0,lWMMMMMMMMMMMMMMMMMMMMMMMMMWO,cXMMMMMMMMMXd;:OWMMMMMMNk:;kNMMMMMM'',
     ''MK:;kWMMMXd;:xXWMMMMMMMMMMMMMMMMM0,lWMMMMMMMMMMMMMMMMMMMMMMMMMMWd'xWMMMMMMMMMWKl,oXMMMMMMMXo,lKWMMMM'',
     ''Nl,OMMMW0:;xNMMMMMMMMMMMMMMMMMMMMO,oWMMMMMMMMMMMMMMMMMMMMMMMMMMMX:;KMMMMMMMMMMMWk,cKMMMMMMMW0:;xNMMM'',
     ''O,oWMMWk,:0WMMMMMMMMMMMMMMMMMMMMWd,kMMMMMMMMMMMMMMMMMMMMMMMMMMMMMk,oWMMMMMMMMMMMWO,cXMMMMMMMMXo,lXMM'',
     ''o,OMMWx,lXMMMMMMMMMMMMMMMMMMMMMM0;cXMMMMMMMMMMMMMMMMMMMMMMMMMMMMMNc;0MMMMMMMMMMMMWx,oNMMMMMMMWNx,lNM'']"

definition big_logo_middle :: "string list list" where
  "big_logo_middle =
    [['';:XMMO,cNMMMMMMMMMMMMMMMMMMMMMMNl,OMM'', box_dr, box_dl, box_dr, box_h, box_dl, ''MMMMMMMMM'', box_dr,
       box_dl, ''M'', box_dr, box_h, box_h, box_h, box_dl, box_dr, box_h, box_h, box_h, box_dl,
       ''MMk,dWMMMMMMMMMMMMNl,OMMMMMMNddXo,OM''],
     ['',oWMNl,0MMMMMMMMMMMMMMMMMMMMMMMk,oWMM'', box_v, box_v, box_v, box_dr, box_ul, ''MMMMMMMM'', box_dr,
       box_ul, box_ur, box_dl, box_v, box_dr, box_h, box_dl, box_v, box_v, box_dr, box_h, box_dl, box_v,
       ''MMX::XMMMMMMMMMMMMMO,oWXKNMMK;cNk,dW''],
     ['',oXXK::XMMMMMMMMMMMMMMMMMMMMMMX:;KMMM'', box_v, box_ur, box_ul, box_ul, ''M'', box_dr, box_h, box_dl,
       ''M'', box_dr, box_dl, box_dr, box_dl, box_ur, box_dl, box_dr, box_ul, box_v, box_v, ''M'', box_v,
       box_v, box_v, box_ur, box_h, box_h, box_dl, ''MMWo,OMMMMMMMMMMMMMK;,o;lXW0:,OMO,oW''],
     ['';cx::,:XMMMMMMMMMMMMMMMMMMMMMMk,dWMMM'', box_v, box_dr, box_dl, box_v, ''M'', box_v, box_dr, box_dl,
       box_dl, box_v, box_v, box_v, box_v, ''M'', box_v, box_v, '' '', box_v, box_v, ''M'', box_v, box_v,
       box_ur, box_h, box_h, box_dl, box_v, ''MMMO,oWMMMMMMMMMMMMX;.,dXWO,:0WMX:;K''],
     [''::0x' .dKNMMMMMMMMMMMMMMMMMMMNc,0MMMM'', box_v, box_v, box_v, box_ur, box_dl, box_v, box_v, box_v, box_v,
       box_v, box_ur, box_ul, box_v, ''M'', box_v, box_ur, box_dl, box_v, box_ur, box_h, box_ul, box_v,
       box_v, box_ur, box_h, box_ul, box_v, ''MMMX::XMMMMMMMMMMMNo,oXMMK;;KWNNXx'o''],
     [''l,do,,clcclkNMMMMMMMMMMMMMMMM0,lNMMMM'', box_ur, box_ul, box_ur, box_h, box_ul, box_ur, box_ul, box_ur,
       box_ul, box_ur, box_h, box_h, box_ul, ''M'', box_ur, box_h, box_ul, box_ur, box_h, box_h, box_h,
       box_ul, box_ur, box_h, box_h, box_h, box_ul, ''MMMWd,kMMMMMMMMMMNo'oXWNx,.:lcloll,;'']]"

definition big_logo_bottom :: "string list" where
  "big_logo_bottom =
    [concat [''d'lxOXMMW0o::dXMMMMMMMMMMMMMMx,xMMMMMMMMMMMMMMMMMMMMMMMMMMMMMMMMMMMMK;:XMMMMMMNklc;,cllc'', quote,
       quote, '';,.,oONO;:''],
     ''0;cXMMMMMMMXx:;xNMMMMMMMMMMMWo,OMMMMMMMMMMMMMMMMMMMMMMMMMMMMMMMMMMMMWd,kMMMMMXc,oKNNNNXXXXNN0xd0No,x'',
     ''Wx'oNMMMMMMMMNd,c0WMMMMMMMMMNc;KMMMMMMMW0ONMMMMMMMMMMMMWK0NMMMMMMMMMMk,dWMMMXc,kWMMMMMMMMMMMMMMNd,lN'',
     ''MNd'lXMMMMMMMMW0c,dXMMMMMMMMO,lWMMMMMMMNc;KMMMMMMMMMMMMNl;KMMMMMMMMMMx,xMMMNl,kWMMMMMMMMMMMMMNk:;dNM'',
     ''MMWk,:KMMMMMMMMMNk:;xXMMMMMWd,kMMMMMMMMNl:KMMMMMMMMMMMMWd'xWMMMMMMMMK::KMW0c,xWMMMMMMMMMMMMXd::dKWMM'',
     ''MMMW0;;0MMMMMMMMMMNx:;oKWMMWo;0MMMMMMMMWK0WMMMMMMMMMMMMMXxOWMMMMMMMMd,xXkc;l0WMMMMMMMMMMMWk;;kNMMMMM'',
     ''MMMMMK:;OWMMMMMMMMMMNOl;cdO0c;KMMMMMMMMMMMMMMMMMMMMMMMMMMMMMMMMMMWNO;.;::dKWMMMMMMMMMMMMNo'lXMMMMMMM'',
     concat [''MMMMMMKc,xNMMMMMMMMMMMWXkolc'', quote, quote,
       ''lddxO0KXXNNWWMMMMMMMMMMMMWWNNX0kdoll:. .ckNMMMMMMMMMMMMMW0c,dNMMMMMMMM''],
     ''MMMMMMMXd,c0WMMMMMMMMMMMMMWNKkd:..clc,..',;:ccccccc:::;;,'...,oxkd;,oKWMMMMMMMMMMMMMMNd,c0WMMMMMMMMM'',
     ''MMMMMMMMW0c,oXMMMMMMMMMMMMMMMMMNd;:dko.                    .cKWKl,l0WMMMMMMMMMMMMMMWO:;xNMMMMMMMMMMM'',
     concat [''MMMMMMMMMMWk:;xXMMMMMMMMMMMMMMMMMXkl;:;'..'', quote, quote,
       ''............';lxOxl;cOWMMMMMMMMMMMMMMMXl,lKMMMMMMMMMMMMM''],
     ''MMMMMMMMMMMMNx:;dXWMMMMMMMMMMMMMMMMWXkollllcccccccc;.,cclllllld0WMMMMMMMMMMMMMMMNx;:OWMMMMMMMMMMMMMM'',
     ''MMMMMMMMMMMMMMNkc;oKWMMMMMMMMMMMMMMMMMMMWWNNNNNNNNNd'dNWWWWWMMMMMMMMMMMMMMMMMMXx:;xXMMMMMMMMMMMMMMMM'',
     ''MMMMMMMMMMMMMMMMWOc;l0WMMMMMMMMMMMMMMMMMMMMMMMMMMWNl,OMMMMMMMMMMMMMMMMMMMMMWKo;:xXMMMMMMMMMMMMMMMMMM'',
     ''MMMMMMMMMMMMMMMMMMW0l;lONMMMMMMMMMMMMMMMMMMMMMMMMKx;cXMMMMMMMMMMMMMMMMMMMNkc;ckNMMMMMMMMMMMMMMMMMMMM'',
     ''MMMMMMMMMMMMMMMMMMMMW0o::dKWMMMMMMMMMMMMMMMMMMMMMx',xMMMMMMMMMMMMMMMMMWKd::dKWMMMMMMMMMMMMMMMMMMMMMM'',
     ''MMMMMMMMMMMMMMMMMMMMMMMXkc:coxKNMMMMMMMMMMMMMMMMNc ;KMMMMMMMMMMMMMMMNkc;ckNMMMMMMMMMMMMMMMMMMMMMMMMM'',
     ''MMMMMMMMMMMMMMMMMMMMMMMMMWXOdl:clxKNMMMMMMMMMMMMX: cNMMMMMMMMMMMWNOo::dKWMMMMMMMMMMMMMMMMMMMMMMMMMMM'',
     ''MMMMMMMMMMMMMMMMMMMMMMMMMMMMMWN0xlcclox0XWMMMMMMK;.lNMMMMMMMMN0dlcclONMMMMMMMMMMMMMMMMMMMMMMMMMMMMMM'',
     ''MMMMMMMMMMMMMMMMMMMMMMMMMMMMMMMMMWNKOdocccldOKNWX: :XMWWNXOdlc:lxKWMMMMMMMMMMMMMMMMMMMMMMMMMMMMMMMMM'',
     ''MMMMMMMMMMMMMMMMMMMMMMMMMMMMMMMMMMMMMMMWX0xolllll,.'loollllox0NMMMMMMMMMMMMMMMMMMMMMMMMMMMMMMMMMMMMM'',
     ''MMMMMMMMMMMMMMMMMMMMMMMMMMMMMMMMMMMMMMMMMMMMMWX0OkkkkOO0KNWMMMMMMMMMMMMMMMMMMMMMMMMMMMMMMMMMMMMMMMMM'']"

definition big_logo :: string where
  "big_logo = text_lines (big_logo_top @ map concat big_logo_middle @ big_logo_bottom)"

section \<open>The splash screen\<close>

definition color_block :: string where
  "color_block = full_block @ ''color'' @ full_block @ '' ''"

definition silent_boot_screen :: "'s screen \<Rightarrow> log_buffers \<times> 's \<Rightarrow> (log_buffers \<times> 's) option" where
  "silent_boot_screen screen st = do {
     st \<leftarrow> printk screen GFX_BLUE (NL @ ''Welcome to:'' @ NL) [] st;
     st \<leftarrow> printk screen GFX_BLUE ''%s'' [Va_Str big_logo] st;
     st \<leftarrow> printk screen GFX_RED color_block [] st;
     st \<leftarrow> printk screen GFX_GREEN color_block [] st;
     st \<leftarrow> printk screen GFX_YELLOW color_block [] st;
     st \<leftarrow> printk screen GFX_BLUE color_block [] st;
     st \<leftarrow> printk screen GFX_PURPLE color_block [] st;
     st \<leftarrow> printk screen GFX_CYAN color_block [] st;
     printk screen GFX_WHITE (full_block @ ''color'' @ full_block @ NL) [] st
   }"

text \<open>Two functions of the file have no body yet.\<close>

definition verbose_boot_screen :: "'s \<Rightarrow> 's" where "verbose_boot_screen st = st"
definition switch_boot_screen :: "'s \<Rightarrow> 's" where "switch_boot_screen st = st"

section \<open>The texts\<close>

definition boxes :: "string list" where
  "boxes = [box_h, box_v, box_dr, box_dl, box_ur, box_ul, full_block]"

text \<open>The other characters of the logos.\<close>

definition textual :: "char \<Rightarrow> bool" where
  "textual c \<longleftrightarrow> plain c \<and> c \<noteq> NUL \<and> c \<noteq> CHR ''%''"

lemma logo_characters:
  "textual CHR '' ''" "textual CHR 0x27" "textual CHR '',''" "textual CHR ''.''" "textual CHR ''0''" "textual CHR '':''"
  "textual CHR '';''" "textual CHR ''K''" "textual CHR ''M''" "textual CHR ''N''" "textual CHR ''O''" "textual CHR ''W''"
  "textual CHR ''X''" "textual CHR ''c''" "textual CHR ''d''" "textual CHR ''k''" "textual CHR ''l''" "textual CHR ''o''"
  "textual CHR ''x''" "textual CHR ''C''" "textual CHR ''r''"
  by (code_simp)+

definition drawable :: "string \<Rightarrow> bool" where
  "drawable p \<longleftrightarrow> p \<in> set boxes \<or> list_all textual p"

lemma box_drawable:
  "drawable box_h" "drawable box_v" "drawable box_dr" "drawable box_dl" "drawable box_ur" "drawable box_ul" "drawable full_block"
  by (simp_all add: drawable_def boxes_def)

lemma quote_drawable: "drawable quote"
  by (simp add: drawable_def list_all_iff quote_def) (code_simp)

lemma boxes_text: "\<forall>b \<in> set boxes. displayable b \<and> literal b"
proof -
  have "displayable box_h" "displayable box_v" "displayable box_dr" "displayable box_dl" "displayable box_ur"
    "displayable box_ul" "displayable full_block"
    "literal box_h" "literal box_v" "literal box_dr" "literal box_dl" "literal box_ur" "literal box_ul" "literal full_block"
    by (code_simp)+
  then show ?thesis by (simp only: boxes_def list.set ball_simps simp_thms)
qed

lemma drawable_text:
  assumes "drawable p"
  shows "displayable p" "literal p"
proof -
  consider "p \<in> set boxes" | "\<forall>c \<in> set p. textual c" using assms by (auto simp: drawable_def list_all_iff)
  then have "displayable p \<and> literal p"
  proof cases
    case 1
    then show ?thesis using boxes_text by blast
  next
    case 2
    then have "\<forall>c \<in> set p. plain c" "literal p" by (simp_all add: textual_def literal_def)
    then show ?thesis using plain_displayable by blast
  qed
  then show "displayable p" "literal p" by simp_all
qed

lemma literal_append: "literal s \<Longrightarrow> literal t \<Longrightarrow> literal (s @ t)"
  by (auto simp: literal_def)

lemma literal_concat: "\<forall>l \<in> set ls. literal l \<Longrightarrow> literal (concat ls)"
  by (auto simp: literal_def)

lemma lines_text:
  assumes "\<forall>l \<in> set ls. displayable l \<and> literal l"
  shows "displayable (text_lines ls)" "literal (text_lines ls)"
proof -
  have nl: "literal NL" by code_simp
  have "displayable (l @ NL)" "literal (l @ NL)" if "l \<in> set ls" for l
    using assms that displayable_append [OF _ plain_texts(5)] literal_append [OF _ nl] by blast+
  then show "displayable (text_lines ls)" "literal (text_lines ls)"
    unfolding text_lines_def by (simp_all add: displayable_concat literal_concat)
qed

lemma drawable_lines:
  assumes "list_all drawable ls"
  shows "displayable (text_lines ls)" "literal (text_lines ls)"
  by (rule lines_text; use assms drawable_text in \<open>simp add: list_all_iff\<close>)+

lemma drawable_concat: "list_all drawable r \<Longrightarrow> displayable (concat r) \<and> literal (concat r)"
  using drawable_text by (simp add: list_all_iff displayable_concat literal_concat)

lemma drawable_rows:
  assumes "list_all (list_all drawable) rows"
  shows "displayable (text_lines (map concat rows))" "literal (text_lines (map concat rows))"
  by (rule lines_text; use assms drawable_concat in \<open>simp add: list_all_iff\<close>)+

lemma text_lines_append: "text_lines (xs @ ys) = text_lines xs @ text_lines ys"
  by (simp add: text_lines_def)

lemma drawable_string: "list_all textual p \<Longrightarrow> drawable p"
  by (simp add: drawable_def)

lemma drawable_concat_quotes: "list_all textual p \<Longrightarrow> list_all textual q \<Longrightarrow> drawable (concat [p, quote, quote, q])"
proof -
  have "list_all textual quote" by (simp add: quote_def) (code_simp)
  then show "list_all textual p \<Longrightarrow> list_all textual q \<Longrightarrow> drawable (concat [p, quote, quote, q])"
    by (simp add: drawable_def)
qed

lemma list_all_10: "list_all P (a # b # c # d # e # f # g # h # i # j # xs) \<longleftrightarrow>
  P a \<and> P b \<and> P c \<and> P d \<and> P e \<and> P f \<and> P g \<and> P h \<and> P i \<and> P j \<and> list_all P xs"
  by simp

lemma logo_rows:
  "list_all (list_all drawable) small_logo_rows" "list_all (list_all drawable) big_logo_middle"
  "list_all drawable big_logo_top" "list_all drawable big_logo_bottom"
  unfolding small_logo_rows_def big_logo_middle_def big_logo_top_def big_logo_bottom_def list.pred_inject simp_thms
  by (intro conjI box_drawable quote_drawable drawable_concat_quotes drawable_string;
      simp only: list_all_10 list.pred_inject logo_characters simp_thms)+

lemma logo_texts: "displayable small_logo_text" "literal small_logo_text" "displayable big_logo" "literal big_logo"
  unfolding small_logo_text_def big_logo_def text_lines_append
  by (intro displayable_append literal_append drawable_rows drawable_lines logo_rows)+

lemma length_text_lines: "length (text_lines ls) = sum_list (map length ls) + length ls"
  by (induction ls) (simp_all add: text_lines_def NL_def)

lemma length_10: "length (a # b # c # d # e # f # g # h # i # j # xs) = 10 + length xs"
  by simp

lemma logo_lengths: "length small_logo_text = 438" "length big_logo = 4714"
proof -
  have box: "length box_h = 3" "length box_v = 3" "length box_dr = 3" "length box_dl = 3" "length box_ur = 3" "length box_ul = 3"
    "length quote = 1"
    by (simp_all add: box_h_def box_v_def box_dr_def box_dl_def box_ur_def box_ul_def quote_def)
  show "length small_logo_text = 438"
    by (simp add: small_logo_text_def length_text_lines small_logo_rows_def box)
  have "length (text_lines big_logo_top) = 1616" "length (text_lines (map concat big_logo_middle)) = 876"
    "length (text_lines big_logo_bottom) = 2222"
    by (simp_all add: length_text_lines big_logo_top_def big_logo_middle_def big_logo_bottom_def box length_10)
  then show "length big_logo = 4714" by (simp add: big_logo_def text_lines_append)
qed

section \<open>What the splash screen prints\<close>

fun print_all :: "'s screen \<Rightarrow> (string \<times> u32) list \<Rightarrow> 's \<Rightarrow> 's option" where
  "print_all screen [] s = Some s"
| "print_all screen ((t, c) # r) s = Option.bind (screen t c s) (print_all screen r)"

definition splash :: "(string \<times> u32) list" where
  "splash = [(NL @ ''Welcome to:'' @ NL, GFX_BLUE), (big_logo, GFX_BLUE), (color_block, GFX_RED), (color_block, GFX_GREEN),
     (color_block, GFX_YELLOW), (color_block, GFX_BLUE), (color_block, GFX_PURPLE), (color_block, GFX_CYAN),
     (full_block @ ''color'' @ full_block @ NL, GFX_WHITE)]"

text \<open>Calls of \<open>printk\<close> whose formats are the texts.\<close>

fun printk_all :: "'s screen \<Rightarrow> (u32 \<times> string \<times> va_arg list) list \<Rightarrow> log_buffers \<times> 's \<Rightarrow> (log_buffers \<times> 's) option" where
  "printk_all screen [] st = Some st"
| "printk_all screen ((c, fmt, va) # r) st = Option.bind (printk screen c fmt va st) (printk_all screen r)"

lemma printk_all_prints:
  assumes "list_all2 (\<lambda>(c, fmt, va) (t, c'). c' = c \<and> format_text fmt va = Some t \<and> NUL \<notin> set t \<and> length t < 5120) calls texts"
    and "buffers_ok b"
  shows "\<exists>b'. buffers_ok b' \<and> printk_all screen calls (b, s) = map_option (Pair b') (print_all screen texts s)"
  using assms
proof (induction calls texts arbitrary: b s rule: list_all2_induct)
  case Nil
  then show ?case by auto
next
  case (Cons x xs y ys)
  obtain c fmt va t where xy: "x = (c, fmt, va)" "y = (t, c)" "format_text fmt va = Some t" "NUL \<notin> set t" "length t < 5120"
    using Cons.hyps by (cases x, cases y) auto
  obtain b1 where b1: "buffers_ok b1" "printk screen c fmt va (b, s) = map_option (Pair b1) (screen t c s)"
    using printk_shows [OF xy(3-5) Cons.prems, of screen c s] by (elim exE conjE)
  show ?case
  proof (cases "screen t c s")
    case None
    then show ?thesis using b1 xy by auto
  next
    case (Some s1)
    obtain b' where "buffers_ok b'" "printk_all screen xs (b1, s1) = map_option (Pair b') (print_all screen ys s1)"
      using Cons.IH [OF b1(1), of s1] by (elim exE conjE)
    then show ?thesis using b1 xy Some by (intro exI [of _ b']) simp
  qed
qed

lemma printk_all_fun:
  "printk_all screen [] = Some"
  "printk_all screen ((c, fmt, va) # r) = (\<lambda>st. Option.bind (printk screen c fmt va st) (printk_all screen r))"
  by (rule ext, simp)+

lemma silent_boot_screen_calls:
  "silent_boot_screen screen = printk_all screen
     [(GFX_BLUE, NL @ ''Welcome to:'' @ NL, []), (GFX_BLUE, ''%s'', [Va_Str big_logo]), (GFX_RED, color_block, []),
      (GFX_GREEN, color_block, []), (GFX_YELLOW, color_block, []), (GFX_BLUE, color_block, []), (GFX_PURPLE, color_block, []),
      (GFX_CYAN, color_block, []), (GFX_WHITE, full_block @ ''color'' @ full_block @ NL, [])]"
  by (rule ext) (simp only: silent_boot_screen_def printk_all_fun Option.bind_runit)

lemma splash_texts:
  "literal (NL @ ''Welcome to:'' @ NL)" "literal color_block" "literal (full_block @ ''color'' @ full_block @ NL)"
  "length (NL @ ''Welcome to:'' @ NL) < 5120" "length color_block < 5120" "length (full_block @ ''color'' @ full_block @ NL) < 5120"
  by (code_simp)+

lemma splash_formats:
  "list_all2 (\<lambda>(c, fmt, va) (t, c'). c' = c \<and> format_text fmt va = Some t \<and> NUL \<notin> set t \<and> length t < 5120)
     [(GFX_BLUE, NL @ ''Welcome to:'' @ NL, []), (GFX_BLUE, ''%s'', [Va_Str big_logo]), (GFX_RED, color_block, []),
      (GFX_GREEN, color_block, []), (GFX_YELLOW, color_block, []), (GFX_BLUE, color_block, []), (GFX_PURPLE, color_block, []),
      (GFX_CYAN, color_block, []), (GFX_WHITE, full_block @ ''color'' @ full_block @ NL, [])] splash"
proof -
  note plain = literal_text(2,3) [OF splash_texts(1)] literal_text(2,3) [OF splash_texts(2)] literal_text(2,3) [OF splash_texts(3)]
  have nul: "NUL \<notin> set big_logo" using logo_texts(4) by (rule literal_text(3))
  have "format_text ''%s'' [Va_Str big_logo] = Some big_logo" "length big_logo < 5120"
    using format_string [OF nul, of "[]" "[]"] by (simp_all add: logo_lengths)
  then show ?thesis
    unfolding splash_def list_all2_Cons list_all2_Nil prod.case using plain nul splash_texts(4-6) by (intro conjI refl) simp_all
qed

lemma splash_displayable: "\<forall>(t, c) \<in> set splash. displayable t"
proof -
  have "drawable full_block" by (rule box_drawable)
  then have block: "displayable full_block" by (rule drawable_text)
  have plain: "displayable ''Welcome to:''" "displayable ''color''"
    by (rule plain_displayable, code_simp)+
  note app = displayable_append
  have "displayable (NL @ ''Welcome to:'' @ NL)" by (rule app [OF plain_texts(5) app [OF plain(1) plain_texts(5)]])
  moreover have "displayable color_block"
    unfolding color_block_def by (rule app [OF block app [OF plain(2) app [OF block plain_texts(8)]]])
  moreover have "displayable (full_block @ ''color'' @ full_block @ NL)"
    by (rule app [OF block app [OF plain(2) app [OF block plain_texts(5)]]])
  ultimately show ?thesis using logo_texts(3) by (simp only: splash_def list.set ball_simps prod.case simp_thms)
qed

context text_screen begin

lemma print_all_keeps:
  "\<forall>(t, c) \<in> set ts. displayable t \<Longrightarrow> ok s \<Longrightarrow> \<exists>s'. print_all screen ts s = Some s' \<and> ok s'"
proof (induction ts arbitrary: s)
  case (Cons x ts)
  obtain t c where x: "x = (t, c)" by (cases x)
  then obtain s1 where "screen t c s = Some s1" "ok s1" using shown [OF Cons.prems(2), of t c] Cons.prems(1) by auto
  with Cons x show ?case by simp
qed simp

end

lemma silent_boot_screen_run:
  assumes "buffers_ok b"
  shows "\<exists>b'. buffers_ok b' \<and> silent_boot_screen screen (b, s) = map_option (Pair b') (print_all screen splash s)"
  unfolding silent_boot_screen_calls by (rule printk_all_prints [OF splash_formats assms])

section \<open>Property\<close>

text \<open>
  The splash screen prints its nine texts in order on any screen; the big logo fits the buffer of \<open>printk\<close>. On
  the framebuffer it returns and leaves a well-formed screen.
\<close>

theorem silent_boot_screen_prints:
  assumes "buffers_ok b"
  shows "(\<exists>b'. buffers_ok b' \<and> silent_boot_screen screen (b, s) = map_option (Pair b') (print_all screen splash s)) \<and>
    (fb_ok f \<longrightarrow> (\<exists>b' f'. silent_boot_screen framebuffer_print_string (b, f) = Some (b', f') \<and> buffers_ok b' \<and> fb_ok f'))"
proof (intro conjI impI)
  show "\<exists>b'. buffers_ok b' \<and> silent_boot_screen screen (b, s) = map_option (Pair b') (print_all screen splash s)"
    by (rule silent_boot_screen_run [OF assms])
  assume "fb_ok f"
  obtain f' where f': "print_all framebuffer_print_string splash f = Some f'" "fb_ok f'"
    using fbs.print_all_keeps [OF splash_displayable \<open>fb_ok f\<close>] by (elim exE conjE)
  obtain b' where b': "buffers_ok b'"
    "silent_boot_screen framebuffer_print_string (b, f) = map_option (Pair b') (print_all framebuffer_print_string splash f)"
    using silent_boot_screen_run [OF assms, of framebuffer_print_string f] by (elim exE conjE)
  show "\<exists>b' f'. silent_boot_screen framebuffer_print_string (b, f) = Some (b', f') \<and> buffers_ok b' \<and> fb_ok f'"
    using b'(1) f'(2) unfolding b'(2) f'(1) option.map by simp
qed

theorem silent_boot_screen_prints_witness:
  "\<exists>b' f'. silent_boot_screen framebuffer_print_string (boot_buffers, screen_sample) = Some (b', f') \<and> fb_ok f'"
proof -
  have "buffers_ok boot_buffers" by (simp add: buffers_ok_def boot_buffers_def)
  then show ?thesis
    using silent_boot_screen_prints [of boot_buffers "\<lambda>t c s. Some s" 0 screen_sample] screen_sample_ok by blast
qed

end
