(* ===== verification/Vmm.thy ===== *)
theory Vmm
  imports Pmm Store64 Kstring
begin

text \<open>
  \<open>kernel/memory/vmm.c\<close>: page tables. Physical memory is a function from addresses to bytes.
  While the tables are built the kernel runs on the page tables of the boot loader; the address
  translation \<open>tr\<close> they give is a parameter of the operations. \<open>cr4\<close> selects 4- or 5-level
  paging. The tables of the page allocator are not part of \<open>v_mem\<close>.
\<close>

section \<open>Data\<close>

definition GB :: u64 where
  "GB = 0x40000000"

definition PTE_PRESENT :: int where
  "PTE_PRESENT = 1"

definition PTE_READ_WRITE :: int where
  "PTE_READ_WRITE = 2"

record vmm_state =
  v_pmm :: pmm_state
  v_mem :: "u64 \<Rightarrow> u8"
  v_cr3 :: u64
  v_tlb :: "u64 list"
  root_page_directory :: u64

section \<open>Operations\<close>

definition vmm_create_page_directory ::
    "(u64 \<Rightarrow> u64) \<Rightarrow> u64 \<Rightarrow> vmm_state \<Rightarrow> (vmm_state \<times> u64) option" where
  "vmm_create_page_directory tr cr4 st = do {
     (pm, new_page_directory) \<leftarrow> pmm_alloc cr4 (v_pmm st) 1;
     let mem = fst (memset (v_mem st) (tr (higher_half_data_to_phys cr4 new_page_directory)) 0 PAGE_SIZE);
     Some (st\<lparr>v_pmm := pm, v_mem := mem\<rparr>, new_page_directory)
   }"

text \<open>An element of a table: \<open>page_map_level_X[index_X]\<close>.\<close>

definition pte_addr :: "(u64 \<Rightarrow> u64) \<Rightarrow> u64 \<Rightarrow> u64 \<Rightarrow> u64" where
  "pte_addr tr page_map_level index = tr (page_map_level + 8 * index)"

definition get_pte :: "(u64 \<Rightarrow> u64) \<Rightarrow> vmm_state \<Rightarrow> u64 \<Rightarrow> u64 \<Rightarrow> u64" where
  "get_pte tr st page_map_level index = load64 (v_mem st) (pte_addr tr page_map_level index)"

definition set_pte :: "(u64 \<Rightarrow> u64) \<Rightarrow> u64 \<Rightarrow> u64 \<Rightarrow> u64 \<Rightarrow> vmm_state \<Rightarrow> vmm_state" where
  "set_pte tr page_map_level index v st =
     st\<lparr>v_mem := store64 (v_mem st) (pte_addr tr page_map_level index) v\<rparr>"

text \<open>\<open>~(511)\<close> is a negative \<open>int\<close>, sign-extended to 64 bits.\<close>

definition vmm_get_page_map_level ::
    "(u64 \<Rightarrow> u64) \<Rightarrow> u64 \<Rightarrow> vmm_state \<Rightarrow> u64 \<Rightarrow> u64 \<Rightarrow> int \<Rightarrow> (vmm_state \<times> u64) option" where
  "vmm_get_page_map_level tr cr4 st page_map_level_X index_X flags =
     (if get_pte tr st page_map_level_X index_X AND 1 \<noteq> 0
      then Some (st, get_pte tr st page_map_level_X index_X AND word_of_int (NOT 511))
      else do {
        (pm, p) \<leftarrow> pmm_alloc cr4 (v_pmm st) 1;
        let st' = set_pte tr page_map_level_X index_X
              (higher_half_data_to_phys cr4 p OR word_of_int flags) (st\<lparr>v_pmm := pm\<rparr>);
        Some (st', get_pte tr st' page_map_level_X index_X AND word_of_int (NOT 511))
      })"

definition vmm_flush_tlb :: "u64 \<Rightarrow> vmm_state \<Rightarrow> vmm_state" where
  "vmm_flush_tlb address st = st\<lparr>v_tlb := v_tlb st @ [address]\<rparr>"

definition vmm_map_page ::
    "(u64 \<Rightarrow> u64) \<Rightarrow> u64 \<Rightarrow> u64 \<Rightarrow> u64 \<Rightarrow> u64 \<Rightarrow> int \<Rightarrow> vmm_state \<Rightarrow> vmm_state option" where
  "vmm_map_page tr cr4 current_page_directory physical_address virtual_address flags st =
     (if is_la57_enabled cr4 then do {
        let index5 = drop_bit 48 (virtual_address AND push_bit 48 0x1ff);
        let index4 = drop_bit 39 (virtual_address AND push_bit 39 0x1ff);
        let index3 = drop_bit 30 (virtual_address AND push_bit 30 0x1ff);
        let index2 = drop_bit 21 (virtual_address AND push_bit 21 0x1ff);
        let index1 = drop_bit 12 (virtual_address AND push_bit 12 0x1ff);
        let page_map_level5 = current_page_directory;
        (st, page_map_level4) \<leftarrow> vmm_get_page_map_level tr cr4 st page_map_level5 index5 flags;
        (st, page_map_level3) \<leftarrow> vmm_get_page_map_level tr cr4 st page_map_level4 index4 flags;
        (st, page_map_level2) \<leftarrow> vmm_get_page_map_level tr cr4 st page_map_level3 index3 flags;
        (st, page_map_level1) \<leftarrow> vmm_get_page_map_level tr cr4 st page_map_level2 index2 flags;
        let st = set_pte tr page_map_level1 index1 (physical_address OR word_of_int flags) st;
        Some (vmm_flush_tlb virtual_address st)
      }
      else do {
        let index4 = drop_bit 39 (virtual_address AND push_bit 39 0x1ff);
        let index3 = drop_bit 30 (virtual_address AND push_bit 30 0x1ff);
        let index2 = drop_bit 21 (virtual_address AND push_bit 21 0x1ff);
        let index1 = drop_bit 12 (virtual_address AND push_bit 12 0x1ff);
        let page_map_level4 = current_page_directory;
        (st, page_map_level3) \<leftarrow> vmm_get_page_map_level tr cr4 st page_map_level4 index4 flags;
        (st, page_map_level2) \<leftarrow> vmm_get_page_map_level tr cr4 st page_map_level3 index3 flags;
        (st, page_map_level1) \<leftarrow> vmm_get_page_map_level tr cr4 st page_map_level2 index2 flags;
        let st = set_pte tr page_map_level1 index1 (physical_address OR word_of_int flags) st;
        Some (vmm_flush_tlb virtual_address st)
      })"

definition vmm_unmap_page ::
    "(u64 \<Rightarrow> u64) \<Rightarrow> u64 \<Rightarrow> u64 \<Rightarrow> u64 \<Rightarrow> vmm_state \<Rightarrow> vmm_state option" where
  "vmm_unmap_page tr cr4 current_page_directory virtual_address st =
     (if is_la57_enabled cr4 then do {
        let index5 = drop_bit 48 (virtual_address AND push_bit 48 0x1ff);
        let index4 = drop_bit 39 (virtual_address AND push_bit 39 0x1ff);
        let index3 = drop_bit 30 (virtual_address AND push_bit 30 0x1ff);
        let index2 = drop_bit 21 (virtual_address AND push_bit 21 0x1ff);
        let index1 = drop_bit 12 (virtual_address AND push_bit 12 0x1ff);
        let page_map_level5 = current_page_directory;
        (st, page_map_level4) \<leftarrow> vmm_get_page_map_level tr cr4 st page_map_level5 index5 0;
        (st, page_map_level3) \<leftarrow> vmm_get_page_map_level tr cr4 st page_map_level4 index4 0;
        (st, page_map_level2) \<leftarrow> vmm_get_page_map_level tr cr4 st page_map_level3 index3 0;
        (st, page_map_level1) \<leftarrow> vmm_get_page_map_level tr cr4 st page_map_level2 index2 0;
        let st = set_pte tr page_map_level1 index1 0 st;
        Some (vmm_flush_tlb virtual_address st)
      }
      else do {
        let index4 = drop_bit 39 (virtual_address AND push_bit 39 0x1ff);
        let index3 = drop_bit 30 (virtual_address AND push_bit 30 0x1ff);
        let index2 = drop_bit 21 (virtual_address AND push_bit 21 0x1ff);
        let index1 = drop_bit 12 (virtual_address AND push_bit 12 0x1ff);
        let page_map_level4 = current_page_directory;
        (st, page_map_level3) \<leftarrow> vmm_get_page_map_level tr cr4 st page_map_level4 index4 0;
        (st, page_map_level2) \<leftarrow> vmm_get_page_map_level tr cr4 st page_map_level3 index3 0;
        (st, page_map_level1) \<leftarrow> vmm_get_page_map_level tr cr4 st page_map_level2 index2 0;
        let st = set_pte tr page_map_level1 index1 0 st;
        Some (vmm_flush_tlb virtual_address st)
      })"

definition vmm_activate_page_directory :: "u64 \<Rightarrow> u64 \<Rightarrow> vmm_state \<Rightarrow> vmm_state" where
  "vmm_activate_page_directory cr4 current_page_directory st =
     st\<lparr>v_cr3 := higher_half_data_to_phys cr4 current_page_directory\<rparr>"

text \<open>
  The three loops of \<open>vmm_init\<close>: \<open>n\<close> pages from physical address 0 on, page \<open>i\<close> at the
  virtual address \<open>place i\<close>.
\<close>

definition vmm_map_range ::
    "(u64 \<Rightarrow> u64) \<Rightarrow> u64 \<Rightarrow> u64 \<Rightarrow> (u64 \<Rightarrow> u64) \<Rightarrow> int \<Rightarrow> nat \<Rightarrow> vmm_state \<Rightarrow> vmm_state option" where
  "vmm_map_range tr cr4 dir place flags n st =
     for_range (\<lambda>j. let i = of_nat j * PAGE_SIZE in vmm_map_page tr cr4 dir i (place i) flags) 0 n st"

definition vmm_init :: "(u64 \<Rightarrow> u64) \<Rightarrow> u64 \<Rightarrow> vmm_state \<Rightarrow> vmm_state option" where
  "vmm_init tr cr4 st = do {
     (st, dir) \<leftarrow> vmm_create_page_directory tr cr4 st;
     let st = st\<lparr>root_page_directory := dir\<rparr>;
     st \<leftarrow> vmm_map_range tr cr4 dir (\<lambda>i. i) (PTE_PRESENT OR PTE_READ_WRITE)
       (unat (4 * GB div PAGE_SIZE)) st;
     st \<leftarrow> vmm_map_range tr cr4 dir (phys_to_higher_half_data cr4) (PTE_PRESENT OR PTE_READ_WRITE)
       (unat (4 * GB div PAGE_SIZE)) st;
     st \<leftarrow> vmm_map_range tr cr4 dir phys_to_higher_half_code PTE_PRESENT
       (unat (0x80000000 div PAGE_SIZE)) st;
     Some (vmm_activate_page_directory cr4 dir st)
   }"

end
