(* ===== verification/Vmm_Walk.thy ===== *)
theory Vmm_Walk
  imports Vmm
begin

text \<open>
  What the page tables mean: the processor's table walk, the invariant of a tree of tables
  built by \<open>vmm_map_page\<close>, and the effect of mapping and unmapping a page on every walk.
\<close>

section \<open>The walk of the processor\<close>

text \<open>
  Bits 12 to 51 of an entry are the physical address of the next table or of the page; bit 0
  says that the entry is present. Level \<open>l\<close> takes nine bits of the virtual address.
\<close>

definition ADDR_MASK :: u64 where
  "ADDR_MASK = 0x000FFFFFFFFFF000"

definition va_index :: "nat \<Rightarrow> u64 \<Rightarrow> nat" where
  "va_index l va = unat (drop_bit (9 * l + 3) va AND 0x1FF)"

primrec page_walk :: "(u64 \<Rightarrow> u8) \<Rightarrow> nat \<Rightarrow> u64 \<Rightarrow> u64 \<Rightarrow> u64 option" where
  "page_walk mem 0 a va = Some a"
| "page_walk mem (Suc l) a va =
     (let e = load64 mem (a + 8 * of_nat (va_index (Suc l) va)) in
      if even e then None else page_walk mem l (e AND ADDR_MASK) va)"

definition levels :: "u64 \<Rightarrow> nat" where
  "levels cr4 = (if is_la57_enabled cr4 then 5 else 4)"

section \<open>Addresses and entries\<close>

definition frame_addr :: "nat \<Rightarrow> u64" where
  "frame_addr f = push_bit 12 (of_nat f)"

definition ent :: "vmm_state \<Rightarrow> nat \<Rightarrow> nat \<Rightarrow> u64" where
  "ent st f i = load64 (v_mem st) (frame_addr f + 8 * of_nat i)"

lemma and_511: "x AND 0x1FF = take_bit 9 (x :: u64)"
  by (simp add: take_bit_eq_mask mask_eq_exp_minus_1)

lemma va_index_less: "va_index l va < 512"
  unfolding va_index_def and_511 by (subst unsigned_take_bit_eq) (simp add: take_bit_eq_mod)

text \<open>The index computation of the source.\<close>

lemma bit_mask9: "bit (0x1FF :: u64) n \<longleftrightarrow> n < 9"
proof -
  have "(0x1FF :: u64) = mask 9"
    by (simp add: mask_eq_exp_minus_1)
  then show ?thesis by (simp only: bit_mask_iff possible_bit_word) auto
qed

lemma source_index:
  assumes "k \<le> 48"
  shows "drop_bit k (va AND push_bit k 0x1FF) = drop_bit k (va :: u64) AND 0x1FF"
  using assms bit_imp_le_length [of va]
  by (intro bit_word_eqI) (auto simp: bit_simps bit_mask9 simp del: bit_numeral_word_iff)

lemma of_nat_va_index: "of_nat (va_index l va) = drop_bit (9 * l + 3) va AND 0x1FF"
  by (simp add: va_index_def)

lemma unat_frame_addr: "f < 2 ^ 20 \<Longrightarrow> unat (frame_addr f) = f * 4096"
  unfolding frame_addr_def push_bit_eq_mult
  by (subst unat_mult_u64) (simp_all add: unat_of_nat_u64)

lemma unat_ent_addr:
  assumes "f < 2 ^ 20" "i < 512"
  shows "unat (frame_addr f + 8 * of_nat i) = f * 4096 + 8 * i"
proof -
  have "unat (of_nat (8 * i) :: u64) = 8 * i"
    using assms(2) by (intro unat_of_nat_u64) simp
  then have i: "unat (8 * of_nat i :: u64) = 8 * i" by simp
  have "f * 4096 + 8 * i < 2 ^ 64"
    using assms by simp
  then show ?thesis
    using i unat_frame_addr [OF assms(1)] by (simp only: unat_add_u64)
qed

lemma aligned8_ent: "f < 2 ^ 20 \<Longrightarrow> i < 512 \<Longrightarrow> aligned8 (frame_addr f + 8 * of_nat i)"
  by (simp add: aligned8_def unat_ent_addr)

lemma ent_addr_inj:
  assumes "f < 2 ^ 20" "i < 512" "g < 2 ^ 20" "j < 512"
    and "frame_addr f + 8 * of_nat i = frame_addr g + 8 * of_nat j"
  shows "f = g \<and> i = j"
proof -
  have eq: "f * 4096 + 8 * i = g * 4096 + 8 * j"
    using unat_ent_addr [OF assms(1,2)] unat_ent_addr [OF assms(3,4)] assms(5) by simp
  have "f = (f * 4096 + 8 * i) div 4096" "g = (g * 4096 + 8 * j) div 4096"
    using assms by simp_all
  with eq have "f = g" by metis
  with eq show ?thesis by simp
qed

text \<open>An entry is the address of a frame with flags below 512 in its low bits.\<close>

lemma bit_below:
  assumes "unat (x :: u64) < 2 ^ k" "bit x n"
  shows "n < k"
proof -
  have "bit (unat x) n"
    using assms(2) by (simp add: bit_unsigned_iff bit_imp_le_length)
  moreover have "take_bit k (unat x) = unat x"
    using assms(1) by (simp add: take_bit_nat_eq_self)
  ultimately show ?thesis
    by (metis bit_take_bit_iff)
qed

lemma bit_frame_addr:
  assumes "f < 2 ^ 20" "bit (frame_addr f) n"
  shows "12 \<le> n \<and> n < 32"
proof
  show "12 \<le> n"
    using assms(2) by (simp add: frame_addr_def bit_push_bit_iff)
  have "unat (frame_addr f) < 2 ^ 32"
    using assms(1) by (simp add: unat_frame_addr)
  then show "n < 32"
    using assms(2) by (rule bit_below)
qed

lemma bit_ADDR_MASK: "bit ADDR_MASK n \<longleftrightarrow> 12 \<le> n \<and> n < 52"
proof -
  have eq: "ADDR_MASK = push_bit 12 (mask 40)"
    by (simp add: ADDR_MASK_def mask_eq_exp_minus_1)
  show ?thesis
    unfolding eq by (simp only: bit_push_bit_iff bit_mask_iff possible_bit_word) auto
qed

lemma bit_NOT_511: "bit (word_of_int (NOT 511) :: u64) n \<longleftrightarrow> 9 \<le> n \<and> n < 64"
proof -
  have "word_of_int (NOT 511) = (NOT (mask 9) :: u64)"
    by (simp add: mask_eq_exp_minus_1)
  then show ?thesis by (simp only: bit_not_iff bit_mask_iff possible_bit_word) auto
qed

lemma entry_masks:
  assumes "f < 2 ^ 20" "unat fl < 512"
  shows "(frame_addr f OR fl) AND ADDR_MASK = frame_addr f"
    and "(frame_addr f OR fl) AND word_of_int (NOT 511) = frame_addr f"
    and "odd (frame_addr f OR fl) \<longleftrightarrow> odd fl"
proof -
  have fl: "bit fl n \<Longrightarrow> n < 9" for n
    using bit_below [of fl 9] assms(2) by simp
  show "(frame_addr f OR fl) AND ADDR_MASK = frame_addr f"
    by (rule bit_word_eqI) (use fl bit_frame_addr [OF assms(1)] in
      \<open>fastforce simp: bit_ADDR_MASK bit_or_iff bit_and_iff\<close>)
  show "(frame_addr f OR fl) AND word_of_int (NOT 511) = frame_addr f"
  proof (rule bit_word_eqI)
    fix n
    assume "n < LENGTH(64)"
    then show "bit ((frame_addr f OR fl) AND word_of_int (NOT 511)) n = bit (frame_addr f) n"
      using fl [of n] bit_frame_addr [OF assms(1), of n]
      by (simp only: bit_NOT_511 bit_or_iff bit_and_iff) auto
  qed
  have "\<not> bit (frame_addr f) 0"
    using bit_frame_addr [OF assms(1)] by fastforce
  then show "odd (frame_addr f OR fl) \<longleftrightarrow> odd fl"
    by (simp add: bit_or_iff flip: bit_0)
qed

lemma unat_word_of_int_small: "0 \<le> x \<Longrightarrow> x < 512 \<Longrightarrow> unat (word_of_int x :: u64) = nat x"
  by (simp add: unat_eq_nat_uint uint_word_of_int)

lemma odd_word_of_int: "odd (word_of_int x :: u64) \<longleftrightarrow> odd x"
  by (simp add: bit_word_of_int_iff flip: bit_0)

lemma and_1_nonzero: "x AND 1 \<noteq> 0 \<longleftrightarrow> odd (x :: u64)"
  by (simp add: and_one_eq odd_iff_mod_2_eq_one)

section \<open>The invariant\<close>

text \<open>
  The boot loader maps the first 4 GiB both at their own address and in the higher half.
\<close>

definition boot_map :: "u64 \<Rightarrow> (u64 \<Rightarrow> u64) \<Rightarrow> bool" where
  "boot_map cr4 tr \<longleftrightarrow>
     (\<forall>a. unat a < 2 ^ 32 \<longrightarrow> tr a = a \<and> tr (phys_to_higher_half_data cr4 a) = a)"

text \<open>
  A tree of tables, described by the level of each frame (0 for a frame that holds no table)
  and, for each table below the root, by the entry that points to it. Pages that the allocator
  can still hand out lie below 4 GiB and are filled with zeros.
\<close>

definition vmm_inv :: "(nat \<Rightarrow> nat) \<Rightarrow> (nat \<Rightarrow> nat \<times> nat) \<Rightarrow> vmm_state \<Rightarrow> bool" where
  "vmm_inv lvl par st \<longleftrightarrow> pmm_ok (v_pmm st) \<and>
     (\<forall>f \<in> pmm_avail (v_pmm st). f < 2 ^ 20 \<and> lvl f = 0 \<and> (\<forall>i < 512. ent st f i = 0)) \<and>
     (\<forall>f. lvl f \<noteq> 0 \<longrightarrow> f < 2 ^ 20) \<and>
     (\<forall>f i. 2 \<le> lvl f \<and> i < 512 \<and> odd (ent st f i) \<longrightarrow>
        (\<exists>g fl. ent st f i = frame_addr g OR fl \<and> unat fl < 512 \<and> lvl g = lvl f - 1 \<and> par g = (f, i)))"

lemma vmm_inv_entry:
  assumes "vmm_inv lvl par st" "lvl f = Suc n" "0 < n" "i < 512" "odd (ent st f i)"
  obtains g where "lvl g = n" "par g = (f, i)" "g < 2 ^ 20"
    "ent st f i AND ADDR_MASK = frame_addr g" "ent st f i AND word_of_int (NOT 511) = frame_addr g"
proof -
  obtain g fl where *: "ent st f i = frame_addr g OR fl" "unat fl < 512" "lvl g = n" "par g = (f, i)"
  proof -
    have "2 \<le> lvl f \<and> i < 512 \<and> odd (ent st f i)"
      using assms by simp
    then have "\<exists>g fl. ent st f i = frame_addr g OR fl \<and> unat fl < 512 \<and> lvl g = lvl f - 1 \<and> par g = (f, i)"
      using assms(1) unfolding vmm_inv_def by blast
    then show thesis
      using that assms(2) by auto
  qed
  moreover have "g < 2 ^ 20"
    using assms(1,3) *(3) by (auto simp: vmm_inv_def)
  ultimately show thesis
    using that entry_masks by metis
qed

text \<open>A table pointer as the code holds it: physical, or for the root in the higher half.\<close>

definition table_ptr :: "u64 \<Rightarrow> u64 \<Rightarrow> nat \<Rightarrow> bool" where
  "table_ptr cr4 X f \<longleftrightarrow> X = frame_addr f \<or> X = page_ptr cr4 f"

lemma page_ptr_frame: "page_ptr cr4 f = phys_to_higher_half_data cr4 (frame_addr f)"
  by (simp add: page_ptr_def frame_addr_def PAGE_SIZE_def push_bit_eq_mult)

lemma pte_addr_table:
  assumes "boot_map cr4 tr" "table_ptr cr4 X f" "f < 2 ^ 20" "i < 512"
  shows "pte_addr tr X (of_nat i) = frame_addr f + 8 * of_nat i"
proof -
  have "unat (frame_addr f + 8 * of_nat i) < 2 ^ 32"
    using assms(3,4) by (simp add: unat_ent_addr)
  then have "tr (frame_addr f + 8 * of_nat i) = frame_addr f + 8 * of_nat i"
    "tr (phys_to_higher_half_data cr4 (frame_addr f + 8 * of_nat i)) = frame_addr f + 8 * of_nat i"
    using assms(1) by (simp_all add: boot_map_def)
  moreover have "phys_to_higher_half_data cr4 (frame_addr f + 8 * of_nat i) =
      phys_to_higher_half_data cr4 (frame_addr f) + 8 * of_nat i"
    by (simp add: phys_to_higher_half_data_def algebra_simps)
  ultimately show ?thesis
    using assms(2) by (auto simp: pte_addr_def table_ptr_def page_ptr_frame)
qed

lemma get_pte_ent:
  assumes "boot_map cr4 tr" "table_ptr cr4 X f" "f < 2 ^ 20" "i < 512"
  shows "get_pte tr st X (of_nat i) = ent st f i"
  by (simp add: get_pte_def pte_addr_table [OF assms] ent_def)

lemma ent_set_pte:
  assumes "boot_map cr4 tr" "table_ptr cr4 X f" "f < 2 ^ 20" "i < 512" "g < 2 ^ 20" "j < 512"
  shows "ent (set_pte tr X (of_nat i) v st) g j = (if g = f \<and> j = i then v else ent st g j)"
proof (cases "g = f \<and> j = i")
  case True
  then show ?thesis
    by (simp add: ent_def set_pte_def pte_addr_table [OF assms(1-4)])
next
  case False
  then have "frame_addr g + 8 * of_nat j \<noteq> frame_addr f + 8 * of_nat i"
    using ent_addr_inj [OF assms(5,6,3,4)] by blast
  then have "load64 (store64 (v_mem st) (frame_addr f + 8 * of_nat i) v) (frame_addr g + 8 * of_nat j) =
      load64 (v_mem st) (frame_addr g + 8 * of_nat j)"
    using aligned8_ent assms by (intro load64_store64_other) simp_all
  then have "ent (set_pte tr X (of_nat i) v st) g j = ent st g j"
    by (simp add: ent_def set_pte_def pte_addr_table [OF assms(1-4)])
  then show ?thesis
    using False by (simp only: if_False)
qed

lemma set_pte_elsewhere:
  assumes "boot_map cr4 tr" "table_ptr cr4 X f" "f < 2 ^ 20" "i < 512" and a: "unat a div 4096 \<noteq> f"
  shows "v_mem (set_pte tr X (of_nat i) v st) a = v_mem st a"
proof -
  let ?e = "frame_addr f + 8 * of_nat i :: u64"
  have e: "unat ?e = f * 4096 + 8 * i" by (rule unat_ent_addr [OF assms(3,4)])
  have "\<not> a - ?e < 8"
  proof
    assume "a - ?e < 8"
    then have d: "unat (a - ?e) < 8" by (simp add: word_less_nat_alt)
    have "unat a = unat ((a - ?e) + ?e)" by simp
    also have "\<dots> = unat (a - ?e) + unat ?e" using d e assms(3,4) by (subst unat_add_u64) simp_all
    finally have "unat a = f * 4096 + (8 * i + unat (a - ?e))" using e by simp
    moreover have "8 * i + unat (a - ?e) < 4096" using d assms(4) by simp
    ultimately have "unat a div 4096 = f" by simp
    with a show False ..
  qed
  then show ?thesis
    by (simp add: set_pte_def pte_addr_table [OF assms(1-4)] store64_def)
qed

lemma page_walk_ent:
  "page_walk (v_mem st) (Suc l) (frame_addr f) va =
    (if even (ent st f (va_index (Suc l) va)) then None
     else page_walk (v_mem st) l (ent st f (va_index (Suc l) va) AND ADDR_MASK) va)"
  by (simp add: ent_def Let_def)

section \<open>One step down\<close>

text \<open>The state after a new table has been linked: \<open>k\<close> below entry \<open>i\<close> of \<open>f\<close>.\<close>

lemma page_walk_zero:
  assumes "\<And>j. j < 512 \<Longrightarrow> ent st g j = 0" "0 < n"
  shows "page_walk (v_mem st) n (frame_addr g) va = None"
  using assms va_index_less by (cases n) (simp_all add: page_walk_ent del: page_walk.simps)

lemma link_walk:
  assumes inv: "vmm_inv lvl par st" and f: "lvl f = Suc (Suc m)" "i < 512" "even (ent st f i)"
    and ents: "\<And>g j. \<lbrakk>g < 2 ^ 20; j < 512\<rbrakk> \<Longrightarrow>
      ent st' g j = (if g = f \<and> j = i then frame_addr k OR fl else ent st g j)"
    and k: "k < 2 ^ 20" "lvl k = 0" "\<And>j. j < 512 \<Longrightarrow> ent st k j = 0" and fl: "unat fl < 512"
    and h: "lvl h = n" "0 < n"
  shows "page_walk (v_mem st') n (frame_addr h) va = page_walk (v_mem st) n (frame_addr h) va"
  using h
proof (induction n arbitrary: h)
  case (Suc n)
  let ?j = "va_index (Suc n) va"
  have j: "?j < 512" by (rule va_index_less)
  have h: "h < 2 ^ 20"
    using inv Suc.prems by (auto simp: vmm_inv_def)
  have "k \<noteq> f" using f(1) k(2) by auto
  then have zero: "ent st' k j = 0" if "j < 512" for j
    using ents [OF k(1) that] k(3) [OF that] by simp
  show ?case
  proof (cases "h = f \<and> ?j = i")
    case True
    then have n: "n = Suc m" using f(1) Suc.prems by simp
    have new: "ent st' h ?j = frame_addr k OR fl"
      using ents [OF h j] True by simp
    have "page_walk (v_mem st) (Suc n) (frame_addr h) va = None"
      using True f(3) by (simp add: page_walk_ent del: page_walk.simps)
    moreover have "page_walk (v_mem st') n (frame_addr k) va = None"
      using n zero by (intro page_walk_zero) simp_all
    ultimately show ?thesis
      using new entry_masks(1) [OF k(1) fl] by (simp add: page_walk_ent del: page_walk.simps)
  next
    case False
    have same: "ent st' h ?j = ent st h ?j"
      using ents [OF h j] False by (simp only: if_False)
    show ?thesis
    proof (cases "even (ent st h ?j) \<or> n = 0")
      case True
      with same show ?thesis by (auto simp: page_walk_ent simp del: page_walk.simps(2))
    next
      case False
      then obtain g where g: "lvl g = n" "ent st h ?j AND ADDR_MASK = frame_addr g"
        using vmm_inv_entry [OF inv Suc.prems(1) _ j] by blast
      with False Suc.IH [OF g(1)] same show ?thesis
        by (simp add: page_walk_ent del: page_walk.simps)
    qed
  qed
qed simp

lemma vmm_inv_link:
  assumes inv: "vmm_inv lvl par st" and f: "lvl f = Suc (Suc m)" "i < 512" "even (ent st f i)"
    and ents: "\<And>g j. \<lbrakk>g < 2 ^ 20; j < 512\<rbrakk> \<Longrightarrow>
      ent st' g j = (if g = f \<and> j = i then frame_addr k OR fl else ent st g j)"
    and k: "k \<in> pmm_avail (v_pmm st)" and fl: "unat fl < 512" "odd fl"
    and pmm: "pmm_ok (v_pmm st')" "pmm_avail (v_pmm st') = pmm_avail (v_pmm st) - {k}"
  shows "vmm_inv (lvl(k := Suc m)) (par(k := (f, i))) st'"
proof -
  have avail: "g < 2 ^ 20 \<and> lvl g = 0 \<and> (\<forall>j < 512. ent st g j = 0)" if "g \<in> pmm_avail (v_pmm st)" for g
    using inv that by (simp add: vmm_inv_def)
  have small: "g < 2 ^ 20" if "lvl g \<noteq> 0" for g
    using inv that by (simp add: vmm_inv_def)
  have kf: "k \<noteq> f" using f(1) avail [OF k] by auto
  show ?thesis
    unfolding vmm_inv_def
  proof (intro conjI ballI allI impI)
    show "pmm_ok (v_pmm st')" by (rule pmm)
  next
    fix g
    assume g: "g \<in> pmm_avail (v_pmm st')"
    then have *: "g \<noteq> k" "g < 2 ^ 20" "lvl g = 0" "\<forall>j < 512. ent st g j = 0"
      using avail pmm(2) by auto
    then show "g < 2 ^ 20" "(lvl(k := Suc m)) g = 0" by simp_all
    fix j :: nat
    assume "j < 512"
    with * f(1) show "ent st' g j = 0"
      using ents [of g j] by auto
  next
    fix g
    assume "(lvl(k := Suc m)) g \<noteq> 0"
    then show "g < 2 ^ 20" using small avail [OF k] by (auto split: if_splits)
  next
    fix h j
    assume *: "2 \<le> (lvl(k := Suc m)) h \<and> j < 512 \<and> odd (ent st' h j)"
    show "\<exists>g fl. ent st' h j = frame_addr g OR fl \<and> unat fl < 512 \<and>
        (lvl(k := Suc m)) g = (lvl(k := Suc m)) h - 1 \<and> (par(k := (f, i))) g = (h, j)"
    proof (cases "h = f \<and> j = i")
      case True
      then show ?thesis
        using ents [of f i] small [of f] f kf fl by (intro exI [of _ k] exI [of _ fl]) simp
    next
      case False
      have h: "h < 2 ^ 20" using * small [of h] avail [OF k] by (auto split: if_splits)
      then have same: "ent st' h j = ent st h j"
        using ents [of h j] * False by auto
      with * avail [OF k] have "h \<noteq> k" by auto
      then have "2 \<le> lvl h \<and> j < 512 \<and> odd (ent st h j)"
        using * same by simp
      then obtain g fl' where g: "ent st h j = frame_addr g OR fl'" "unat fl' < 512"
        "lvl g = lvl h - 1" "par g = (h, j)"
        using inv unfolding vmm_inv_def by blast
      have "g \<noteq> k"
        using g(3) \<open>2 \<le> lvl h \<and> _\<close> avail [OF k] by auto
      then show ?thesis
        using g same \<open>h \<noteq> k\<close> by (intro exI [of _ g] exI [of _ fl']) simp
    qed
  qed
qed

text \<open>
  What a step of \<open>vmm_get_page_map_level\<close> does: it returns the table below, new or old;
  no walk changes, and what is known of the tree stays true.
\<close>

definition tree_grows :: "(nat \<Rightarrow> nat) \<Rightarrow> (nat \<Rightarrow> nat \<times> nat) \<Rightarrow> vmm_state \<Rightarrow>
    (nat \<Rightarrow> nat) \<Rightarrow> (nat \<Rightarrow> nat \<times> nat) \<Rightarrow> vmm_state \<Rightarrow> nat \<Rightarrow> bool" where
  "tree_grows lvl par st lvl' par' st' c \<longleftrightarrow> vmm_inv lvl' par' st' \<and>
     (\<forall>h. lvl h \<noteq> 0 \<longrightarrow> lvl' h = lvl h \<and> par' h = par h \<and>
        (\<forall>va. page_walk (v_mem st') (lvl h) (frame_addr h) va =
              page_walk (v_mem st) (lvl h) (frame_addr h) va)) \<and>
     (\<forall>h j. lvl h \<noteq> 0 \<and> j < 512 \<and> odd (ent st h j) \<longrightarrow> ent st' h j = ent st h j) \<and>
     card (pmm_avail (v_pmm st)) \<le> card (pmm_avail (v_pmm st')) + c \<and>
     pmm_avail (v_pmm st') \<subseteq> pmm_avail (v_pmm st) \<and>
     (\<forall>f. lvl f = 0 \<and> lvl' f \<noteq> 0 \<longrightarrow> f \<in> pmm_avail (v_pmm st) - pmm_avail (v_pmm st')) \<and>
     (\<forall>a. lvl' (unat a div 4096) = 0 \<longrightarrow> v_mem st' a = v_mem st a) \<and>
     v_tlb st' = v_tlb st \<and> v_cr3 st' = v_cr3 st \<and> root_page_directory st' = root_page_directory st"

lemma tree_growsD:
  assumes "tree_grows lvl par st lvl' par' st' c"
  shows "vmm_inv lvl' par' st'" and "lvl h \<noteq> 0 \<Longrightarrow> lvl' h = lvl h"
    and "lvl h \<noteq> 0 \<Longrightarrow> page_walk (v_mem st') (lvl h) (frame_addr h) va =
      page_walk (v_mem st) (lvl h) (frame_addr h) va"
    and "v_tlb st' = v_tlb st"
    and "card (pmm_avail (v_pmm st)) \<le> card (pmm_avail (v_pmm st')) + c"
    and "pmm_avail (v_pmm st') \<subseteq> pmm_avail (v_pmm st)"
    and "lvl f = 0 \<Longrightarrow> lvl' f \<noteq> 0 \<Longrightarrow> f \<in> pmm_avail (v_pmm st) - pmm_avail (v_pmm st')"
    and "lvl' (unat a div 4096) = 0 \<Longrightarrow> v_mem st' a = v_mem st a"
  using assms unfolding tree_grows_def by blast+

lemma tree_grows_refl: "vmm_inv lvl par st \<Longrightarrow> tree_grows lvl par st lvl par st c"
  by (auto simp: tree_grows_def)

lemma tree_grows_trans:
  assumes a: "tree_grows lvl par st lvl1 par1 st1 c" and b: "tree_grows lvl1 par1 st1 lvl2 par2 st2 d"
  shows "tree_grows lvl par st lvl2 par2 st2 (c + d)"
proof -
  have "lvl2 h = lvl h \<and> par2 h = par h \<and> (\<forall>va. page_walk (v_mem st2) (lvl h) (frame_addr h) va =
      page_walk (v_mem st) (lvl h) (frame_addr h) va)" if "lvl h \<noteq> 0" for h
  proof -
    have 1: "lvl1 h = lvl h" "par1 h = par h" "\<And>va. page_walk (v_mem st1) (lvl h) (frame_addr h) va =
        page_walk (v_mem st) (lvl h) (frame_addr h) va"
      using a that unfolding tree_grows_def by blast+
    then have "lvl1 h \<noteq> 0" using that by simp
    then have "lvl2 h = lvl1 h" "par2 h = par1 h"
      "\<And>va. page_walk (v_mem st2) (lvl1 h) (frame_addr h) va = page_walk (v_mem st1) (lvl1 h) (frame_addr h) va"
      using b unfolding tree_grows_def by blast+
    with 1 show ?thesis by simp
  qed
  moreover have "ent st2 h j = ent st h j" if "lvl h \<noteq> 0 \<and> j < 512 \<and> odd (ent st h j)" for h j
  proof -
    have 1: "ent st1 h j = ent st h j" "lvl1 h = lvl h"
      using a that unfolding tree_grows_def by blast+
    then have "lvl1 h \<noteq> 0 \<and> j < 512 \<and> odd (ent st1 h j)"
      using that by simp
    then have "ent st2 h j = ent st1 h j"
      using b unfolding tree_grows_def by blast
    with 1 show ?thesis by simp
  qed
  moreover have "card (pmm_avail (v_pmm st)) \<le> card (pmm_avail (v_pmm st2)) + (c + d)"
    using a b unfolding tree_grows_def by linarith
  moreover have "\<forall>f. lvl f = 0 \<and> lvl2 f \<noteq> 0 \<longrightarrow> f \<in> pmm_avail (v_pmm st) - pmm_avail (v_pmm st2)"
    using tree_growsD(6,7) [OF a] tree_growsD(6,7) [OF b] by (metis Diff_iff subsetD)
  moreover have "\<forall>x. lvl2 (unat x div 4096) = 0 \<longrightarrow> v_mem st2 x = v_mem st x"
    using tree_growsD(8) [OF a] tree_growsD(2,8) [OF b] by metis
  ultimately show ?thesis
    using a b unfolding tree_grows_def by (intro conjI) (blast | simp)+
qed

lemma pmm_alloc_frame:
  assumes "pmm_ok pm" "pmm_avail pm \<noteq> {}"
  obtains pm' k where "pmm_alloc cr4 pm 1 = Some (pm', page_ptr cr4 k)" "k \<in> pmm_avail pm"
    "pmm_avail pm' = pmm_avail pm - {k}" "pmm_ok pm'"
    "higher_half_data_to_phys cr4 (page_ptr cr4 k) = frame_addr k"
  using pmm_alloc_one [OF assms, of cr4] that
  by (metis page_ptr_frame phys_of_higher_half)

lemma get_level_step:
  assumes map: "boot_map cr4 tr" and inv: "vmm_inv lvl par st" and X: "table_ptr cr4 X f"
    and f: "lvl f = Suc (Suc m)" "i < 512" and fl: "odd flags" "0 \<le> flags" "flags < 512"
    and avail: "pmm_avail (v_pmm st) \<noteq> {}"
  shows "\<exists>st' lvl' par' g. vmm_get_page_map_level tr cr4 st X (of_nat i) flags = Some (st', frame_addr g) \<and>
    tree_grows lvl par st lvl' par' st' 1 \<and> lvl' g = Suc m \<and> par' g = (f, i) \<and>
    odd (ent st' f i) \<and> ent st' f i AND ADDR_MASK = frame_addr g"
proof -
  have small: "f < 2 ^ 20" using inv f(1) by (simp add: vmm_inv_def)
  note get = get_pte_ent [OF map X small f(2)]
  show ?thesis
  proof (cases "odd (ent st f i)")
    case True
    then obtain g where "lvl g = Suc m" "par g = (f, i)" "ent st f i AND ADDR_MASK = frame_addr g"
      "ent st f i AND word_of_int (NOT 511) = frame_addr g"
      using vmm_inv_entry [OF inv f(1) _ f(2)] by blast
    with True show ?thesis
      by (intro exI [of _ st] exI [of _ lvl] exI [of _ par] exI [of _ g])
        (simp add: vmm_get_page_map_level_def get and_1_nonzero tree_grows_refl [OF inv])
  next
    case False
    then have even: "even (ent st f i)" by simp
    have ok: "pmm_ok (v_pmm st)" using inv by (simp add: vmm_inv_def)
    obtain pm k where k: "pmm_alloc cr4 (v_pmm st) 1 = Some (pm, page_ptr cr4 k)"
      "k \<in> pmm_avail (v_pmm st)" "pmm_avail pm = pmm_avail (v_pmm st) - {k}" "pmm_ok pm"
      "higher_half_data_to_phys cr4 (page_ptr cr4 k) = frame_addr k"
      using pmm_alloc_frame [OF ok avail] by blast
    let ?fl = "word_of_int flags :: u64"
    let ?st = "set_pte tr X (of_nat i) (frame_addr k OR ?fl) (st\<lparr>v_pmm := pm\<rparr>)"
    have flw: "unat ?fl < 512" "odd ?fl"
      using fl by (simp_all add: unat_word_of_int_small odd_word_of_int)
    have kk: "k < 2 ^ 20" "lvl k = 0" "\<And>j. j < 512 \<Longrightarrow> ent st k j = 0"
      using inv k(2) by (auto simp: vmm_inv_def)
    have ents: "ent ?st g j = (if g = f \<and> j = i then frame_addr k OR ?fl else ent st g j)"
      if "g < 2 ^ 20" "j < 512" for g j
      using ent_set_pte [OF map X small f(2) that] by (simp add: ent_def)
    have pm: "pmm_ok (v_pmm ?st)" "pmm_avail (v_pmm ?st) = pmm_avail (v_pmm st) - {k}"
      using k by (simp_all add: set_pte_def)
    let ?lvl = "lvl(k := Suc m)" and ?par = "par(k := (f, i))"
    have inv': "vmm_inv ?lvl ?par ?st"
      by (rule vmm_inv_link [OF inv f even ents k(2) flw pm])
    have walk: "page_walk (v_mem ?st) (lvl h) (frame_addr h) va =
        page_walk (v_mem st) (lvl h) (frame_addr h) va" if "lvl h \<noteq> 0" for h va
      by (rule link_walk [OF inv f even ents kk flw(1)]) (use that in simp_all)
    have keep: "ent ?st h j = ent st h j" if "lvl h \<noteq> 0 \<and> j < 512 \<and> odd (ent st h j)" for h j
    proof -
      have "h < 2 ^ 20" using inv that by (simp add: vmm_inv_def)
      then show ?thesis using ents [of h j] that False by auto
    qed
    have mem: "v_mem ?st x = v_mem st x" if "?lvl (unat x div 4096) = 0" for x
    proof (rule set_pte_elsewhere [OF map X small f(2), of x "frame_addr k OR ?fl" "st\<lparr>v_pmm := pm\<rparr>", simplified])
      show "unat x div 4096 \<noteq> f" using that f(1) by (auto split: if_splits)
    qed
    have "card (pmm_avail (v_pmm st)) \<le> card (pmm_avail (v_pmm ?st)) + 1"
      using pm(2) k(2) card_Suc_Diff1 [of "pmm_avail (v_pmm st)" k] by simp
    then have "tree_grows lvl par st ?lvl ?par ?st 1"
      unfolding tree_grows_def using inv' walk keep mem pm(2) kk(2) k(2)
      by (intro conjI) (auto simp: set_pte_def)
    moreover have new: "ent ?st f i = frame_addr k OR ?fl"
      using ents [OF small f(2)] by simp
    moreover have "vmm_get_page_map_level tr cr4 st X (of_nat i) flags = Some (?st, frame_addr k)"
      using False k(1,5) new entry_masks(2) [OF kk(1) flw(1)]
      by (simp add: vmm_get_page_map_level_def get and_1_nonzero Let_def get_pte_ent [OF map X small f(2)])
    ultimately show ?thesis
      using entry_masks(1,3) [OF kk(1) flw(1)] flw(2)
      by (intro exI [of _ ?st] exI [of _ ?lvl] exI [of _ ?par] exI [of _ k]) simp
  qed
qed

section \<open>The path of an address\<close>

text \<open>From table \<open>f\<close> to the table below it on the walk of \<open>va\<close>.\<close>

definition down :: "(nat \<Rightarrow> nat) \<Rightarrow> (nat \<Rightarrow> nat \<times> nat) \<Rightarrow> vmm_state \<Rightarrow> u64 \<Rightarrow> nat \<Rightarrow> nat \<Rightarrow> bool" where
  "down lvl par st va f g \<longleftrightarrow> 2 \<le> lvl f \<and> lvl g = lvl f - 1 \<and>
     par g = (f, va_index (lvl f) va) \<and> odd (ent st f (va_index (lvl f) va)) \<and>
     ent st f (va_index (lvl f) va) AND ADDR_MASK = frame_addr g"

inductive descends :: "(nat \<Rightarrow> nat) \<Rightarrow> (nat \<Rightarrow> nat \<times> nat) \<Rightarrow> vmm_state \<Rightarrow> u64 \<Rightarrow> nat \<Rightarrow> nat \<Rightarrow> bool"
  for lvl par st va h where
  here: "descends lvl par st va h h"
| step: "descends lvl par st va h f \<Longrightarrow> down lvl par st va f g \<Longrightarrow> descends lvl par st va h g"

inductive_cases descendsE: "descends lvl par st va h g"

lemma descends_level: "descends lvl par st va h g \<Longrightarrow> lvl h \<noteq> 0 \<Longrightarrow> lvl g \<noteq> 0 \<and> lvl g \<le> lvl h"
  by (induction rule: descends.induct) (auto simp: down_def)

lemma descends_front:
  "descends lvl par st va g k \<Longrightarrow> down lvl par st va h g \<Longrightarrow> descends lvl par st va h k"
  by (induction rule: descends.induct) (auto intro: descends.intros)

lemma descends_grows:
  assumes "descends lvl par st va h g" "lvl h \<noteq> 0" "tree_grows lvl par st lvl' par' st' c"
  shows "descends lvl' par' st' va h g"
  using assms(1)
proof (induction rule: descends.induct)
  case here
  show ?case by (rule descends.here)
next
  case (step f g)
  have f: "lvl f \<noteq> 0" "lvl g \<noteq> 0"
    using descends_level [OF step.hyps(1) assms(2)] step.hyps(2) by (auto simp: down_def)
  then have "lvl' f = lvl f" "lvl' g = lvl g" "par' g = par g"
    using assms(3) by (simp_all add: tree_grows_def)
  moreover have "ent st' f (va_index (lvl f) va) = ent st f (va_index (lvl f) va)"
    using f(1) step.hyps(2) va_index_less assms(3) unfolding tree_grows_def down_def by blast
  ultimately have "down lvl' par' st' va f g"
    using step.hyps(2) by (simp add: down_def)
  with step.IH show ?case by (rule descends.step)
qed

lemma down_walk:
  assumes "down lvl par st va f g"
  shows "page_walk (v_mem st) (lvl f) (frame_addr f) va = page_walk (v_mem st) (lvl g) (frame_addr g) va"
proof -
  obtain n where "lvl f = Suc n" "lvl g = n"
    using assms by (cases "lvl f") (auto simp: down_def)
  with assms show ?thesis
    by (simp add: down_def page_walk_ent del: page_walk.simps)
qed

lemma descends_walk:
  "descends lvl par st va h g \<Longrightarrow>
    page_walk (v_mem st) (lvl h) (frame_addr h) va = page_walk (v_mem st) (lvl g) (frame_addr g) va"
  by (induction rule: descends.induct) (simp_all add: down_walk)

text \<open>Two addresses that reach the same table agree in every index above it.\<close>

lemma descends_unique:
  assumes "descends lvl par st va h g" "descends lvl par st' va' h g" "lvl h \<noteq> 0"
    and "lvl g < l" "l \<le> lvl h"
  shows "va_index l va = va_index l va'"
  using assms(1,2,4,5)
proof (induction arbitrary: l rule: descends.induct)
  case here
  then show ?case by simp
next
  case (step f g)
  have le: "lvl f \<le> lvl h"
    using descends_level [OF step.hyps(1) assms(3)] by simp
  then have "g \<noteq> h" using step.hyps(2) by (auto simp: down_def)
  then obtain f' where f': "descends lvl par st' va' h f'" "down lvl par st' va' f' g"
    using step.prems(1) by (auto elim: descendsE)
  have same: "f' = f" "va_index (lvl f) va = va_index (lvl f) va'"
    using f'(2) step.hyps(2) by (auto simp: down_def)
  show ?case
  proof (cases "l = lvl f")
    case True
    with same show ?thesis by simp
  next
    case False
    then have "lvl f < l"
      using step.prems(2) step.hyps(2) by (auto simp: down_def)
    then show ?thesis
      using step.IH step.prems(3) same(1) f'(1) by blast
  qed
qed

text \<open>A store into a last-level table changes only the walks that end in this entry.\<close>

lemma leaf_walk:
  assumes inv: "vmm_inv lvl par st" and f: "lvl f = 1"
    and ents: "\<And>g j. \<lbrakk>g < 2 ^ 20; j < 512\<rbrakk> \<Longrightarrow>
      ent st' g j = (if g = f \<and> j = i then v else ent st g j)"
    and h: "lvl h = Suc n" and other: "\<not> (descends lvl par st va h f \<and> va_index 1 va = i)"
  shows "page_walk (v_mem st') (Suc n) (frame_addr h) va = page_walk (v_mem st) (Suc n) (frame_addr h) va"
  using h other
proof (induction n arbitrary: h)
  case 0
  have "h < 2 ^ 20" using inv 0 by (simp add: vmm_inv_def)
  moreover have "\<not> (h = f \<and> va_index 1 va = i)"
    using 0 descends.here by metis
  ultimately have "ent st' h (va_index 1 va) = ent st h (va_index 1 va)"
    using ents [of h "va_index 1 va"] va_index_less by (simp only: if_False)
  then show ?case by (simp add: ent_def Let_def cong: if_cong)
next
  case (Suc n)
  let ?j = "va_index (Suc (Suc n)) va"
  have h: "h < 2 ^ 20" using inv Suc.prems by (simp add: vmm_inv_def)
  have "h \<noteq> f" using Suc.prems f by auto
  then have same: "ent st' h ?j = ent st h ?j"
    using ents [OF h va_index_less] by simp
  show ?case
  proof (cases "odd (ent st h ?j)")
    case True
    obtain g where g: "lvl g = Suc n" "par g = (h, ?j)" "ent st h ?j AND ADDR_MASK = frame_addr g"
      using vmm_inv_entry [OF inv Suc.prems(1) _ va_index_less True] by blast
    then have "down lvl par st va h g"
      using Suc.prems(1) True by (simp add: down_def)
    then have "\<not> (descends lvl par st va g f \<and> va_index 1 va = i)"
      using Suc.prems(2) descends_front by blast
    then show ?thesis
      using Suc.IH [OF g(1)] same g(3) True by (simp add: page_walk_ent del: page_walk.simps)
  next
    case False
    with same show ?thesis by (simp add: page_walk_ent del: page_walk.simps)
  qed
qed

lemma vmm_inv_leaf:
  assumes inv: "vmm_inv lvl par st" and f: "lvl f = 1"
    and ents: "\<And>g j. \<lbrakk>g < 2 ^ 20; j < 512\<rbrakk> \<Longrightarrow>
      ent st' g j = (if g = f \<and> j = i then v else ent st g j)"
    and pmm: "v_pmm st' = v_pmm st"
  shows "vmm_inv lvl par st'"
  unfolding vmm_inv_def
proof (intro conjI ballI allI impI)
  show "pmm_ok (v_pmm st')" using inv pmm by (simp add: vmm_inv_def)
next
  fix g
  assume "g \<in> pmm_avail (v_pmm st')"
  then have g: "g < 2 ^ 20 \<and> lvl g = 0 \<and> (\<forall>j < 512. ent st g j = 0)"
    using inv pmm by (simp add: vmm_inv_def)
  then show "g < 2 ^ 20" "lvl g = 0" by simp_all
  fix j :: nat
  assume "j < 512"
  with g f show "ent st' g j = 0" using ents [of g j] by auto
next
  fix g
  assume "lvl g \<noteq> 0"
  then show "g < 2 ^ 20" using inv by (simp add: vmm_inv_def)
next
  fix h j
  assume *: "2 \<le> lvl h \<and> j < 512 \<and> odd (ent st' h j)"
  then have "h < 2 ^ 20" "h \<noteq> f" using inv f by (auto simp: vmm_inv_def)
  then have same: "ent st' h j = ent st h j" using ents [of h j] * by simp
  then have "2 \<le> lvl h \<and> j < 512 \<and> odd (ent st h j)" using * by simp
  then show "\<exists>g fl. ent st' h j = frame_addr g OR fl \<and> unat fl < 512 \<and>
      lvl g = lvl h - 1 \<and> par g = (h, j)"
    using inv unfolding same vmm_inv_def by blast
qed

section \<open>Down to the last level\<close>

text \<open>
  The calls of \<open>vmm_get_page_map_level\<close> in \<open>vmm_map_page\<close> and
  \<open>vmm_unmap_page\<close>, as one recursion over the levels.
\<close>

primrec descend ::
    "(u64 \<Rightarrow> u64) \<Rightarrow> u64 \<Rightarrow> u64 \<Rightarrow> int \<Rightarrow> nat \<Rightarrow> vmm_state \<Rightarrow> u64 \<Rightarrow> (vmm_state \<times> u64) option" where
  "descend tr cr4 va flags 0 st X = Some (st, X)"
| "descend tr cr4 va flags (Suc n) st X = do {
     (st, Y) \<leftarrow> vmm_get_page_map_level tr cr4 st X (of_nat (va_index (Suc (Suc n)) va)) flags;
     descend tr cr4 va flags n st Y}"

lemma levels_cases: "levels cr4 - 1 = (if is_la57_enabled cr4 then Suc (Suc (Suc (Suc 0))) else Suc (Suc (Suc 0)))"
  by (simp add: levels_def)

lemma source_indices:
  "drop_bit 48 (va AND push_bit 48 0x1FF) = of_nat (va_index 5 va)"
  "drop_bit 39 (va AND push_bit 39 0x1FF) = of_nat (va_index 4 va)"
  "drop_bit 30 (va AND push_bit 30 0x1FF) = of_nat (va_index 3 va)"
  "drop_bit 21 (va AND push_bit 21 0x1FF) = of_nat (va_index 2 va)"
  "drop_bit 12 (va AND push_bit 12 0x1FF) = of_nat (va_index 1 va)"
  unfolding of_nat_va_index by (subst source_index; simp)+

lemma Suc_levels: "Suc (Suc (Suc (Suc (Suc 0)))) = 5" "Suc (Suc (Suc (Suc 0))) = 4"
  "Suc (Suc (Suc 0)) = 3" "Suc (Suc 0) = 2"
  by simp_all

lemma descend_2:
  "descend tr cr4 va flags 2 st X = do {
     (st, Y) \<leftarrow> vmm_get_page_map_level tr cr4 st X (of_nat (va_index 3 va)) flags;
     vmm_get_page_map_level tr cr4 st Y (of_nat (va_index 2 va)) flags}"
  by (simp add: numeral_2_eq_2 numeral_3_eq_3 case_prod_unfold)

lemma vmm_map_page_descend:
  "vmm_map_page tr cr4 dir pa va flags st = do {
     (st, X) \<leftarrow> descend tr cr4 va flags (levels cr4 - 1) st dir;
     Some (vmm_flush_tlb va (set_pte tr X (of_nat (va_index 1 va)) (pa OR word_of_int flags) st))}"
  unfolding levels_cases vmm_map_page_def source_indices Let_def
  by (simp only: descend.simps Suc_levels split: if_split)
    (simp add: case_prod_unfold descend_2)

lemma vmm_unmap_page_descend:
  "vmm_unmap_page tr cr4 dir va st = do {
     (st, X) \<leftarrow> descend tr cr4 va 0 (levels cr4 - 1) st dir;
     Some (vmm_flush_tlb va (set_pte tr X (of_nat (va_index 1 va)) 0 st))}"
  unfolding levels_cases vmm_unmap_page_def source_indices Let_def
  by (simp only: descend.simps Suc_levels split: if_split)
    (simp add: case_prod_unfold descend_2)

lemma descends_trans:
  "descends lvl par st va g k \<Longrightarrow> descends lvl par st va h g \<Longrightarrow> descends lvl par st va h k"
  by (induction rule: descends.induct) (auto intro: descends.intros)

lemma descend_result:
  assumes map: "boot_map cr4 tr" and inv: "vmm_inv lvl par st" and X: "table_ptr cr4 X f"
    and f: "lvl f = Suc n" and fl: "odd flags" "0 \<le> flags" "flags < 512"
    and avail: "n \<le> card (pmm_avail (v_pmm st))"
  shows "\<exists>st' lvl' par' Y g. descend tr cr4 va flags n st X = Some (st', Y) \<and> table_ptr cr4 Y g \<and>
    tree_grows lvl par st lvl' par' st' n \<and> lvl' g = 1 \<and> descends lvl' par' st' va f g"
  using inv X f avail
proof (induction n arbitrary: st lvl par X f)
  case 0
  then show ?case using tree_grows_refl descends.here by fastforce
next
  case (Suc n)
  let ?i = "va_index (Suc (Suc n)) va"
  have "pmm_avail (v_pmm st) \<noteq> {}" using Suc.prems(4) by auto
  then obtain st1 lvl1 par1 g1 where
    s1: "vmm_get_page_map_level tr cr4 st X (of_nat ?i) flags = Some (st1, frame_addr g1)"
    and grow1: "tree_grows lvl par st lvl1 par1 st1 1"
    and g1: "lvl1 g1 = Suc n" "par1 g1 = (f, ?i)" "odd (ent st1 f ?i)"
      "ent st1 f ?i AND ADDR_MASK = frame_addr g1"
    using get_level_step [OF map Suc.prems(1-3) va_index_less fl] by blast
  have f1: "lvl1 f = Suc (Suc n)" "vmm_inv lvl1 par1 st1"
    using grow1 Suc.prems(3) by (simp_all add: tree_grows_def)
  have "n \<le> card (pmm_avail (v_pmm st1))"
    using grow1 Suc.prems(4) by (simp add: tree_grows_def)
  note enough = this
  have "table_ptr cr4 (frame_addr g1) g1" by (simp add: table_ptr_def)
  then obtain st' lvl' par' Y g where
    s2: "descend tr cr4 va flags n st1 (frame_addr g1) = Some (st', Y)" "table_ptr cr4 Y g"
    and grow2: "tree_grows lvl1 par1 st1 lvl' par' st' n"
    and g: "lvl' g = 1" "descends lvl' par' st' va g1 g"
    using Suc.IH [OF f1(2) _ g1(1) enough] by blast
  have "down lvl1 par1 st1 va f g1"
    using f1(1) g1 by (simp add: down_def)
  then have "descends lvl1 par1 st1 va f g1"
    by (rule descends.step [OF descends.here])
  then have "descends lvl' par' st' va f g1"
    by (rule descends_grows [OF _ _ grow2]) (simp add: f1(1))
  then have path: "descends lvl' par' st' va f g"
    by (rule descends_trans [OF g(2)])
  have "tree_grows lvl par st lvl' par' st' (Suc n)"
    using tree_grows_trans [OF grow1 grow2] by simp
  moreover have "descend tr cr4 va flags (Suc n) st X = Some (st', Y)"
    using s1 s2(1) by simp
  ultimately show ?case using s2(2) path g(1) by blast
qed

section \<open>The last-level store\<close>

lemma descends_cong:
  assumes "descends lvl par st va h g"
    and "\<And>f j. 2 \<le> lvl f \<Longrightarrow> j < 512 \<Longrightarrow> ent st' f j = ent st f j"
  shows "descends lvl par st' va h g"
  using assms(1)
proof (induction rule: descends.induct)
  case (step f g)
  then have "ent st' f (va_index (lvl f) va) = ent st f (va_index (lvl f) va)"
    using assms(2) va_index_less by (simp add: down_def)
  with step.hyps(2) have "down lvl par st' va f g"
    by (simp add: down_def)
  with step.IH show ?case by (rule descends.step)
qed (rule descends.here)

definition leaf_store ::
    "(u64 \<Rightarrow> u64) \<Rightarrow> u64 \<Rightarrow> u64 \<Rightarrow> u64 \<Rightarrow> vmm_state \<Rightarrow> vmm_state" where
  "leaf_store tr X va v st = vmm_flush_tlb va (set_pte tr X (of_nat (va_index 1 va)) v st)"

lemma leaf_store_effect:
  fixes v va' :: u64
  assumes map: "boot_map cr4 tr" and inv: "vmm_inv lvl par st" and X: "table_ptr cr4 X g"
    and g: "lvl g = 1" "descends lvl par st va r g" and r: "lvl r = Suc n"
  defines "st' \<equiv> leaf_store tr X va v st"
  shows "vmm_inv lvl par st'"
    and "page_walk (v_mem st') (Suc n) (frame_addr r) va = (if even v then None else Some (v AND ADDR_MASK))"
    and "l \<in> {1..Suc n} \<Longrightarrow> va_index l va \<noteq> va_index l va' \<Longrightarrow>
      page_walk (v_mem st') (Suc n) (frame_addr r) va' = page_walk (v_mem st) (Suc n) (frame_addr r) va'"
proof -
  have small: "g < 2 ^ 20" using inv g(1) by (simp add: vmm_inv_def)
  have ents: "ent st' h j = (if h = g \<and> j = va_index 1 va then v else ent st h j)"
    if "h < 2 ^ 20" "j < 512" for h j
    using ent_set_pte [OF map X small va_index_less that, of 1 va v st]
    by (simp add: st'_def leaf_store_def vmm_flush_tlb_def ent_def)
  have pmm: "v_pmm st' = v_pmm st"
    by (simp add: st'_def leaf_store_def vmm_flush_tlb_def set_pte_def)
  show inv': "vmm_inv lvl par st'"
    by (rule vmm_inv_leaf [OF inv g(1) ents pmm])
  have upper: "ent st' f j = ent st f j" if "2 \<le> lvl f" "j < 512" for f j
  proof -
    have "f < 2 ^ 20" "f \<noteq> g" using inv that g(1) by (auto simp: vmm_inv_def)
    then show ?thesis using ents [of f j] that by simp
  qed
  have "descends lvl par st' va r g"
    using g(2) upper by (rule descends_cong)
  then have "page_walk (v_mem st') (Suc n) (frame_addr r) va = page_walk (v_mem st') (Suc 0) (frame_addr g) va"
    using descends_walk g(1) r by (metis One_nat_def)
  also have "\<dots> = (if even v then None else Some (v AND ADDR_MASK))"
    using ents [OF small va_index_less, of 1 va]
    by (subst page_walk_ent) simp
  finally show "page_walk (v_mem st') (Suc n) (frame_addr r) va =
      (if even v then None else Some (v AND ADDR_MASK))" .
  assume l: "l \<in> {1..Suc n}" "va_index l va \<noteq> va_index l va'"
  have "\<not> (descends lvl par st va' r g \<and> va_index 1 va' = va_index 1 va)"
  proof
    assume *: "descends lvl par st va' r g \<and> va_index 1 va' = va_index 1 va"
    then have "1 < l" using l by (metis atLeastAtMost_iff le_neq_implies_less)
    then have "va_index l va = va_index l va'"
      using descends_unique [OF g(2) conjunct1 [OF *], of l] r l(1) g(1) by simp
    with l(2) show False ..
  qed
  then show "page_walk (v_mem st') (Suc n) (frame_addr r) va' = page_walk (v_mem st) (Suc n) (frame_addr r) va'"
    using leaf_walk [OF inv g(1) ents r] by blast
qed

lemma page_flags_masks:
  assumes "pa AND ADDR_MASK = pa" "0 \<le> flags" "flags < 512"
  shows "(pa OR word_of_int flags) AND ADDR_MASK = pa"
proof (rule bit_word_eqI)
  fix n
  assume "n < LENGTH(64)"
  have "bit pa n \<Longrightarrow> bit ADDR_MASK n"
    using assms(1) by (metis bit_and_iff)
  moreover have "bit (word_of_int flags :: u64) n \<Longrightarrow> n < 9"
    using bit_below [of "word_of_int flags" 9] unat_word_of_int_small [OF assms(2,3)] assms(3) by simp
  ultimately show "bit ((pa OR word_of_int flags) AND ADDR_MASK) n = bit pa n"
    by (auto simp: bit_and_iff bit_or_iff bit_ADDR_MASK)
qed

section \<open>Mapping and unmapping\<close>

definition vmm_ok :: "u64 \<Rightarrow> nat \<Rightarrow> vmm_state \<Rightarrow> bool" where
  "vmm_ok cr4 r st \<longleftrightarrow> (\<exists>lvl par. vmm_inv lvl par st \<and> lvl r = levels cr4)"

text \<open>The page that a virtual address is translated to, through the tables below frame \<open>r\<close>.\<close>

definition translates :: "u64 \<Rightarrow> nat \<Rightarrow> vmm_state \<Rightarrow> u64 \<Rightarrow> u64 option" where
  "translates cr4 r st va = page_walk (v_mem st) (levels cr4) (frame_addr r) va"

definition same_page :: "u64 \<Rightarrow> u64 \<Rightarrow> u64 \<Rightarrow> bool" where
  "same_page cr4 va va' \<longleftrightarrow> (\<forall>l \<in> {1..levels cr4}. va_index l va = va_index l va')"

lemma levels_Suc: "levels cr4 = Suc (levels cr4 - 1)"
  by (simp add: levels_def)

lemma map_page_result:
  assumes map: "boot_map cr4 tr" and ok: "vmm_ok cr4 r st" and dir: "table_ptr cr4 dir r"
    and fl: "odd flags" "0 \<le> flags" "flags < 512" and pa: "pa AND ADDR_MASK = pa"
    and avail: "levels cr4 - 1 \<le> card (pmm_avail (v_pmm st))"
  obtains st' where "vmm_map_page tr cr4 dir pa va flags st = Some st'" "vmm_ok cr4 r st'"
    "translates cr4 r st' va = Some pa"
    "\<And>va'. \<not> same_page cr4 va va' \<Longrightarrow> translates cr4 r st' va' = translates cr4 r st va'"
    "v_tlb st' = v_tlb st @ [va]"
    "card (pmm_avail (v_pmm st)) \<le> card (pmm_avail (v_pmm st')) + (levels cr4 - 1)"
proof -
  let ?n = "levels cr4 - 1"
  obtain lvl par where inv: "vmm_inv lvl par st" "lvl r = Suc ?n"
    using ok levels_Suc unfolding vmm_ok_def by metis
  obtain st1 lvl1 par1 X g where d: "descend tr cr4 va flags ?n st dir = Some (st1, X)"
    "table_ptr cr4 X g" "tree_grows lvl par st lvl1 par1 st1 ?n" "lvl1 g = 1"
    "descends lvl1 par1 st1 va r g"
    using descend_result [OF map inv(1) dir inv(2) fl avail] by blast
  note grown = tree_growsD [OF d(3)]
  have inv1: "vmm_inv lvl1 par1 st1" and r1: "lvl1 r = Suc ?n"
    and walk1: "\<And>va'. page_walk (v_mem st1) (Suc ?n) (frame_addr r) va' =
      page_walk (v_mem st) (Suc ?n) (frame_addr r) va'"
    using grown(1) grown(2,3) [of r, unfolded inv(2)] by simp_all
  let ?v = "pa OR word_of_int flags"
  let ?st' = "leaf_store tr X va ?v st1"
  note leaf = leaf_store_effect [OF map inv1 d(2,4,5) r1, where v = ?v]
  show thesis
  proof
    show "vmm_map_page tr cr4 dir pa va flags st = Some ?st'"
      using d(1) by (simp add: vmm_map_page_descend leaf_store_def)
    show "vmm_ok cr4 r ?st'"
      using leaf(1) r1 levels_Suc unfolding vmm_ok_def by metis
    have "odd ?v"
      using fl(1) odd_word_of_int [of flags] by (simp add: bit_or_iff bit_word_of_int_iff flip: bit_0)
    then show "translates cr4 r ?st' va = Some pa"
      using leaf(2) page_flags_masks [OF pa fl(2,3)] levels_Suc [of cr4] by (simp add: translates_def)
    show "translates cr4 r ?st' va' = translates cr4 r st va'" if other: "\<not> same_page cr4 va va'" for va'
    proof -
      obtain l where "l \<in> {1..Suc ?n}" "va_index l va \<noteq> va_index l va'"
        using other levels_Suc [of cr4] unfolding same_page_def by auto
      from leaf(3) [OF this] walk1 show ?thesis
        using levels_Suc [of cr4] unfolding translates_def by metis
    qed
    show "v_tlb ?st' = v_tlb st @ [va]"
      using grown by (simp add: leaf_store_def vmm_flush_tlb_def set_pte_def)
    show "card (pmm_avail (v_pmm st)) \<le> card (pmm_avail (v_pmm ?st')) + ?n"
      using grown by (simp add: leaf_store_def vmm_flush_tlb_def set_pte_def)
  qed
qed

text \<open>A mapped address is reached without allocating.\<close>

lemma descend_mapped:
  assumes map: "boot_map cr4 tr" and inv: "vmm_inv lvl par st" and X: "table_ptr cr4 X f"
    and f: "lvl f = Suc n" and walk: "page_walk (v_mem st) (Suc n) (frame_addr f) va \<noteq> None"
  shows "\<exists>Y g. descend tr cr4 va flags n st X = Some (st, Y) \<and> table_ptr cr4 Y g \<and> lvl g = 1 \<and>
    descends lvl par st va f g"
  using X f walk
proof (induction n arbitrary: X f)
  case 0
  then show ?case using descends.here by fastforce
next
  case (Suc n)
  let ?i = "va_index (Suc (Suc n)) va"
  have odd: "odd (ent st f ?i)"
    using Suc.prems(3) by (auto simp: page_walk_ent simp del: page_walk.simps split: if_splits)
  have small: "f < 2 ^ 20" using inv Suc.prems(2) by (simp add: vmm_inv_def)
  obtain g where g: "lvl g = Suc n" "par g = (f, ?i)" "ent st f ?i AND ADDR_MASK = frame_addr g"
    "ent st f ?i AND word_of_int (NOT 511) = frame_addr g"
    using vmm_inv_entry [OF inv Suc.prems(2) _ va_index_less odd] by blast
  then have down: "down lvl par st va f g"
    using Suc.prems(2) odd by (simp add: down_def)
  have "page_walk (v_mem st) (Suc n) (frame_addr g) va \<noteq> None"
    using down_walk [OF down] Suc.prems(2,3) g(1) by (simp del: page_walk.simps)
  moreover have "table_ptr cr4 (frame_addr g) g" by (simp add: table_ptr_def)
  ultimately obtain Y k where Y: "descend tr cr4 va flags n st (frame_addr g) = Some (st, Y)"
    "table_ptr cr4 Y k" "lvl k = 1" "descends lvl par st va g k"
    using Suc.IH g(1) by blast
  have "descends lvl par st va f k"
    using Y(4) down by (rule descends_front)
  moreover have "descend tr cr4 va flags (Suc n) st X = Some (st, Y)"
    using Y(1) odd g(4) get_pte_ent [OF map Suc.prems(1) small va_index_less]
    by (simp add: vmm_get_page_map_level_def and_1_nonzero)
  ultimately show ?case using Y by blast
qed

lemma unmap_page_result:
  assumes map: "boot_map cr4 tr" and ok: "vmm_ok cr4 r st" and dir: "table_ptr cr4 dir r"
    and mapped: "translates cr4 r st va \<noteq> None"
  obtains st' where "vmm_unmap_page tr cr4 dir va st = Some st'" "vmm_ok cr4 r st'"
    "translates cr4 r st' va = None"
    "\<And>va'. \<not> same_page cr4 va va' \<Longrightarrow> translates cr4 r st' va' = translates cr4 r st va'"
    "v_tlb st' = v_tlb st @ [va]" "v_pmm st' = v_pmm st"
proof -
  let ?n = "levels cr4 - 1"
  obtain lvl par where inv: "vmm_inv lvl par st" "lvl r = Suc ?n"
    using ok levels_Suc unfolding vmm_ok_def by metis
  have "page_walk (v_mem st) (Suc ?n) (frame_addr r) va \<noteq> None"
    using mapped levels_Suc [of cr4] unfolding translates_def by metis
  then obtain X g where d: "descend tr cr4 va 0 ?n st dir = Some (st, X)" "table_ptr cr4 X g"
    "lvl g = 1" "descends lvl par st va r g"
    using descend_mapped [OF map inv(1) dir inv(2)] by blast
  let ?st' = "leaf_store tr X va 0 st"
  note leaf = leaf_store_effect [OF map inv(1) d(2,3,4) inv(2), where v = 0]
  show thesis
  proof
    show "vmm_unmap_page tr cr4 dir va st = Some ?st'"
      using d(1) by (simp add: vmm_unmap_page_descend leaf_store_def)
    show "vmm_ok cr4 r ?st'"
      using leaf(1) inv(2) levels_Suc unfolding vmm_ok_def by metis
    show "translates cr4 r ?st' va = None"
      using leaf(2) levels_Suc [of cr4] by (simp add: translates_def)
    show "translates cr4 r ?st' va' = translates cr4 r st va'" if other: "\<not> same_page cr4 va va'" for va'
    proof -
      obtain l where "l \<in> {1..Suc ?n}" "va_index l va \<noteq> va_index l va'"
        using other levels_Suc [of cr4] unfolding same_page_def by auto
      from leaf(3) [OF this] show ?thesis
        using levels_Suc [of cr4] unfolding translates_def by metis
    qed
    show "v_tlb ?st' = v_tlb st @ [va]" "v_pmm ?st' = v_pmm st"
      by (simp_all add: leaf_store_def vmm_flush_tlb_def set_pte_def)
  qed
qed

end
