(* ===== verification/Vmm_Map.thy ===== *)
theory Vmm_Map
  imports Vmm_Walk
begin

text \<open>
  The properties of the page tables: mapping and unmapping seen by the processor's walk, the
  ranges that \<open>vmm_init\<close> maps, and what happens when a new table is not blank.
\<close>

section \<open>Pages of a range\<close>

lemma va_index_nat: "va_index l va = unat va div 2 ^ (9 * l + 3) mod 512"
proof -
  have "unat (drop_bit (9 * l + 3) va) = unat va div 2 ^ (9 * l + 3)"
    by (simp only: unat_drop_bit_eq drop_bit_eq_div [of _ "unat va"])
  then show ?thesis
    unfolding va_index_def and_511
    by (subst unsigned_take_bit_eq) (simp only: take_bit_eq_mod, simp)
qed

lemma same_page_mod:
  assumes "same_page cr4 va va'"
  shows "unat va div 4096 mod 2 ^ 27 = unat va' div 4096 mod 2 ^ 27"
proof -
  have idx: "va_index l va = va_index l va'" if "l \<in> {1, 2, 3}" for l
    using assms that by (auto simp: same_page_def levels_def)
  have split: "x mod 2 ^ 27 = 512 * (512 * (x div 2 ^ 18 mod 512) + x div 512 mod 512) + x mod 512" for x :: nat
    using mod_mult2_eq [of x 512 "512 * 512"] mod_mult2_eq [of "x div 512" 512 512]
    by (simp add: div_mult2_eq [symmetric])
  have at: "va_index 1 v = unat v div 4096 mod 512" "va_index 2 v = unat v div 4096 div 512 mod 512"
    "va_index 3 v = unat v div 4096 div 2 ^ 18 mod 512" for v
    by (simp_all add: va_index_nat div_mult2_eq [symmetric])
  show ?thesis
    unfolding split [of "unat va div 4096"] split [of "unat va' div 4096"]
    using idx [of 1] idx [of 2] idx [of 3] unfolding at by simp
qed

text \<open>The three placements of \<open>vmm_init\<close>.\<close>

definition init_place :: "u64 \<Rightarrow> (u64 \<Rightarrow> u64) \<Rightarrow> nat \<Rightarrow> bool" where
  "init_place cr4 place n \<longleftrightarrow>
     (place = (\<lambda>i. i) \<or> place = phys_to_higher_half_data cr4) \<and> n \<le> 2 ^ 20 \<or>
     place = phys_to_higher_half_code \<and> n \<le> 2 ^ 19"

lemma range_page: "j < 2 ^ 20 \<Longrightarrow> unat (of_nat j * PAGE_SIZE) = j * 4096"
  by (rule unat_page_addr) simp

lemma init_place_page:
  assumes "init_place cr4 place n"
  obtains c where "\<And>j. j < n \<Longrightarrow> unat (place (of_nat j * PAGE_SIZE)) div 4096 mod 2 ^ 27 = c + j"
proof -
  have n: "n \<le> 2 ^ 20" using assms by (auto simp: init_place_def)
  consider "place = (\<lambda>i. i)" | "place = phys_to_higher_half_data cr4"
    | "place = phys_to_higher_half_code" "n \<le> 2 ^ 19"
    using assms by (auto simp: init_place_def)
  then show thesis
  proof cases
    case 1
    show thesis
    proof (rule that [of 0])
      fix j
      assume "j < n"
      then show "unat (place (of_nat j * PAGE_SIZE)) div 4096 mod 2 ^ 27 = 0 + j"
        using n 1 range_page [of j] by simp
    qed
  next
    case 2
    show thesis
    proof (rule that [of 0])
      fix j
      assume "j < n"
      then have j: "j < 2 ^ 20" using n by simp
      have "unat (place (of_nat j * PAGE_SIZE)) =
          (if is_la57_enabled cr4 then 0xFF00000000000000 else 0xFFFF800000000000) + j * 4096"
        using unat_page_ptr [of j cr4] j by (simp add: 2 page_ptr_def)
      then show "unat (place (of_nat j * PAGE_SIZE)) div 4096 mod 2 ^ 27 = 0 + j"
        using j by (auto simp: div_add1_eq mod_add_eq [symmetric])
    qed
  next
    case 3
    show thesis
    proof (rule that [of "2 ^ 27 - 2 ^ 19"])
      fix j
      assume "j < n"
      then have j: "j < 2 ^ 19" using 3 by simp
      have "unat (place (of_nat j * PAGE_SIZE)) = 0xFFFFFFFF80000000 + j * 4096"
        using range_page [of j] j
        by (simp add: 3 phys_to_higher_half_code_def HIGHER_HALF_CODE_def unat_add_u64)
      then have "unat (place (of_nat j * PAGE_SIZE)) div 4096 = 0xFFFFFFFF80000 + j"
        by simp
      also have "\<dots> mod 2 ^ 27 = (0xFFFFFFFF80000 mod 2 ^ 27 + j) mod 2 ^ 27"
        by (rule mod_add_left_eq [symmetric])
      also have "\<dots> = 2 ^ 27 - 2 ^ 19 + j"
        using j by simp
      finally show "unat (place (of_nat j * PAGE_SIZE)) div 4096 mod 2 ^ 27 = 2 ^ 27 - 2 ^ 19 + j" .
    qed
  qed
qed

lemma init_place_apart:
  assumes "init_place cr4 place n" "j < n" "k < n" "j \<noteq> k"
  shows "\<not> same_page cr4 (place (of_nat j * PAGE_SIZE)) (place (of_nat k * PAGE_SIZE))"
proof
  assume "same_page cr4 (place (of_nat j * PAGE_SIZE)) (place (of_nat k * PAGE_SIZE))"
  then have "unat (place (of_nat j * PAGE_SIZE)) div 4096 mod 2 ^ 27 =
      unat (place (of_nat k * PAGE_SIZE)) div 4096 mod 2 ^ 27"
    by (rule same_page_mod)
  moreover obtain c where "\<And>j. j < n \<Longrightarrow> unat (place (of_nat j * PAGE_SIZE)) div 4096 mod 2 ^ 27 = c + j"
    using init_place_page [OF assms(1)] by blast
  ultimately show False
    using assms(2-4) by simp
qed

lemma ADDR_MASK_page: "j < 2 ^ 20 \<Longrightarrow> of_nat j * PAGE_SIZE AND ADDR_MASK = of_nat j * PAGE_SIZE"
  using entry_masks(1) [of j 0] by (simp add: frame_addr_def PAGE_SIZE_def push_bit_eq_mult)

section \<open>Properties\<close>


text \<open>A machine with 16 pages of blank memory; frame 4 holds the empty root table.\<close>

definition boot_tr :: "u64 \<Rightarrow> u64" where
  "boot_tr a = (if unat a < 2 ^ 32 then a else a - HIGHER_HALF_DATA_LV4)"

definition vmm_sample :: vmm_state where
  "vmm_sample = \<lparr>v_pmm = pmm_small, v_mem = (\<lambda>a. 0), v_cr3 = 0, v_tlb = [], root_page_directory = 0\<rparr>"

lemma boot_map_sample: "boot_map 0 boot_tr"
  unfolding boot_map_def
proof (intro allI impI conjI)
  fix a :: u64
  assume a: "unat a < 2 ^ 32"
  then show "boot_tr a = a" by (simp add: boot_tr_def)
  have "unat (phys_to_higher_half_data 0 a) = 0xFFFF800000000000 + unat a"
    using a by (simp add: phys_to_higher_half_data_def is_la57_enabled_def HIGHER_HALF_DATA_LV4_def
        unat_add_u64)
  then show "boot_tr (phys_to_higher_half_data 0 a) = a"
    by (simp add: boot_tr_def phys_to_higher_half_data_def is_la57_enabled_def)
qed

lemma levels_0: "levels 0 = 4"
  by (simp add: levels_def is_la57_enabled_def)

lemma vmm_sample_ok: "vmm_ok 0 4 vmm_sample"
proof -
  have "ent vmm_sample f i = 0" for f i
    by (simp add: ent_def vmm_sample_def load64_zero)
  then have "vmm_inv (\<lambda>f. if f = 4 then 4 else 0) (\<lambda>f. (0, 0)) vmm_sample"
    using pmm_small_ok by (auto simp: vmm_inv_def pmm_small_avail) (auto simp: vmm_sample_def pmm_small_avail)
  then show ?thesis
    unfolding vmm_ok_def
    by (intro exI [of _ "\<lambda>f. if f = 4 then 4 else 0"] exI [of _ "\<lambda>f. (0, 0)"]) (simp add: levels_0)
qed



lemma vmm_sample_mapped:
  obtains st1 where "vmm_map_page boot_tr 0 (page_ptr 0 4) 0x5000 0x400000 3 vmm_sample = Some st1"
proof -
  have "levels 0 - 1 \<le> card (pmm_avail (v_pmm vmm_sample))"
    by (simp add: levels_0 vmm_sample_def card_pmm_small)
  moreover have "table_ptr 0 (page_ptr 0 4) 4" by (simp add: table_ptr_def)
  moreover have "(0x5000 :: u64) AND ADDR_MASK = 0x5000" by (simp add: ADDR_MASK_def)
  ultimately show thesis
    using map_page_result [OF boot_map_sample vmm_sample_ok, of "page_ptr 0 4" 3 "0x5000" "0x400000"] that
    by auto
qed


text \<open>
  Each of the three loops of \<open>vmm_init\<close>, run for \<open>n\<close> pages with enough memory for
  the tables, makes every one of its virtual pages translate to the physical page of the same
  number; no later iteration undoes an earlier one.
\<close>

theorem vmm_map_range_correct:
  assumes map: "boot_map cr4 tr" and ok: "vmm_ok cr4 r st" and dir: "table_ptr cr4 dir r"
    and fl: "odd flags" "0 \<le> flags" "flags < 512" and place: "init_place cr4 place n"
    and avail: "n * (levels cr4 - 1) \<le> card (pmm_avail (v_pmm st))"
  shows "\<exists>st'. vmm_map_range tr cr4 dir place flags n st = Some st' \<and> vmm_ok cr4 r st' \<and>
    (\<forall>j < n. translates cr4 r st' (place (of_nat j * PAGE_SIZE)) = Some (of_nat j * PAGE_SIZE))"
proof -
  let ?m = "levels cr4 - 1" and ?va = "\<lambda>j. place (of_nat j * PAGE_SIZE)"
  define P where "P j s \<longleftrightarrow> vmm_ok cr4 r s \<and> (n - j) * ?m \<le> card (pmm_avail (v_pmm s)) \<and>
    (\<forall>k < j. translates cr4 r s (?va k) = Some (of_nat k * PAGE_SIZE))" for j s
  have n: "n \<le> 2 ^ 20" using place by (auto simp: init_place_def)
  have "\<exists>s'. for_range (\<lambda>j. let i = of_nat j * PAGE_SIZE in vmm_map_page tr cr4 dir i (place i) flags)
      0 n st = Some s' \<and> P (0 + n) s'"
  proof (rule for_range_invar)
    show "P 0 st" using ok avail by (simp add: P_def)
  next
    fix j s
    assume j: "j < 0 + n" and P: "P j s"
    have pa: "of_nat j * PAGE_SIZE AND ADDR_MASK = of_nat j * PAGE_SIZE"
      using j n by (intro ADDR_MASK_page) simp
    have need: "(n - j) * ?m = (n - Suc j) * ?m + ?m"
      using j by (metis Suc_diff_Suc add.commute add_0 mult_Suc)
    then have enough: "?m \<le> card (pmm_avail (v_pmm s))"
      using P by (simp add: P_def)
    have "vmm_ok cr4 r s" using P by (simp add: P_def)
    from map_page_result [OF map this dir fl pa enough, of "?va j"] obtain s' where s':
      "vmm_map_page tr cr4 dir (of_nat j * PAGE_SIZE) (?va j) flags s = Some s'" "vmm_ok cr4 r s'"
      "translates cr4 r s' (?va j) = Some (of_nat j * PAGE_SIZE)"
      "\<And>va'. \<not> same_page cr4 (?va j) va' \<Longrightarrow> translates cr4 r s' va' = translates cr4 r s va'"
      "card (pmm_avail (v_pmm s)) \<le> card (pmm_avail (v_pmm s')) + ?m"
      by metis
    have "translates cr4 r s' (?va k) = Some (of_nat k * PAGE_SIZE)" if "k < Suc j" for k
    proof (cases "k = j")
      case False
      then have "\<not> same_page cr4 (?va j) (?va k)"
        using init_place_apart [OF place, of j k] j that by simp
      then show ?thesis
        using s'(4) P that False by (simp add: P_def)
    qed (simp add: s'(3))
    moreover have "(n - Suc j) * ?m \<le> card (pmm_avail (v_pmm s'))"
      using P s'(5) need by (simp add: P_def)
    ultimately have "P (Suc j) s'"
      using s'(2) by (simp add: P_def)
    with s'(1) show "\<exists>s'. (let i = of_nat j * PAGE_SIZE in vmm_map_page tr cr4 dir i (place i) flags) s =
        Some s' \<and> P (Suc j) s'"
      by (simp add: Let_def)
  qed
  then show ?thesis
    by (auto simp: vmm_map_range_def P_def)
qed

theorem vmm_map_range_correct_witness:
  "\<exists>st'. vmm_map_range boot_tr 0 (page_ptr 0 4) phys_to_higher_half_code 1 3 vmm_sample = Some st' \<and>
    (\<forall>j < 3. translates 0 4 st' (phys_to_higher_half_code (of_nat j * PAGE_SIZE)) =
       Some (of_nat j * PAGE_SIZE))"
proof -
  have "3 * (levels 0 - 1) \<le> card (pmm_avail (v_pmm vmm_sample))"
    by (simp add: levels_0 vmm_sample_def card_pmm_small)
  moreover have "table_ptr 0 (page_ptr 0 4) 4" by (simp add: table_ptr_def)
  moreover have "init_place 0 phys_to_higher_half_code 3" by (simp add: init_place_def)
  ultimately show ?thesis
    using vmm_map_range_correct [OF boot_map_sample vmm_sample_ok, of "page_ptr 0 4" 1
        phys_to_higher_half_code 3] by auto
qed

text \<open>A table that \<open>vmm_get_page_map_level\<close> adds is not cleared. The new table holds
  whatever the page held before, and a stale word with bit 0 set is a mapping that nobody asked
  for: an address that was not mapped is now translated through it.
\<close>

theorem vmm_new_table_not_cleared:
  assumes map: "boot_map cr4 tr" and ok: "pmm_ok (v_pmm st)" and f: "f < 2 ^ 20" "i < 512"
    and X: "table_ptr cr4 X f" and absent: "even (ent st f i)"
    and avail: "pmm_avail (v_pmm st) \<noteq> {}" "\<forall>k \<in> pmm_avail (v_pmm st). k < 2 ^ 20 \<and> k \<noteq> f"
    and fl: "odd flags" "0 \<le> flags" "flags < 512"
  defines "k \<equiv> Min (pmm_avail (v_pmm st))"
  shows "\<exists>st'. vmm_get_page_map_level tr cr4 st X (of_nat i) flags = Some (st', frame_addr k) \<and>
    (\<forall>j < 512. ent st' k j = ent st k j) \<and>
    (\<forall>va. va_index 2 va = i \<and> odd (ent st k (va_index 1 va)) \<longrightarrow>
      page_walk (v_mem st) 2 (frame_addr f) va = None \<and>
      page_walk (v_mem st') 2 (frame_addr f) va = Some (ent st k (va_index 1 va) AND ADDR_MASK))"
proof -
  note get = get_pte_ent [OF map X f]
  obtain pm where k: "pmm_alloc cr4 (v_pmm st) 1 = Some (pm, page_ptr cr4 k)"
    "k \<in> pmm_avail (v_pmm st)"
    using pmm_alloc_one [OF ok avail(1), of cr4] unfolding k_def by blast
  have phys: "higher_half_data_to_phys cr4 (page_ptr cr4 k) = frame_addr k"
    by (simp add: page_ptr_frame)
  let ?fl = "word_of_int flags :: u64"
  let ?st = "set_pte tr X (of_nat i) (frame_addr k OR ?fl) (st\<lparr>v_pmm := pm\<rparr>)"
  have flw: "unat ?fl < 512" "odd ?fl"
    using fl by (simp_all add: unat_word_of_int_small odd_word_of_int)
  have kk: "k < 2 ^ 20" "k \<noteq> f" using avail(2) k(2) by auto
  have ents: "ent ?st g j = (if g = f \<and> j = i then frame_addr k OR ?fl else ent st g j)"
    if "g < 2 ^ 20" "j < 512" for g j
    using ent_set_pte [OF map X f that] by (simp add: ent_def)
  have new: "ent ?st f i = frame_addr k OR ?fl" using ents [OF f] by simp
  have stale: "ent ?st k j = ent st k j" if "j < 512" for j
    using ents [OF kk(1) that] kk(2) by simp
  have step: "vmm_get_page_map_level tr cr4 st X (of_nat i) flags = Some (?st, frame_addr k)"
    using absent k(1) phys new entry_masks(2) [OF kk(1) flw(1)]
    by (simp add: vmm_get_page_map_level_def get and_1_nonzero Let_def get_pte_ent [OF map X f])
  have "page_walk (v_mem st) (Suc (Suc 0)) (frame_addr f) va = None \<and>
      page_walk (v_mem ?st) (Suc (Suc 0)) (frame_addr f) va = Some (ent st k (va_index 1 va) AND ADDR_MASK)"
    if va: "va_index 2 va = i" "odd (ent st k (va_index 1 va))" for va
  proof -
    have i: "va_index (Suc (Suc 0)) va = i" using va(1) by (simp add: numeral_2_eq_2)
    have "page_walk (v_mem st) (Suc (Suc 0)) (frame_addr f) va = None"
      using absent by (simp add: page_walk_ent i del: page_walk.simps)
    moreover have "page_walk (v_mem ?st) (Suc (Suc 0)) (frame_addr f) va =
        page_walk (v_mem ?st) (Suc 0) (frame_addr k) va"
      using new entry_masks(1,3) [OF kk(1) flw(1)] flw(2)
      by (subst page_walk_ent) (simp add: i del: page_walk.simps)
    moreover have "\<dots> = Some (ent st k (va_index 1 va) AND ADDR_MASK)"
      using stale [OF va_index_less, of 1 va] va(2) by (subst page_walk_ent) simp
    ultimately show ?thesis by simp
  qed
  with step k(2) stale show ?thesis
    unfolding numeral_2_eq_2 by blast
qed

text \<open>The same machine, but page 2 still holds the word \<open>0xDEAD001\<close> of an earlier owner.\<close>

definition vmm_stale :: vmm_state where
  "vmm_stale = vmm_sample\<lparr>v_mem := store64 (\<lambda>a. 0) (frame_addr 2) 0xDEAD001\<rparr>"

theorem vmm_new_table_not_cleared_witness:
  "\<exists>st'. vmm_get_page_map_level boot_tr 0 vmm_stale (page_ptr 0 4) (of_nat 0) 3 =
      Some (st', frame_addr 2) \<and>
    page_walk (v_mem vmm_stale) 2 (frame_addr 4) 0 = None \<and>
    page_walk (v_mem st') 2 (frame_addr 4) 0 = Some 0xDEAD000"
proof -
  have "aligned8 (frame_addr 4)" "aligned8 (frame_addr 2)" "frame_addr 4 \<noteq> frame_addr 2"
    by (simp_all add: aligned8_def unat_frame_addr frame_addr_def)
  then have absent: "even (ent vmm_stale 4 0)"
    by (simp add: ent_def vmm_stale_def load64_store64_other load64_zero)
  have idx: "va_index 2 0 = 0" "va_index 1 0 = 0" by (simp_all add: va_index_def)
  have word: "ent vmm_stale 2 0 = 0xDEAD001"
    by (simp add: ent_def vmm_stale_def)
  have pmm: "v_pmm vmm_stale = pmm_small"
    by (simp add: vmm_stale_def vmm_sample_def)
  have avail: "pmm_avail (v_pmm vmm_stale) \<noteq> {}"
    "\<forall>k \<in> pmm_avail (v_pmm vmm_stale). k < 2 ^ 20 \<and> k \<noteq> 4"
    unfolding pmm using pmm_small_nonempty by (auto simp: pmm_small_avail)
  have ok: "pmm_ok (v_pmm vmm_stale)" unfolding pmm by (rule pmm_small_ok)
  have "table_ptr 0 (page_ptr 0 4) 4" by (simp add: table_ptr_def)
  then obtain st' where *: "vmm_get_page_map_level boot_tr 0 vmm_stale (page_ptr 0 4) (of_nat 0) 3 =
      Some (st', frame_addr 2)"
    "\<forall>va. va_index 2 va = 0 \<and> odd (ent vmm_stale 2 (va_index 1 va)) \<longrightarrow>
      page_walk (v_mem vmm_stale) 2 (frame_addr 4) va = None \<and>
      page_walk (v_mem st') 2 (frame_addr 4) va = Some (ent vmm_stale 2 (va_index 1 va) AND ADDR_MASK)"
    using vmm_new_table_not_cleared [OF boot_map_sample ok _ _ _ absent avail, of "page_ptr 0 4" 3,
        unfolded pmm pmm_small_Min] by auto
  have "(0xDEAD001 :: u64) AND ADDR_MASK = 0xDEAD000" by (simp add: ADDR_MASK_def)
  then show ?thesis
    using *(1) spec [OF *(2), of 0, unfolded idx word] by simp
qed

end
