(* ===== verification/Vmm_Init.thy ===== *)
theory Vmm_Init
  imports Vmm_Map
begin

text \<open>
  The whole of \<open>vmm_init\<close>. A page is only taken for a table that is not there yet, so the number of pages needed
  is the number of different tables on the paths of the mapped addresses, not one per level and mapping.
\<close>

section \<open>Tables that are already there\<close>

lemma down_unique:
  assumes "vmm_inv lvl par st" "down lvl par st va f g" "down lvl par st va f h"
  shows "g = h"
proof -
  have "lvl g \<noteq> 0" "lvl h \<noteq> 0" "frame_addr g = frame_addr h"
    using assms(2,3) by (auto simp: down_def)
  moreover from this have "g < 2 ^ 20" "h < 2 ^ 20" using assms(1) by (auto simp: vmm_inv_def)
  ultimately show ?thesis using unat_frame_addr by (metis mult_right_cancel zero_neq_numeral)
qed

lemma descends_first:
  assumes "descends lvl par st va f g" "g \<noteq> f"
  shows "\<exists>h. down lvl par st va f h \<and> descends lvl par st va h g"
  using assms
proof (induction rule: descends.induct)
  case (step k g)
  then show ?case by (cases "k = f") (auto intro: descends.intros)
qed simp

definition at_level :: "(nat \<Rightarrow> nat) \<Rightarrow> (nat \<Rightarrow> nat \<times> nat) \<Rightarrow> vmm_state \<Rightarrow> u64 \<Rightarrow> nat \<Rightarrow> nat \<Rightarrow> bool" where
  "at_level lvl par st va f l \<longleftrightarrow> (\<exists>g. descends lvl par st va f g \<and> lvl g = l)"

lemma at_level_below:
  assumes "vmm_inv lvl par st" "down lvl par st va f g" "l < lvl f"
  shows "at_level lvl par st va f l \<longleftrightarrow> at_level lvl par st va g l"
proof
  assume "at_level lvl par st va f l"
  then obtain k where k: "descends lvl par st va f k" "lvl k = l" by (auto simp: at_level_def)
  with assms(3) have "k \<noteq> f" by auto
  then obtain h where "down lvl par st va f h" "descends lvl par st va h k"
    using descends_first [OF k(1)] by blast
  with down_unique [OF assms(1,2)] k(2) show "at_level lvl par st va g l" by (auto simp: at_level_def)
next
  assume "at_level lvl par st va g l"
  then show "at_level lvl par st va f l"
    using descends_front [OF _ assms(2)] unfolding at_level_def by blast
qed

lemma at_level_top: "lvl f = Suc (Suc n) \<Longrightarrow> at_level lvl par st va f (Suc n) \<Longrightarrow> \<exists>g. down lvl par st va f g"
  using descends_first by (fastforce simp: at_level_def)

lemma at_level_between:
  assumes "descends lvl par st va f g" "lvl f \<noteq> 0" "lvl g \<le> l" "l \<le> lvl f"
  shows "at_level lvl par st va f l"
  using assms
proof (induction rule: descends.induct)
  case here
  then show ?case by (auto simp: at_level_def intro: descends.here)
next
  case (step k g)
  show ?case
  proof (cases "l = lvl g")
    case True
    with step.hyps show ?thesis by (auto simp: at_level_def intro: descends.step)
  next
    case False
    then have "lvl k \<le> l" using step.hyps(2) step.prems(2) by (simp add: down_def)
    then show ?thesis using step by blast
  qed
qed

text \<open>The levels whose table is missing on the path of an address.\<close>

definition missing :: "(nat \<Rightarrow> nat) \<Rightarrow> (nat \<Rightarrow> nat \<times> nat) \<Rightarrow> vmm_state \<Rightarrow> u64 \<Rightarrow> nat \<Rightarrow> nat \<Rightarrow> nat set" where
  "missing lvl par st va f n = {l \<in> {1..n}. \<not> at_level lvl par st va f l}"

lemma finite_missing [simp]: "finite (missing lvl par st va f n)"
  by (simp add: missing_def)

lemma descend_cost:
  assumes map: "boot_map cr4 tr" and inv: "vmm_inv lvl par st" and X: "table_ptr cr4 X f"
    and f: "lvl f = Suc n" and fl: "odd flags" "0 \<le> flags" "flags < 512"
    and avail: "card (missing lvl par st va f n) \<le> card (pmm_avail (v_pmm st))"
  shows "\<exists>st' lvl' par' Y g. descend tr cr4 va flags n st X = Some (st', Y) \<and> table_ptr cr4 Y g \<and>
    tree_grows lvl par st lvl' par' st' (card (missing lvl par st va f n)) \<and>
    lvl' g = 1 \<and> descends lvl' par' st' va f g"
  using X f avail
proof (induction n arbitrary: X f)
  case 0
  then show ?case using tree_grows_refl [OF inv] descends.here by fastforce
next
  case (Suc n)
  show ?case
  proof (cases "at_level lvl par st va f (Suc n)")
    case True
    then obtain g where g: "down lvl par st va f g" using at_level_top [of lvl f n] Suc.prems(2) by blast
    have lg: "lvl g = Suc n" using g Suc.prems(2) by (simp add: down_def)
    have "missing lvl par st va f (Suc n) = missing lvl par st va g n"
      using True at_level_below [OF inv g] Suc.prems(2) by (fastforce simp: missing_def le_Suc_eq)
    note same = this
    have small: "f < 2 ^ 20" using inv Suc.prems(2) by (simp add: vmm_inv_def)
    let ?i = "va_index (Suc (Suc n)) va"
    have odd: "odd (ent st f ?i)" and next_addr: "ent st f ?i AND ADDR_MASK = frame_addr g"
      using g Suc.prems(2) by (simp_all add: down_def)
    have "ent st f ?i AND word_of_int (NOT 511) = frame_addr g"
      using vmm_inv_entry [OF inv Suc.prems(2) _ va_index_less odd] next_addr by (metis zero_less_Suc)
    then have "descend tr cr4 va flags (Suc n) st X = descend tr cr4 va flags n st (frame_addr g)"
      using odd get_pte_ent [OF map Suc.prems(1) small va_index_less]
      by (simp add: vmm_get_page_map_level_def and_1_nonzero)
    moreover have ptr: "table_ptr cr4 (frame_addr g) g" by (simp add: table_ptr_def)
    have enough: "card (missing lvl par st va g n) \<le> card (pmm_avail (v_pmm st))" using Suc.prems(3) same by simp
    obtain st' lvl' par' Y k where "descend tr cr4 va flags n st (frame_addr g) = Some (st', Y)"
      "table_ptr cr4 Y k" "tree_grows lvl par st lvl' par' st' (card (missing lvl par st va g n))" "lvl' k = 1"
      "descends lvl' par' st' va g k"
      using Suc.IH [OF ptr lg enough] by blast
    moreover have "descends lvl par st va f g" by (rule descends.step [OF descends.here g])
    ultimately show ?thesis
      unfolding same using descends_trans descends_grows Suc.prems(2) by (metis nat.distinct(1))
  next
    case False
    have "\<not> at_level lvl par st va f l" if "l \<le> Suc n" for l
      using False at_level_between [of lvl par st va f _ "Suc n"] that Suc.prems(2) by (auto simp: at_level_def)
    then have "missing lvl par st va f (Suc n) = {1..Suc n}" by (auto simp: missing_def)
    then show ?thesis
      using descend_result [OF map inv Suc.prems(1,2) fl] Suc.prems(3) by simp
  qed
qed


section \<open>Mapping a page\<close>

text \<open>What an operation on the tables leaves alone; \<open>c\<close> bounds the pages it takes.\<close>

definition tables_grow :: "(nat \<Rightarrow> nat) \<Rightarrow> vmm_state \<Rightarrow> (nat \<Rightarrow> nat) \<Rightarrow> vmm_state \<Rightarrow> nat \<Rightarrow> bool" where
  "tables_grow lvl st lvl' st' c \<longleftrightarrow> pmm_avail (v_pmm st') \<subseteq> pmm_avail (v_pmm st) \<and>
     card (pmm_avail (v_pmm st)) \<le> card (pmm_avail (v_pmm st')) + c \<and>
     (\<forall>f. lvl f \<noteq> 0 \<longrightarrow> lvl' f = lvl f) \<and>
     (\<forall>f. lvl f = 0 \<and> lvl' f \<noteq> 0 \<longrightarrow> f \<in> pmm_avail (v_pmm st) - pmm_avail (v_pmm st')) \<and>
     (\<forall>a. lvl' (unat a div 4096) = 0 \<longrightarrow> v_mem st' a = v_mem st a) \<and>
     v_cr3 st' = v_cr3 st \<and> root_page_directory st' = root_page_directory st"

lemma tables_growD:
  assumes "tables_grow lvl st lvl' st' c"
  shows "pmm_avail (v_pmm st') \<subseteq> pmm_avail (v_pmm st)"
    and "card (pmm_avail (v_pmm st)) \<le> card (pmm_avail (v_pmm st')) + c"
    and "lvl f \<noteq> 0 \<Longrightarrow> lvl' f = lvl f"
    and "lvl f = 0 \<Longrightarrow> lvl' f \<noteq> 0 \<Longrightarrow> f \<in> pmm_avail (v_pmm st) - pmm_avail (v_pmm st')"
    and "lvl' (unat a div 4096) = 0 \<Longrightarrow> v_mem st' a = v_mem st a"
    and "v_cr3 st' = v_cr3 st" "root_page_directory st' = root_page_directory st"
  using assms unfolding tables_grow_def by blast+

lemma tables_grow_refl [simp]: "tables_grow lvl st lvl st c"
  by (auto simp: tables_grow_def)

lemma tables_grow_trans:
  assumes a: "tables_grow lvl st lvl1 st1 c" and b: "tables_grow lvl1 st1 lvl2 st2 d"
  shows "tables_grow lvl st lvl2 st2 (c + d)"
  unfolding tables_grow_def
proof (intro conjI allI impI)
  note D = tables_growD [OF a] tables_growD [OF b]
  show "pmm_avail (v_pmm st2) \<subseteq> pmm_avail (v_pmm st)" using D(1,8) by blast
  show "card (pmm_avail (v_pmm st)) \<le> card (pmm_avail (v_pmm st2)) + (c + d)" using D(2,9) by linarith
  show "lvl f \<noteq> 0 \<Longrightarrow> lvl2 f = lvl f" for f using D(3,10) by metis
  show "f \<in> pmm_avail (v_pmm st) - pmm_avail (v_pmm st2)" if "lvl f = 0 \<and> lvl2 f \<noteq> 0" for f
    using D(1,8) D(4,11,10) [of f] that by (metis Diff_iff subsetD)
  show "v_mem st2 x = v_mem st x" if "lvl2 (unat x div 4096) = 0" for x
    using D(5,12) [of x] D(10) [of "unat x div 4096"] that by metis
  show "v_cr3 st2 = v_cr3 st" "root_page_directory st2 = root_page_directory st" using D(6,7,13,14) by simp_all
qed

lemma tables_grow_less: "tables_grow lvl st lvl' st' c \<Longrightarrow> c \<le> d \<Longrightarrow> tables_grow lvl st lvl' st' d"
  by (auto simp: tables_grow_def)

lemma tree_grows_tables: "tree_grows lvl par st lvl' par' st' c \<Longrightarrow> tables_grow lvl st lvl' st' c"
  unfolding tables_grow_def tree_grows_def by blast

lemma at_level_grows:
  assumes "tree_grows lvl par st lvl' par' st' c" "lvl r \<noteq> 0" "at_level lvl par st va r l"
  shows "at_level lvl' par' st' va r l"
proof -
  obtain g where g: "descends lvl par st va r g" "lvl g = l" using assms(3) by (auto simp: at_level_def)
  moreover have "lvl g \<noteq> 0" using descends_level [OF g(1) assms(2)] by simp
  ultimately show ?thesis
    using descends_grows [OF g(1) assms(2,1)] tree_growsD(2) [OF assms(1)] by (auto simp: at_level_def)
qed

lemma leaf_store_keeps:
  assumes "boot_map cr4 tr" "vmm_inv lvl par st" "table_ptr cr4 X g" "lvl g = 1"
  shows "tables_grow lvl st lvl (leaf_store tr X va v st) 0"
    and "at_level lvl par st va' r l \<Longrightarrow> at_level lvl par (leaf_store tr X va v st) va' r l"
proof -
  have g: "g < 2 ^ 20" using assms(2,4) by (simp add: vmm_inv_def)
  have elsewhere: "v_mem (leaf_store tr X va v st) a = v_mem st a" if "unat a div 4096 \<noteq> g" for a
    using set_pte_elsewhere [OF assms(1,3) g va_index_less that, of 1 va v st]
    by (simp add: leaf_store_def vmm_flush_tlb_def)
  have "v_mem (leaf_store tr X va v st) a = v_mem st a" if "lvl (unat a div 4096) = 0" for a
    using elsewhere [of a] that assms(4) by (metis zero_neq_one)
  then show "tables_grow lvl st lvl (leaf_store tr X va v st) 0"
    by (auto simp: tables_grow_def leaf_store_def vmm_flush_tlb_def set_pte_def)
  have upper: "ent (leaf_store tr X va v st) f j = ent st f j" if "2 \<le> lvl f" "j < 512" for f j
  proof -
    have "f < 2 ^ 20" "f \<noteq> g" using assms(2,4) that by (auto simp: vmm_inv_def)
    then show ?thesis
      using ent_set_pte [OF assms(1,3) g va_index_less, of f j 1 va v st] that
      by (simp add: leaf_store_def vmm_flush_tlb_def ent_def)
  qed
  show "at_level lvl par st va' r l \<Longrightarrow> at_level lvl par (leaf_store tr X va v st) va' r l"
    unfolding at_level_def using descends_cong [OF _ upper] by blast
qed

lemma map_page_cost:
  assumes map: "boot_map cr4 tr" and inv: "vmm_inv lvl par st" "lvl r = levels cr4" and dir: "table_ptr cr4 dir r"
    and fl: "odd flags" "0 \<le> flags" "flags < 512" and pa: "pa AND ADDR_MASK = pa"
    and avail: "card (missing lvl par st va r (levels cr4 - 1)) \<le> card (pmm_avail (v_pmm st))"
  obtains st' lvl' par' where "vmm_map_page tr cr4 dir pa va flags st = Some st'" "vmm_inv lvl' par' st'"
    "translates cr4 r st' va = Some pa"
    "\<And>va'. \<not> same_page cr4 va va' \<Longrightarrow> translates cr4 r st' va' = translates cr4 r st va'"
    "tables_grow lvl st lvl' st' (card (missing lvl par st va r (levels cr4 - 1)))"
    "\<And>va' l. at_level lvl par st va' r l \<Longrightarrow> at_level lvl' par' st' va' r l"
    "\<And>l. 1 \<le> l \<Longrightarrow> l \<le> levels cr4 \<Longrightarrow> at_level lvl' par' st' va r l"
proof -
  let ?n = "levels cr4 - 1" and ?c = "card (missing lvl par st va r (levels cr4 - 1))"
  have r: "lvl r = Suc ?n" using inv(2) levels_Suc by simp
  obtain st1 lvl1 par1 X g where d: "descend tr cr4 va flags ?n st dir = Some (st1, X)" "table_ptr cr4 X g"
    "tree_grows lvl par st lvl1 par1 st1 ?c" "lvl1 g = 1" "descends lvl1 par1 st1 va r g"
    using descend_cost [OF map inv(1) dir r fl avail] by blast
  note grown = tree_growsD [OF d(3)]
  have r1: "lvl1 r = Suc ?n" using grown(2) r by simp
  let ?v = "pa OR word_of_int flags"
  let ?st' = "leaf_store tr X va ?v st1"
  note leaf = leaf_store_effect [OF map grown(1) d(2,4,5) r1, where v = ?v]
  note keeps = leaf_store_keeps [OF map grown(1) d(2,4), where va = va and v = ?v]
  show thesis
  proof
    show "vmm_map_page tr cr4 dir pa va flags st = Some ?st'"
      using d(1) by (simp add: vmm_map_page_descend leaf_store_def)
    show "vmm_inv lvl1 par1 ?st'" by (rule leaf(1))
    have "odd ?v" using fl(1) odd_word_of_int [of flags] by (simp add: bit_or_iff bit_word_of_int_iff flip: bit_0)
    then show "translates cr4 r ?st' va = Some pa"
      using leaf(2) page_flags_masks [OF pa fl(2,3)] levels_Suc [of cr4] by (simp add: translates_def)
    show "translates cr4 r ?st' va' = translates cr4 r st va'" if other: "\<not> same_page cr4 va va'" for va'
    proof -
      obtain l where "l \<in> {1..Suc ?n}" "va_index l va \<noteq> va_index l va'"
        using other levels_Suc [of cr4] unfolding same_page_def by auto
      from leaf(3) [OF this] grown(3) [of r, unfolded r] show ?thesis
        using levels_Suc [of cr4] unfolding translates_def by (metis nat.distinct(1))
    qed
    show "tables_grow lvl st lvl1 ?st' ?c"
      using tables_grow_trans [OF tree_grows_tables [OF d(3)] keeps(1)] by simp
    show "at_level lvl par st va' r l \<Longrightarrow> at_level lvl1 par1 ?st' va' r l" for va' l
      using keeps(2) at_level_grows [OF d(3)] r by simp
    show "at_level lvl1 par1 ?st' va r l" if "1 \<le> l" "l \<le> levels cr4" for l
      using keeps(2) at_level_between [OF d(5)] r1 d(4) that levels_Suc [of cr4] by simp
  qed
qed


section \<open>Mapping a range\<close>

text \<open>The tables on the path of an address, by level and by the part of the address above the level.\<close>

definition table_keys :: "u64 \<Rightarrow> u64 \<Rightarrow> (nat \<times> nat) set" where
  "table_keys cr4 va = (\<lambda>l. (l, unat va div 2 ^ (9 * l + 12))) ` {1..levels cr4 - 1}"

lemma descends_indices:
  assumes "descends lvl par st va r g" "lvl r \<noteq> 0" "\<And>k. lvl g < k \<Longrightarrow> va_index k va = va_index k va'"
  shows "descends lvl par st va' r g"
  using assms
proof (induction rule: descends.induct)
  case (step f g)
  have less: "lvl g < lvl f" using step.hyps(2) by (auto simp: down_def)
  then have "descends lvl par st va' r f" using step.IH step.prems by simp
  moreover have "down lvl par st va' f g" using step.hyps(2) step.prems(2) [OF less] by (simp add: down_def)
  ultimately show ?case by (rule descends.step)
qed (rule descends.here)

lemma va_index_above:
  assumes "unat va div 2 ^ (9 * l + 12) = unat va' div 2 ^ (9 * l + 12)" "l < k"
  shows "va_index k va = va_index k va'"
proof -
  define m where "m = 9 * (k - Suc l)"
  have "9 * k + 3 = (9 * l + 12) + m" using assms(2) by (simp add: m_def)
  then have "unat v div 2 ^ (9 * k + 3) = unat v div 2 ^ (9 * l + 12) div 2 ^ m" for v :: u64
    by (simp only: power_add div_mult2_eq)
  with assms(1) show ?thesis by (simp add: va_index_nat)
qed

lemma at_level_key:
  assumes "at_level lvl par st va r l" "lvl r \<noteq> 0" "unat va div 2 ^ (9 * l + 12) = unat va' div 2 ^ (9 * l + 12)"
  shows "at_level lvl par st va' r l"
proof -
  obtain g where g: "descends lvl par st va r g" "lvl g = l" using assms(1) by (auto simp: at_level_def)
  then have "descends lvl par st va' r g"
    using descends_indices [OF g(1) assms(2)] va_index_above [OF assms(3)] by blast
  with g(2) show ?thesis by (auto simp: at_level_def)
qed

lemma finite_table_keys [simp]: "finite (table_keys cr4 va)"
  by (simp add: table_keys_def)

lemma missing_keys:
  assumes there: "\<And>k l. k < j \<Longrightarrow> l \<in> {1..levels cr4 - 1} \<Longrightarrow> at_level lvl par st (va k) r l" and r: "lvl r \<noteq> 0"
  shows "card (missing lvl par st (va j) r (levels cr4 - 1)) + card (\<Union>k < j. table_keys cr4 (va k)) \<le>
    card (\<Union>k < Suc j. table_keys cr4 (va k))"
proof -
  let ?M = "missing lvl par st (va j) r (levels cr4 - 1)" and ?key = "\<lambda>l. (l, unat (va j) div 2 ^ (9 * l + 12))"
  let ?K = "\<Union>k < j. table_keys cr4 (va k)"
  have "?key l \<notin> ?K" if "l \<in> ?M" for l
  proof
    assume "?key l \<in> ?K"
    then obtain k where "k < j" "unat (va j) div 2 ^ (9 * l + 12) = unat (va k) div 2 ^ (9 * l + 12)"
      "l \<in> {1..levels cr4 - 1}" by (auto simp: table_keys_def)
    then have "at_level lvl par st (va j) r l" using at_level_key [OF there r] by metis
    with that show False by (simp add: missing_def)
  qed
  then have disj: "?key ` ?M \<inter> ?K = {}" by blast
  have "card ?M = card (?key ` ?M)" by (rule card_image [symmetric]) (auto simp: inj_on_def)
  then have "card ?M + card ?K = card (?key ` ?M \<union> ?K)" using disj by (simp add: card_Un_disjoint)
  also have "\<dots> \<le> card (\<Union>k < Suc j. table_keys cr4 (va k))"
    by (rule card_mono) (auto simp: missing_def table_keys_def lessThan_Suc)
  finally show ?thesis .
qed

lemma map_range_cost:
  fixes place :: "u64 \<Rightarrow> u64"
  assumes map: "boot_map cr4 tr" and inv: "vmm_inv lvl par st" "lvl r = levels cr4" and dir: "table_ptr cr4 dir r"
    and fl: "odd flags" "0 \<le> flags" "flags < 512" and n: "n \<le> 2 ^ 20"
  defines "va \<equiv> \<lambda>j. place (of_nat j * PAGE_SIZE)"
  defines "c \<equiv> card (\<Union>j < n. table_keys cr4 (va j))"
  assumes apart: "\<And>j k. j < n \<Longrightarrow> k < n \<Longrightarrow> j \<noteq> k \<Longrightarrow> \<not> same_page cr4 (va j) (va k)"
    and avail: "c \<le> card (pmm_avail (v_pmm st))"
  shows "\<exists>st' lvl' par'. vmm_map_range tr cr4 dir place flags n st = Some st' \<and> vmm_inv lvl' par' st' \<and>
    tables_grow lvl st lvl' st' c \<and> (\<forall>j < n. translates cr4 r st' (va j) = Some (of_nat j * PAGE_SIZE)) \<and>
    (\<forall>v. (\<forall>j < n. \<not> same_page cr4 (va j) v) \<longrightarrow> translates cr4 r st' v = translates cr4 r st v)"
proof -
  define K where "K j = (\<Union>k < j. table_keys cr4 (va k))" for j
  have r: "lvl r \<noteq> 0" using inv(2) levels_Suc [of cr4] by simp
  have fin: "finite (K j)" for j by (simp add: K_def)
  define P where "P j s \<longleftrightarrow> (\<exists>lvl' par'. vmm_inv lvl' par' s \<and> tables_grow lvl st lvl' s (card (K j)) \<and>
    (\<forall>k < j. translates cr4 r s (va k) = Some (of_nat k * PAGE_SIZE) \<and>
       (\<forall>l. 1 \<le> l \<longrightarrow> l \<le> levels cr4 \<longrightarrow> at_level lvl' par' s (va k) r l)) \<and>
    (\<forall>v. (\<forall>k < j. \<not> same_page cr4 (va k) v) \<longrightarrow> translates cr4 r s v = translates cr4 r st v))" for j s
  have "\<exists>s'. for_range (\<lambda>j. let i = of_nat j * PAGE_SIZE in vmm_map_page tr cr4 dir i (place i) flags)
      0 n st = Some s' \<and> P (0 + n) s'"
  proof (rule for_range_invar)
    show "P 0 st" unfolding P_def using inv(1) by (intro exI [of _ lvl] exI [of _ par]) simp
  next
    fix j s
    assume j: "j < 0 + n" and "P j s"
    then obtain lvl1 par1 where s: "vmm_inv lvl1 par1 s" "tables_grow lvl st lvl1 s (card (K j))"
      "\<And>k. k < j \<Longrightarrow> translates cr4 r s (va k) = Some (of_nat k * PAGE_SIZE)"
      "\<And>k l. k < j \<Longrightarrow> 1 \<le> l \<Longrightarrow> l \<le> levels cr4 \<Longrightarrow> at_level lvl1 par1 s (va k) r l"
      "\<And>v. (\<forall>k < j. \<not> same_page cr4 (va k) v) \<Longrightarrow> translates cr4 r s v = translates cr4 r st v"
      unfolding P_def by auto
    let ?c = "card (missing lvl1 par1 s (va j) r (levels cr4 - 1))"
    have r1: "lvl1 r = levels cr4" using tables_growD(3) [OF s(2) r] inv(2) by simp
    have cost: "?c + card (K j) \<le> card (K (Suc j))"
      unfolding K_def by (rule missing_keys) (use s(4) r1 r inv(2) in auto)
    have "card (K (Suc j)) \<le> c" unfolding c_def K_def [symmetric]
      by (rule card_mono [OF fin]) (unfold K_def, rule UN_mono, use j in auto)
    then have enough: "?c \<le> card (pmm_avail (v_pmm s))"
      using cost avail tables_growD(2) [OF s(2)] by linarith
    have pa: "of_nat j * PAGE_SIZE AND ADDR_MASK = of_nat j * PAGE_SIZE" using j n by (intro ADDR_MASK_page) simp
    obtain s' lvl' par' where s': "vmm_map_page tr cr4 dir (of_nat j * PAGE_SIZE) (va j) flags s = Some s'"
      "vmm_inv lvl' par' s'" "translates cr4 r s' (va j) = Some (of_nat j * PAGE_SIZE)"
      "\<And>v. \<not> same_page cr4 (va j) v \<Longrightarrow> translates cr4 r s' v = translates cr4 r s v"
      "tables_grow lvl1 s lvl' s' ?c"
      "\<And>v l. at_level lvl1 par1 s v r l \<Longrightarrow> at_level lvl' par' s' v r l"
      "\<And>l. 1 \<le> l \<Longrightarrow> l \<le> levels cr4 \<Longrightarrow> at_level lvl' par' s' (va j) r l"
      using map_page_cost [OF map s(1) r1 dir fl pa enough] by blast
    have grow: "tables_grow lvl st lvl' s' (card (K (Suc j)))"
      by (rule tables_grow_less [OF tables_grow_trans [OF s(2) s'(5)]]) (use cost in simp)
    have trans: "translates cr4 r s' (va k) = Some (of_nat k * PAGE_SIZE)" if "k < Suc j" for k
    proof (cases "k = j")
      case False
      then have "\<not> same_page cr4 (va j) (va k)" using apart [of j k] j that by simp
      then show ?thesis using s'(4) s(3) that False by simp
    qed (simp add: s'(3))
    have lev: "at_level lvl' par' s' (va k) r l" if "k < Suc j" "1 \<le> l" "l \<le> levels cr4" for k l
      using s'(6,7) s(4) that by (cases "k = j") auto
    have "translates cr4 r s' v = translates cr4 r st v" if "\<forall>k < Suc j. \<not> same_page cr4 (va k) v" for v
      using s'(4) [of v] s(5) [of v] that by simp
    then have "P (Suc j) s'"
      unfolding P_def using s'(2) grow trans lev by blast
    with s'(1) show "\<exists>s'. (let i = of_nat j * PAGE_SIZE in vmm_map_page tr cr4 dir i (place i) flags) s = Some s' \<and> P (Suc j) s'"
      by (simp add: va_def Let_def)
  qed
  then show ?thesis
    unfolding vmm_map_range_def P_def add_0 c_def K_def [symmetric] by blast
qed

end
