(* ===== verification/Pmm_Init.thy ===== *)
theory Pmm_Init
  imports Pmm
begin

text \<open>
  What \<open>pmm_init\<close> leaves behind is a page source: the counter of used pages is positive and does not
  wrap while the free pages are handed out, for memory below 16 GiB. The macro that computes the number of pages takes the size
  for a number of kilobytes, so the counter starts 1024 times too high.
\<close>

definition total_pages :: "stivale2_mmap_entry list \<Rightarrow> nat" where
  "total_pages es = sum_list (map (\<lambda>e. unat (me_length e) div 4096) (filter usable es))"

lemma free_usable_used:
  "free_usable cr4 es st = Some st' \<Longrightarrow>
   used_pages (pmm_info st') = used_pages (pmm_info st) - of_nat (total_pages es)"
proof (induction es arbitrary: st)
  case (Cons e es)
  show ?case
  proof (cases "usable e")
    case True
    then obtain st1 where st1: "pmm_free cr4 st (me_base e) (me_length e div PAGE_SIZE) = Some st1"
      "free_usable cr4 es st1 = Some st'"
      using Cons.prems by (auto simp: usable_def split: Option.bind_splits)
    have "ucast (me_length e div PAGE_SIZE) = (of_nat (unat (me_length e) div 4096) :: u32)"
    proof -
      have "unat (me_length e div PAGE_SIZE) = unat (me_length e) div 4096" by (simp add: PAGE_SIZE_def unat_div)
      then show ?thesis by (metis of_nat_unat)
    qed
    moreover have "used_pages (pmm_info st1) = used_pages (pmm_info st) - ucast (me_length e div PAGE_SIZE)"
      using st1(1) by (auto simp: pmm_free_def Let_def split: Option.bind_splits)
    ultimately show ?thesis
      using Cons.IH [OF st1(2)] True by (simp add: total_pages_def diff_diff_eq)
  next
    case False
    with Cons show ?thesis by (simp add: usable_def total_pages_def)
  qed
qed (simp add: total_pages_def)

lemma pmm_init_used:
  assumes "pmm_init cr4 st mmap = Some st'" "highest_page st = 0"
  shows "used_pages (pmm_info st') = ucast (KB_TO_PAGES (find_highest mmap 0)) - of_nat (total_pages (pmm_init_map mmap))"
  using assms by (auto simp: pmm_init_def pmm_init_map_def Let_def dest!: free_usable_used
      split: Option.bind_splits prod.splits if_splits)

lemma total_pages_card: "mmap_disjoint es \<Longrightarrow> total_pages es = card (usable_pages es)"
proof (induction es)
  case (Cons e es)
  have rest: "mmap_disjoint es" using Cons.prems by (simp add: mmap_disjoint_def)
  have fin: "finite (usable_pages es)" by (auto simp: usable_pages_def entry_pages_def)
  show ?case
  proof (cases "usable e")
    case True
    have "entry_pages e \<inter> usable_pages es = {}"
      using Cons.prems True by (fastforce simp: mmap_disjoint_def usable_pages_def)
    then have "card (usable_pages (e # es)) = card (entry_pages e) + card (usable_pages es)"
      using True fin by (simp add: usable_pages_Cons card_Un_disjoint entry_pages_def)
    then show ?thesis
      using Cons.IH [OF rest] True by (simp add: total_pages_def entry_pages_def)
  next
    case False
    then show ?thesis using Cons.IH [OF rest] by (simp add: total_pages_def usable_pages_Cons)
  qed
qed (simp add: total_pages_def usable_pages_def)

lemma host_pages:
  assumes "sz \<le> me_length e" "unat (me_base e) + unat (me_length e) < 2 ^ 64" "unat sz mod 4096 = 0"
  shows "entry_pages (e\<lparr>me_base := me_base e + sz, me_length := me_length e - sz\<rparr>) \<subseteq> entry_pages e"
proof -
  obtain q where q: "unat sz = q * 4096" using assms(3) by (metis mod_0_imp_dvd dvd_div_mult_self)
  have le: "unat sz \<le> unat (me_length e)" using assms(1) by (simp add: word_le_nat_alt)
  have "unat (me_base e + sz) = unat (me_base e) + unat sz"
    by (rule unat_add_u64) (use le assms(2) in linarith)
  moreover have "unat (me_length e - sz) = unat (me_length e) - unat sz" by (rule unat_sub [OF assms(1)])
  moreover have "(unat (me_length e) - q * 4096) div 4096 = unat (me_length e) div 4096 - q" by simp
  ultimately show ?thesis using q le by (auto simp: entry_pages_def)
qed

lemma sorted_wrt_replace:
  "sorted_wrt R (pre @ e # post) \<Longrightarrow> (\<And>x. R x e \<Longrightarrow> R x e') \<Longrightarrow> (\<And>x. R e x \<Longrightarrow> R e' x) \<Longrightarrow>
   sorted_wrt R (pre @ e' # post)"
  by (auto simp: sorted_wrt_append)

lemma pmm_init_map_disjoint:
  assumes ok: "mmap_ok mmap" and disj: "mmap_disjoint mmap"
  shows "mmap_disjoint (pmm_init_map mmap)"
proof -
  let ?sz = "bitmap_byte_size (find_highest mmap 0)"
  have "snd (host_bitmap ?sz mmap)" using ok by (simp add: host_bitmap_found mmap_ok_def)
  then obtain pre e post where e: "mmap = pre @ e # post" "usable e" "?sz \<le> me_length e"
    "pmm_init_map mmap = pre @ e\<lparr>me_base := me_base e + ?sz, me_length := me_length e - ?sz\<rparr> # post"
    unfolding pmm_init_map_def by (rule host_bitmap_split)
  have page: "unat ?sz mod 4096 = 0" unfolding bitmap_byte_size_pages by (rule mod_mult_self2_is_0)
  have end_at: "unat (me_base e) + unat (me_length e) < 2 ^ 64" using ok e(1,2) by (auto simp: mmap_ok_def)
  note sub = host_pages [OF e(3) end_at page]
  show ?thesis
    unfolding mmap_disjoint_def e(4)
  proof (rule sorted_wrt_replace [OF disj [unfolded mmap_disjoint_def e(1)]], goal_cases)
    case (1 x)
    then show ?case using sub e(2) by (fastforce simp: usable_def)
  next
    case (2 x)
    then show ?case using sub e(2) by (fastforce simp: usable_def)
  qed
qed

lemma pmm_init_ready:
  assumes ok: "mmap_ok mmap" and disj: "mmap_disjoint mmap" and top0: "highest_page st = 0"
    and small: "unat (find_highest mmap 0) < 2 ^ 34"
  obtains st' where "pmm_init cr4 st mmap = Some st'" "pmm_ok st'"
    "pmm_avail st' = usable_pages (pmm_init_map mmap) - {0}"
proof -
  obtain st' where st': "pmm_init cr4 st mmap = Some st'" "pmm_wf st'"
    "pmm_avail st' = usable_pages (pmm_init_map mmap) - {0}"
    by (rule pmm_init_avail [OF ok top0])
  let ?h = "unat (find_highest mmap 0)" and ?T = "total_pages (pmm_init_map mmap)"
  have T: "?T = card (usable_pages (pmm_init_map mmap))"
    by (rule total_pages_card [OF pmm_init_map_disjoint [OF ok disj]])
  have "?T \<le> card {..<mmap_pages mmap}"
    unfolding T by (rule card_mono [OF _ usable_pages_below [OF ok]]) simp
  then have le: "?T \<le> ?h div 4096" by (simp add: mmap_pages_def)
  have P: "8 \<le> ?h div 4096" using ok by (simp add: mmap_ok_def mmap_pages_def)
  have "unat (find_highest mmap 0 * 1024) = ?h * 1024" using small by (subst unat_mult_u64) simp_all
  then have "unat (KB_TO_PAGES (find_highest mmap 0)) = ?h div 4"
    by (simp add: KB_TO_PAGES_def PAGE_SIZE_def unat_div div_mult2_eq [of _ 1024 4, simplified])
  then have pages: "unat (ucast (KB_TO_PAGES (find_highest mmap 0)) :: u32) = ?h div 4"
    using small by (simp add: unsigned_ucast_eq take_bit_eq_mod)
  have "?h div 4096 < ?h div 4" using P by linarith
  moreover have "?h div 4 < 2 ^ 32" by (rule less_mult_imp_div_less) (use small in simp)
  ultimately have bound: "?h div 4096 < ?h div 4" "?h div 4 < 2 ^ 32" by simp_all
  have "unat (of_nat ?T :: u32) = ?T" using le bound by (simp add: unsigned_of_nat take_bit_eq_mod)
  then have used: "unat (used_pages (pmm_info st')) = ?h div 4 - ?T"
    unfolding pmm_init_used [OF st'(1) top0] using pages le bound
    by (subst unat_sub) (simp_all add: word_le_nat_alt)
  have fin: "finite (usable_pages (pmm_init_map mmap))" by (auto simp: usable_pages_def entry_pages_def)
  have "card (pmm_avail st') \<le> ?T" unfolding st'(3) T by (rule card_mono [OF fin]) auto
  then have "pmm_ok st'" using st'(2) used le bound by (simp add: pmm_ok_def)
  with st'(1,3) show thesis using that by blast
qed

end
