(* ===== verification/Vmm_Space.thy ===== *)
theory Vmm_Space
  imports Vmm_Init Pmm_Init
begin

text \<open>
  The address space that \<open>vmm_init\<close> builds: its three ranges, the number of tables they need, and the
  theorem that exactly they are translated.
\<close>

section \<open>The tables of a range\<close>

lemma div_block:
  assumes "b mod c + x < (c :: nat)"
  shows "(b + x) div c = b div c"
proof -
  have "b + x = (b mod c + x) + c * (b div c)" by simp
  also have "\<dots> div c = b div c" using assms by (subst div_mult_self2) auto
  finally show ?thesis .
qed

lemma range_keys:
  fixes b m :: nat
  assumes va: "\<And>j. j < m * 2 ^ 18 \<Longrightarrow> unat (va j) = b + j * 4096"
    and b: "b mod 2 ^ 30 = 0" "b mod 2 ^ 39 + m * 2 ^ 30 \<le> 2 ^ 39"
  shows "card (\<Union>j < m * 2 ^ 18. table_keys cr4 (va j)) \<le> m * 513 + (levels cr4 - 3)"
proof -
  obtain q where q: "b = q * 2 ^ 30" using b(1) by (metis dvd_div_mult_self mod_0_imp_dvd)
  let ?K = "\<Union>j < m * 2 ^ 18. table_keys cr4 (va j)"
  let ?B = "{1} \<times> {q * 512..<q * 512 + m * 512} \<union> {2} \<times> {q..<q + m} \<union> {3..<levels cr4} \<times> {0 :: nat}"
  let ?f = "\<lambda>(l, k). if 3 \<le> l then (l, 0) else (l, k :: nat)"
  have key: "l = 1 \<Longrightarrow> (b + j * 4096) div 2 ^ (9 * l + 12) = q * 512 + j div 512"
    "l = 2 \<Longrightarrow> (b + j * 4096) div 2 ^ (9 * l + 12) = q + j div 2 ^ 18" for j l
  proof -
    have "(b + j * 4096) div 2 ^ 21 = (b + j * 4096) div 4096 div 512"
      "(b + j * 4096) div 2 ^ 30 = (b + j * 4096) div 4096 div 2 ^ 18"
      by (simp_all add: div_mult2_eq [symmetric])
    moreover have "(b + j * 4096) div 4096 = q * 2 ^ 18 + j" by (simp add: q)
    ultimately show "l = 1 \<Longrightarrow> (b + j * 4096) div 2 ^ (9 * l + 12) = q * 512 + j div 512"
      "l = 2 \<Longrightarrow> (b + j * 4096) div 2 ^ (9 * l + 12) = q + j div 2 ^ 18" by simp_all
  qed
  have high: "(b + j * 4096) div 2 ^ (9 * l + 12) = b div 2 ^ (9 * l + 12)" if "j < m * 2 ^ 18" "3 \<le> l" for j l
  proof -
    have "j * 4096 < m * 2 ^ 30" using that(1) by simp
    then have "(b + j * 4096) div 2 ^ 39 = b div 2 ^ 39" using b(2) by (intro div_block) linarith
    moreover have "9 * l + 12 = 39 + (9 * (l - 3))" using that(2) by simp
    ultimately show ?thesis by (simp only: power_add div_mult2_eq)
  qed
  have "inj_on ?f ?K"
  proof (rule inj_onI)
    fix x y
    assume "x \<in> ?K" "y \<in> ?K" "?f x = ?f y"
    then show "x = y" using va high by (auto simp: table_keys_def split: if_splits)
  qed
  then have "card ?K = card (?f ` ?K)" by (rule card_image [symmetric])
  also have "\<dots> \<le> card ?B"
  proof (rule card_mono)
    show "?f ` ?K \<subseteq> ?B"
    proof
      fix x
      assume "x \<in> ?f ` ?K"
      then obtain j l where j: "j < m * 2 ^ 18" "1 \<le> l" "l < levels cr4"
        "x = ?f (l, (b + j * 4096) div 2 ^ (9 * l + 12))"
        using va levels_Suc [of cr4] by (auto simp: table_keys_def)
      have less: "j div 512 < m * 512" "j div 2 ^ 18 < m" using j(1) by (simp_all add: less_mult_imp_div_less)
      consider "l = 1" | "l = 2" | "3 \<le> l" using j(2) by fastforce
      then show "x \<in> ?B"
      proof cases
        case 1
        then have "x = (1, q * 512 + j div 512)" using j(4) key(1) by simp
        then show ?thesis using less(1) by simp
      next
        case 2
        then have "x = (2, q + j div 2 ^ 18)" using j(4) key(2) by simp
        then show ?thesis using less(2) by simp
      next
        case 3
        then show ?thesis using j(3,4) by simp
      qed
    qed
  qed simp
  also have "\<dots> \<le> m * 512 + m + (levels cr4 - 3)"
    using card_Un_le [of "{1} \<times> {q * 512..<q * 512 + m * 512} \<union> {2} \<times> {q..<q + m}" "{3..<levels cr4} \<times> {0 :: nat}"]
      card_Un_le [of "{1 :: nat} \<times> {q * 512..<q * 512 + m * 512}" "{2} \<times> {q..<q + m}"]
    by (simp add: card_cartesian_product)
  finally show ?thesis by simp
qed

section \<open>The three ranges\<close>

text \<open>The address at which a range starts, and its first-level index.\<close>

definition data_base :: "u64 \<Rightarrow> nat" where
  "data_base cr4 = (if is_la57_enabled cr4 then 0xFF00000000000000 else 0xFFFF800000000000)"

lemma range_address:
  "j < 2 ^ 20 \<Longrightarrow> unat (of_nat j * PAGE_SIZE) = 0 + j * 4096"
  "j < 2 ^ 20 \<Longrightarrow> unat (phys_to_higher_half_data cr4 (of_nat j * PAGE_SIZE)) = data_base cr4 + j * 4096"
  "j < 2 ^ 19 \<Longrightarrow> unat (phys_to_higher_half_code (of_nat j * PAGE_SIZE)) = 0xFFFFFFFF80000000 + j * 4096"
  using range_page [of j] unat_page_ptr [of j cr4]
  by (simp_all add: data_base_def page_ptr_def phys_to_higher_half_code_def HIGHER_HALF_CODE_def unat_add_u64)

lemma top_index:
  "j < 2 ^ 20 \<Longrightarrow> va_index (levels cr4) (of_nat j * PAGE_SIZE) = 0"
  "j < 2 ^ 20 \<Longrightarrow> va_index (levels cr4) (phys_to_higher_half_data cr4 (of_nat j * PAGE_SIZE)) = 256"
  "j < 2 ^ 19 \<Longrightarrow> va_index (levels cr4) (phys_to_higher_half_code (of_nat j * PAGE_SIZE)) = 511"
proof -
  have block: "(b + j * 4096) div 2 ^ (9 * levels cr4 + 3) = b div 2 ^ (9 * levels cr4 + 3)"
    if "b mod 2 ^ 39 = 0" "j < 2 ^ 20" for b
  proof -
    have "(b + j * 4096) div 2 ^ 39 = b div 2 ^ 39" using that by (intro div_block) simp
    moreover have "9 * levels cr4 + 3 = 39 + 9 * (levels cr4 - 4)" by (simp add: levels_def)
    ultimately show ?thesis by (simp only: power_add div_mult2_eq)
  qed
  show "va_index (levels cr4) (of_nat j * PAGE_SIZE) = 0" if "j < 2 ^ 20"
    using block [of 0] that unfolding va_index_nat range_address(1) [OF that] by simp
  show "va_index (levels cr4) (phys_to_higher_half_data cr4 (of_nat j * PAGE_SIZE)) = 256" if "j < 2 ^ 20"
    using block [of "data_base cr4"] that unfolding va_index_nat range_address(2) [OF that]
    by (simp add: data_base_def levels_def)
  have "(0xFFFFFFFF80000000 + j * 4096) div 2 ^ 39 = 0xFFFFFFFF80000000 div 2 ^ 39" if "j < 2 ^ 19"
    using that by (intro div_block) simp
  then have "(0xFFFFFFFF80000000 + j * 4096) div 2 ^ (9 * levels cr4 + 3) = 0xFFFFFFFF80000000 div 2 ^ (9 * levels cr4 + 3)"
    if "j < 2 ^ 19"
  proof -
    assume *: "j < 2 ^ 19 \<Longrightarrow> (0xFFFFFFFF80000000 + j * 4096) div 2 ^ 39 = 0xFFFFFFFF80000000 div 2 ^ 39"
    have "9 * levels cr4 + 3 = 39 + 9 * (levels cr4 - 4)" by (simp add: levels_def)
    with * [OF that] show ?thesis by (simp only: power_add div_mult2_eq)
  qed
  then show "va_index (levels cr4) (phys_to_higher_half_code (of_nat j * PAGE_SIZE)) = 511" if "j < 2 ^ 19"
    unfolding va_index_nat range_address(3) [OF that] using that by (simp add: levels_def)
qed

lemma range_tables:
  "card (\<Union>j < 2 ^ 20. table_keys cr4 (of_nat j * PAGE_SIZE)) \<le> 2052 + (levels cr4 - 3)"
  "card (\<Union>j < 2 ^ 20. table_keys cr4 (phys_to_higher_half_data cr4 (of_nat j * PAGE_SIZE))) \<le> 2052 + (levels cr4 - 3)"
  "card (\<Union>j < 2 ^ 19. table_keys cr4 (phys_to_higher_half_code (of_nat j * PAGE_SIZE))) \<le> 1026 + (levels cr4 - 3)"
  using range_keys [of 4 "\<lambda>j. of_nat j * PAGE_SIZE" 0 cr4]
    range_keys [of 4 "\<lambda>j. phys_to_higher_half_data cr4 (of_nat j * PAGE_SIZE)" "data_base cr4" cr4]
    range_keys [of 2 "\<lambda>j. phys_to_higher_half_code (of_nat j * PAGE_SIZE)" "0xFFFFFFFF80000000" cr4]
    range_address
  by (simp_all add: data_base_def)


section \<open>The root table\<close>

text \<open>The pages that the allocator can hand out lie below 4 GiB and are filled with zeros.\<close>

definition blank_pages :: "vmm_state \<Rightarrow> bool" where
  "blank_pages st \<longleftrightarrow> (\<forall>f \<in> pmm_avail (v_pmm st). f < 2 ^ 20 \<and> (\<forall>i < 512. ent st f i = 0))"

lemma page_bytes:
  assumes "f < 2 ^ 20"
  shows "unat (a - frame_addr f) < 4096 \<longleftrightarrow> unat a div 4096 = f"
proof -
  have f: "unat (frame_addr f) = f * 4096" by (rule unat_frame_addr [OF assms])
  show ?thesis
  proof
    assume less: "unat (a - frame_addr f) < 4096"
    have "unat a = unat ((a - frame_addr f) + frame_addr f)" by simp
    also have "\<dots> = unat (a - frame_addr f) + f * 4096" using less f assms by (subst unat_add_u64) simp_all
    finally show "unat a div 4096 = f" using less by simp
  next
    assume "unat a div 4096 = f"
    then have "f * 4096 \<le> unat a" "unat a < f * 4096 + 4096" by auto
    then show "unat (a - frame_addr f) < 4096" using f by (subst unat_sub) (simp_all add: word_le_nat_alt)
  qed
qed

lemma new_directory:
  assumes map: "boot_map cr4 tr" and ok: "pmm_ok (v_pmm st)" and blank: "blank_pages st"
    and avail: "pmm_avail (v_pmm st) \<noteq> {}"
  obtains st' r where "vmm_create_page_directory tr cr4 st = Some (st', page_ptr cr4 r)"
    "r \<in> pmm_avail (v_pmm st)" "r < 2 ^ 20" "vmm_inv (\<lambda>f. if f = r then levels cr4 else 0) (\<lambda>f. (0, 0)) st'"
    "tables_grow (\<lambda>f. 0) st (\<lambda>f. if f = r then levels cr4 else 0) st' 1" "\<And>v. translates cr4 r st' v = None"
proof -
  obtain pm r where r: "pmm_alloc cr4 (v_pmm st) 1 = Some (pm, page_ptr cr4 r)" "r \<in> pmm_avail (v_pmm st)"
    "pmm_avail pm = pmm_avail (v_pmm st) - {r}" "pmm_ok pm"
    "higher_half_data_to_phys cr4 (page_ptr cr4 r) = frame_addr r"
    using pmm_alloc_frame [OF ok avail] by blast
  have small: "r < 2 ^ 20" using blank r(2) by (simp add: blank_pages_def)
  have tr: "tr (frame_addr r) = frame_addr r" using map unat_frame_addr [OF small] small by (simp add: boot_map_def)
  let ?lvl = "\<lambda>f. if f = r then levels cr4 else 0"
  define mem where "mem = fst (memset (v_mem st) (frame_addr r) 0 PAGE_SIZE)"
  define st' where "st' = st\<lparr>v_pmm := pm, v_mem := mem\<rparr>"
  have mem: "mem a = (if unat a div 4096 = r then 0 else v_mem st a)" for a
    using memset_exact [of "v_mem st" "frame_addr r" 0 PAGE_SIZE a] page_bytes [OF small, of a]
    by (simp add: mem_def PAGE_SIZE_def)
  have ents: "ent st' f i = (if f = r then 0 else ent st f i)" if "f < 2 ^ 20" "i < 512" for f i
  proof -
    have "unat (frame_addr f + 8 * of_nat i + of_nat k) div 4096 = f" if "k < 8" for k
    proof -
      have "unat (frame_addr f + 8 * of_nat i + of_nat k) = f * 4096 + 8 * i + k"
        using aligned8_offset [OF aligned8_ent, of f i k] unat_ent_addr [of f i] that \<open>f < 2 ^ 20\<close> \<open>i < 512\<close> by simp
      then show ?thesis using that \<open>i < 512\<close> by simp
    qed
    then have "mem (frame_addr f + 8 * of_nat i + of_nat k) =
        (if f = r then 0 else v_mem st (frame_addr f + 8 * of_nat i + of_nat k))" if "k < 8" for k
      using mem that by simp
    then show ?thesis
      unfolding ent_def st'_def vmm_state.simps by (auto intro: load64_zero load64_cong)
  qed
  have "levels cr4 \<noteq> 0" using levels_Suc [of cr4] by simp
  then have inv: "vmm_inv ?lvl (\<lambda>f. (0, 0)) st'"
    using r small ents blank by (auto simp: vmm_inv_def blank_pages_def st'_def)
  show thesis
  proof
    show "vmm_create_page_directory tr cr4 st = Some (st', page_ptr cr4 r)"
      using r by (simp add: vmm_create_page_directory_def tr st'_def mem_def)
    show "r \<in> pmm_avail (v_pmm st)" "r < 2 ^ 20" by (rule r(2), rule small)
    show "vmm_inv ?lvl (\<lambda>f. (0, 0)) st'" by (rule inv)
    show "tables_grow (\<lambda>f. 0) st ?lvl st' 1"
      using r mem \<open>levels cr4 \<noteq> 0\<close> card_Suc_Diff1 [of "pmm_avail (v_pmm st)" r]
      by (auto simp: tables_grow_def st'_def split: if_splits)
    show "translates cr4 r st' v = None" for v
      unfolding translates_def using ents small levels_Suc [of cr4] by (intro page_walk_zero) auto
  qed
qed

section \<open>The address space\<close>

text \<open>
  The specification: physical page \<open>j\<close> is seen at its own address, in the higher half for data, and if it is among
  the first 2 GiB in the higher half for code.
\<close>

definition kernel_page :: "u64 \<Rightarrow> u64 \<Rightarrow> nat \<Rightarrow> bool" where
  "kernel_page cr4 v j \<longleftrightarrow>
     j < 2 ^ 20 \<and> (same_page cr4 (of_nat j * PAGE_SIZE) v \<or> same_page cr4 (phys_to_higher_half_data cr4 (of_nat j * PAGE_SIZE)) v) \<or>
     j < 2 ^ 19 \<and> same_page cr4 (phys_to_higher_half_code (of_nat j * PAGE_SIZE)) v"

lemma page_walk_indices:
  "(\<And>l. l \<in> {1..n} \<Longrightarrow> va_index l u = va_index l v) \<Longrightarrow> page_walk mem n a u = page_walk mem n a v"
proof (induction n arbitrary: a)
  case (Suc n)
  then have "va_index (Suc n) u = va_index (Suc n) v" by simp
  with Suc show ?case by (simp add: Let_def)
qed simp

lemma translates_same_page: "same_page cr4 u v \<Longrightarrow> translates cr4 r st v = translates cr4 r st u"
  unfolding translates_def same_page_def by (metis page_walk_indices)

lemma same_page_top: "same_page cr4 u v \<Longrightarrow> va_index (levels cr4) u = va_index (levels cr4) v"
  using levels_Suc [of cr4] by (auto simp: same_page_def)

lemma vmm_init_result:
  assumes map: "boot_map cr4 tr" and ok: "pmm_ok (v_pmm st)" and blank: "blank_pages st"
    and avail: "5137 \<le> card (pmm_avail (v_pmm st))"
  obtains st' lvl par r where "vmm_init tr cr4 st = Some st'" "root_page_directory st' = page_ptr cr4 r"
    "v_cr3 st' = frame_addr r" "vmm_inv lvl par st'" "lvl r = levels cr4"
    "\<And>f. lvl f \<noteq> 0 \<Longrightarrow> f \<in> pmm_avail (v_pmm st) - pmm_avail (v_pmm st')"
    "\<And>a. lvl (unat a div 4096) = 0 \<Longrightarrow> v_mem st' a = v_mem st a"
    "pmm_avail (v_pmm st') \<subseteq> pmm_avail (v_pmm st)"
    "card (pmm_avail (v_pmm st)) \<le> card (pmm_avail (v_pmm st')) + 5137"
    "\<And>v j. kernel_page cr4 v j \<Longrightarrow> translates cr4 r st' v = Some (of_nat j * PAGE_SIZE)"
    "\<And>v. \<not> (\<exists>j. kernel_page cr4 v j) \<Longrightarrow> translates cr4 r st' v = None"
proof -
  have "pmm_avail (v_pmm st) \<noteq> {}" using avail by auto
  then obtain s0 r where s0: "vmm_create_page_directory tr cr4 st = Some (s0, page_ptr cr4 r)"
    "vmm_inv (\<lambda>f. if f = r then levels cr4 else 0) (\<lambda>f. (0, 0)) s0"
    "tables_grow (\<lambda>f. 0) st (\<lambda>f. if f = r then levels cr4 else 0) s0 1" "\<And>v. translates cr4 r s0 v = None"
    using new_directory [OF map ok blank] by metis
  define lvl0 where "lvl0 = (\<lambda>f. if f = r then levels cr4 else 0)"
  define s1 where "s1 = s0\<lparr>root_page_directory := page_ptr cr4 r\<rparr>"
  have lv: "levels cr4 - 3 \<le> 2" "levels cr4 \<noteq> 0" "lvl0 r = levels cr4" by (simp_all add: levels_def lvl0_def)
  have inv1: "vmm_inv lvl0 (\<lambda>f. (0, 0)) s1"
    using s0(2) by (simp add: vmm_inv_def s1_def ent_def lvl0_def)
  have none: "translates cr4 r s1 v = None" for v using s0(4) by (simp add: translates_def s1_def)
  have dir: "table_ptr cr4 (page_ptr cr4 r) r" by (simp add: table_ptr_def)
  have fl: "odd (PTE_PRESENT OR PTE_READ_WRITE)" "0 \<le> PTE_PRESENT OR PTE_READ_WRITE" "PTE_PRESENT OR PTE_READ_WRITE < 512"
    "odd PTE_PRESENT" "0 \<le> PTE_PRESENT" "PTE_PRESENT < 512"
    by (simp_all add: PTE_PRESENT_def PTE_READ_WRITE_def)
  have c0: "card (pmm_avail (v_pmm st)) \<le> card (pmm_avail (v_pmm s1)) + 1"
    using tables_growD(2) [OF s0(3)] by (simp add: s1_def)
  let ?c1 = "card (\<Union>j < 2 ^ 20. table_keys cr4 (of_nat j * PAGE_SIZE))"
    and ?c2 = "card (\<Union>j < 2 ^ 20. table_keys cr4 (phys_to_higher_half_data cr4 (of_nat j * PAGE_SIZE)))"
    and ?c3 = "card (\<Union>j < 2 ^ 19. table_keys cr4 (phys_to_higher_half_code (of_nat j * PAGE_SIZE)))"
  note c = range_tables [of cr4]
  have apart: "init_place cr4 (\<lambda>i. i) (2 ^ 20)" "init_place cr4 (phys_to_higher_half_data cr4) (2 ^ 20)"
    "init_place cr4 phys_to_higher_half_code (2 ^ 19)"
    by (auto simp: init_place_def)
  obtain s2 lvl2 par2 where s2: "vmm_map_range tr cr4 (page_ptr cr4 r) (\<lambda>i. i) (PTE_PRESENT OR PTE_READ_WRITE) (2 ^ 20) s1 = Some s2"
    "vmm_inv lvl2 par2 s2" "tables_grow lvl0 s1 lvl2 s2 ?c1"
    "\<And>j. j < 2 ^ 20 \<Longrightarrow> translates cr4 r s2 (of_nat j * PAGE_SIZE) = Some (of_nat j * PAGE_SIZE)"
    "\<And>v. (\<forall>j < 2 ^ 20. \<not> same_page cr4 (of_nat j * PAGE_SIZE) v) \<Longrightarrow> translates cr4 r s2 v = translates cr4 r s1 v"
    using map_range_cost [OF map inv1 lv(3) dir fl(1-3), of "2 ^ 20" "\<lambda>i. i"] init_place_apart [OF apart(1)] c c0 avail lv(1)
    by auto
  have r2: "lvl2 r = levels cr4" using tables_growD(3) [OF s2(3), of r] lv by simp
  have c2: "card (pmm_avail (v_pmm s1)) \<le> card (pmm_avail (v_pmm s2)) + ?c1" by (rule tables_growD(2) [OF s2(3)])
  obtain s3 lvl3 par3 where s3: "vmm_map_range tr cr4 (page_ptr cr4 r) (phys_to_higher_half_data cr4)
      (PTE_PRESENT OR PTE_READ_WRITE) (2 ^ 20) s2 = Some s3"
    "vmm_inv lvl3 par3 s3" "tables_grow lvl2 s2 lvl3 s3 ?c2"
    "\<And>j. j < 2 ^ 20 \<Longrightarrow> translates cr4 r s3 (phys_to_higher_half_data cr4 (of_nat j * PAGE_SIZE)) = Some (of_nat j * PAGE_SIZE)"
    "\<And>v. (\<forall>j < 2 ^ 20. \<not> same_page cr4 (phys_to_higher_half_data cr4 (of_nat j * PAGE_SIZE)) v) \<Longrightarrow>
      translates cr4 r s3 v = translates cr4 r s2 v"
    using map_range_cost [OF map s2(2) r2 dir fl(1-3), of "2 ^ 20" "phys_to_higher_half_data cr4"]
      init_place_apart [OF apart(2)] c c0 c2 avail lv(1)
    by auto
  have r3: "lvl3 r = levels cr4" using tables_growD(3) [OF s3(3), of r] r2 lv by simp
  have c3: "card (pmm_avail (v_pmm s2)) \<le> card (pmm_avail (v_pmm s3)) + ?c2" by (rule tables_growD(2) [OF s3(3)])
  obtain s4 lvl4 par4 where s4: "vmm_map_range tr cr4 (page_ptr cr4 r) phys_to_higher_half_code PTE_PRESENT (2 ^ 19) s3 = Some s4"
    "vmm_inv lvl4 par4 s4" "tables_grow lvl3 s3 lvl4 s4 ?c3"
    "\<And>j. j < 2 ^ 19 \<Longrightarrow> translates cr4 r s4 (phys_to_higher_half_code (of_nat j * PAGE_SIZE)) = Some (of_nat j * PAGE_SIZE)"
    "\<And>v. (\<forall>j < 2 ^ 19. \<not> same_page cr4 (phys_to_higher_half_code (of_nat j * PAGE_SIZE)) v) \<Longrightarrow>
      translates cr4 r s4 v = translates cr4 r s3 v"
    using map_range_cost [OF map s3(2) r3 dir fl(4-6), of "2 ^ 19" phys_to_higher_half_code]
      init_place_apart [OF apart(3)] c c0 c2 c3 avail lv(1)
    by auto
  have r4: "lvl4 r = levels cr4" using tables_growD(3) [OF s4(3), of r] r3 lv by simp
  define st' where "st' = s4\<lparr>v_cr3 := frame_addr r\<rparr>"
  have same: "v_pmm s1 = v_pmm s0" "v_mem s1 = v_mem s0" by (simp_all add: s1_def)
  have "tables_grow (\<lambda>f. 0) st lvl0 s0 1" using s0(3) by (simp add: lvl0_def)
  note A = tables_growD [OF this]
  note B = tables_growD [OF tables_grow_trans [OF s2(3) tables_grow_trans [OF s3(3) s4(3)]], unfolded same]
  have data_top: "\<not> same_page cr4 (phys_to_higher_half_data cr4 (of_nat j * PAGE_SIZE)) (of_nat k * PAGE_SIZE)"
    and code_top: "j < 2 ^ 19 \<Longrightarrow> \<not> same_page cr4 (phys_to_higher_half_code (of_nat j * PAGE_SIZE)) (of_nat k * PAGE_SIZE)"
      "j < 2 ^ 19 \<Longrightarrow> \<not> same_page cr4 (phys_to_higher_half_code (of_nat j * PAGE_SIZE)) (phys_to_higher_half_data cr4 (of_nat k * PAGE_SIZE))"
    if "j < 2 ^ 20" "k < 2 ^ 20" for j k
    using same_page_top top_index [of j cr4] top_index [of k cr4] that by fastforce+
  have low: "translates cr4 r s4 (of_nat k * PAGE_SIZE) = Some (of_nat k * PAGE_SIZE)" if "k < 2 ^ 20" for k
    using s2(4) [OF that] s3(5) [of "of_nat k * PAGE_SIZE"] s4(5) [of "of_nat k * PAGE_SIZE"] data_top [OF _ that] code_top(1) [OF _ that]
    by (simp add: order.strict_trans2)
  have high: "translates cr4 r s4 (phys_to_higher_half_data cr4 (of_nat k * PAGE_SIZE)) = Some (of_nat k * PAGE_SIZE)" if "k < 2 ^ 20" for k
    using s3(4) [OF that] s4(5) [of "phys_to_higher_half_data cr4 (of_nat k * PAGE_SIZE)"] code_top(2) [OF _ that]
    by (simp add: order.strict_trans2)
  have lists: "unat (4 * GB div PAGE_SIZE) = 2 ^ 20" "unat (0x80000000 div PAGE_SIZE) = 2 ^ 19"
    by (simp_all add: GB_def PAGE_SIZE_def)
  have mem: "translates cr4 r st' v = translates cr4 r s4 v" for v by (simp add: st'_def translates_def)
  show thesis
  proof
    show "vmm_init tr cr4 st = Some st'"
      unfolding vmm_init_def lists s0(1) Option.bind.bind_lunit Let_def prod.case s1_def [symmetric] s2(1) s3(1) s4(1)
      by (simp add: vmm_activate_page_directory_def st'_def page_ptr_frame)
    show "root_page_directory st' = page_ptr cr4 r" using B(7) by (simp add: st'_def s1_def)
    show "v_cr3 st' = frame_addr r" by (simp add: st'_def)
    show "vmm_inv lvl4 par4 st'" using s4(2) by (simp add: vmm_inv_def st'_def ent_def)
    show "lvl4 r = levels cr4" by (rule r4)
    show "f \<in> pmm_avail (v_pmm st) - pmm_avail (v_pmm st')" if "lvl4 f \<noteq> 0" for f
      using A(1) B(1) A(4) [of f] B(4) [of f] that by (cases "lvl0 f = 0") (auto simp: st'_def)
    show "v_mem st' a = v_mem st a" if "lvl4 (unat a div 4096) = 0" for a
    proof -
      have "lvl0 (unat a div 4096) = 0" using B(3) [of "unat a div 4096"] that by metis
      then show ?thesis using A(5) [of a] B(5) [of a] that by (simp add: st'_def)
    qed
    show "pmm_avail (v_pmm st') \<subseteq> pmm_avail (v_pmm st)" using A(1) B(1) by (simp add: st'_def)
    show "card (pmm_avail (v_pmm st)) \<le> card (pmm_avail (v_pmm st')) + 5137"
      using A(2) B(2) c lv(1) by (simp add: st'_def)
    show "translates cr4 r st' v = Some (of_nat j * PAGE_SIZE)" if page: "kernel_page cr4 v j" for v j
    proof -
      consider "j < 2 ^ 20" "same_page cr4 (of_nat j * PAGE_SIZE) v"
        | "j < 2 ^ 20" "same_page cr4 (phys_to_higher_half_data cr4 (of_nat j * PAGE_SIZE)) v"
        | "j < 2 ^ 19" "same_page cr4 (phys_to_higher_half_code (of_nat j * PAGE_SIZE)) v"
        using page unfolding kernel_page_def by blast
      then show ?thesis
        unfolding mem using low high s4(4) by cases (simp_all only: translates_same_page)
    qed
    show "translates cr4 r st' v = None" if no: "\<not> (\<exists>j. kernel_page cr4 v j)" for v
    proof -
      have "translates cr4 r s4 v = translates cr4 r s3 v" by (rule s4(5)) (use no in \<open>simp add: kernel_page_def\<close>)
      also have "\<dots> = translates cr4 r s2 v" by (rule s3(5)) (use no in \<open>simp add: kernel_page_def\<close>)
      also have "\<dots> = translates cr4 r s1 v" by (rule s2(5)) (use no in \<open>simp add: kernel_page_def\<close>)
      finally show ?thesis by (simp only: mem none)
    qed
  qed
qed


section \<open>Properties\<close>

text \<open>
  C2: with 5137 blank pages below 4 GiB, \<open>vmm_init\<close> builds an address space in which exactly the three ranges of the kernel are
  translated: the first 4 GiB at their own address and in the higher half for data, the first 2 GiB in the higher half for code. It loads
  the root into \<open>cr3\<close>, takes at most these 5137 pages, and writes to no other page. Both paging modes.
\<close>

theorem vmm_init_correct:
  assumes "boot_map cr4 tr" "pmm_ok (v_pmm st)" "blank_pages st" "5137 \<le> card (pmm_avail (v_pmm st))"
  shows "\<exists>st' r. vmm_init tr cr4 st = Some st' \<and> vmm_ok cr4 r st' \<and>
    root_page_directory st' = page_ptr cr4 r \<and> v_cr3 st' = frame_addr r \<and>
    (\<forall>v j. kernel_page cr4 v j \<longrightarrow> translates cr4 r st' v = Some (of_nat j * PAGE_SIZE)) \<and>
    (\<forall>v. \<not> (\<exists>j. kernel_page cr4 v j) \<longrightarrow> translates cr4 r st' v = None) \<and>
    card (pmm_avail (v_pmm st)) \<le> card (pmm_avail (v_pmm st')) + 5137 \<and>
    (\<forall>a. unat a div 4096 \<notin> pmm_avail (v_pmm st) \<longrightarrow> v_mem st' a = v_mem st a)"
proof -
  obtain st' lvl par r where *: "vmm_init tr cr4 st = Some st'" "root_page_directory st' = page_ptr cr4 r"
    "v_cr3 st' = frame_addr r" "vmm_inv lvl par st'" "lvl r = levels cr4"
    "\<And>f. lvl f \<noteq> 0 \<Longrightarrow> f \<in> pmm_avail (v_pmm st) - pmm_avail (v_pmm st')"
    "\<And>a. lvl (unat a div 4096) = 0 \<Longrightarrow> v_mem st' a = v_mem st a"
    "card (pmm_avail (v_pmm st)) \<le> card (pmm_avail (v_pmm st')) + 5137"
    "\<And>v j. kernel_page cr4 v j \<Longrightarrow> translates cr4 r st' v = Some (of_nat j * PAGE_SIZE)"
    "\<And>v. \<not> (\<exists>j. kernel_page cr4 v j) \<Longrightarrow> translates cr4 r st' v = None"
    by (rule vmm_init_result [OF assms]) blast
  have "vmm_ok cr4 r st'" using *(4,5) by (auto simp: vmm_ok_def)
  moreover have "v_mem st' a = v_mem st a" if "unat a div 4096 \<notin> pmm_avail (v_pmm st)" for a
    using *(6) [of "unat a div 4096"] *(7) [of a] that by blast
  ultimately show ?thesis using *(1-3,8-10) by blast
qed

text \<open>The machine with 128 MiB, its pages blank.\<close>

lemma sample_boot:
  obtains pm where "pmm_init 0 pmm_zero sample_mmap = Some pm" "pmm_ok pm"
    "pmm_avail pm = {2..<0x9F} \<union> {0x100..<0x8000}" "5200 \<le> card (pmm_avail pm)"
proof -
  have disj: "mmap_disjoint sample_mmap"
    by (simp add: mmap_disjoint_def sample_mmap_def usable_def entry_pages_def mmap_types)
  have small: "unat (find_highest sample_mmap 0) < 2 ^ 34" by (simp add: sample_highest)
  obtain pm where pm: "pmm_init 0 pmm_zero sample_mmap = Some pm" "pmm_ok pm"
    "pmm_avail pm = usable_pages (pmm_init_map sample_mmap) - {0}"
    using pmm_init_ready [OF sample_mmap_ok disj _ small, of pmm_zero 0] by (auto simp: pmm_zero_def)
  have avail: "pmm_avail pm = {2..<0x9F} \<union> {0x100..<0x8000}" unfolding pm(3) by (rule sample_init_pages)
  have "card ({2..<0x9F} \<union> {0x100..<0x8000 :: nat}) = card {2..<0x9F :: nat} + card {0x100..<0x8000 :: nat}"
    by (rule card_Un_disjoint) auto
  then show thesis using that pm(1,2) avail by simp
qed

theorem vmm_init_correct_witness:
  "\<exists>pm st' r. pmm_init 0 pmm_zero sample_mmap = Some pm \<and> vmm_init boot_tr 0 (vmm_sample\<lparr>v_pmm := pm\<rparr>) = Some st' \<and>
    v_cr3 st' = frame_addr r \<and> translates 0 r st' 0xFFFF800000005000 = Some 0x5000"
proof -
  obtain pm where pm: "pmm_init 0 pmm_zero sample_mmap = Some pm" "pmm_ok pm"
    "pmm_avail pm = {2..<0x9F} \<union> {0x100..<0x8000}" "5200 \<le> card (pmm_avail pm)"
    by (rule sample_boot)
  have "blank_pages (vmm_sample\<lparr>v_pmm := pm\<rparr>)"
    by (auto simp: blank_pages_def pm(3) vmm_sample_def ent_def load64_zero)
  moreover have "kernel_page 0 0xFFFF800000005000 5"
    by (simp add: kernel_page_def same_page_def phys_to_higher_half_data_def is_la57_enabled_def
        HIGHER_HALF_DATA_LV4_def PAGE_SIZE_def)
  ultimately show ?thesis
    using vmm_init_correct [OF boot_map_sample, of "vmm_sample\<lparr>v_pmm := pm\<rparr>"] pm
    by (fastforce simp: PAGE_SIZE_def)
qed

end
