(* ===== verification/Gdt.thy ===== *)
theory Gdt
  imports Prelude
begin

text \<open>
  \<open>gdt\<close>: the segment descriptors, the task state segment, and their load into the
  processor. The addresses of the static tables are parameters. How the processor reads a
  descriptor (Intel SDM volume 3, 3.4.5 and 7.2.3) is defined after the code; the segment
  registers that the assembly routine loads are a record of their own.
\<close>

section \<open>Tables\<close>

record GDT_Descriptor =
  limit_15_0 :: u16
  base_15_0 :: u16
  base_23_16 :: u8
  seg_type :: u8
  limit_19_16_and_flags :: u8
  base_31_24 :: u8

record TSS =
  reserved0 :: u32
  rsp0 :: u64
  rsp1 :: u64
  rsp2 :: u64
  reserved1 :: u64
  ist1 :: u64
  ist2 :: u64
  ist3 :: u64
  ist4 :: u64
  ist5 :: u64
  ist6 :: u64
  ist7 :: u64
  reserved2 :: u64
  reserved3 :: u16
  iopb_offset :: u16

definition sizeof_TSS :: nat where
  "sizeof_TSS = 4 + 3 * 8 + 8 + 7 * 8 + 8 + 2 + 2"

definition zero_TSS :: TSS where
  "zero_TSS = \<lparr>reserved0 = 0, rsp0 = 0, rsp1 = 0, rsp2 = 0, reserved1 = 0, ist1 = 0, ist2 = 0, ist3 = 0,
     ist4 = 0, ist5 = 0, ist6 = 0, ist7 = 0, reserved2 = 0, reserved3 = 0, iopb_offset = 0\<rparr>"

record GDT =
  null :: GDT_Descriptor
  kernel_code :: GDT_Descriptor
  kernel_data :: GDT_Descriptor
  null2 :: GDT_Descriptor
  user_data :: GDT_Descriptor
  user_code :: GDT_Descriptor
  ovmf_data :: GDT_Descriptor
  ovmf_code :: GDT_Descriptor
  tss_low :: GDT_Descriptor
  tss_high :: GDT_Descriptor

definition sizeof_GDT :: nat where
  "sizeof_GDT = 10 * 8"

record GDT_Pointer =
  limit :: u16
  base :: u64

text \<open>The segment part of the processor.\<close>

record segments =
  gdtr :: GDT_Pointer
  tr :: u16
  cs :: u16
  ds :: u16
  es :: u16
  fs :: u16
  gs :: u16
  ss :: u16

definition load_gdt_and_tss_asm :: "GDT_Pointer \<Rightarrow> segments \<Rightarrow> segments" where
  "load_gdt_and_tss_asm ptr cpu =
     cpu\<lparr>gdtr := ptr, tr := 0x40, ds := 0x10, es := 0x10, fs := 0x10, gs := 0x10, ss := 0x10, cs := 0x08\<rparr>"

section \<open>Initialisation\<close>

definition descriptor :: "u8 \<Rightarrow> u8 \<Rightarrow> GDT_Descriptor" where
  "descriptor type flags = \<lparr>limit_15_0 = 0, base_15_0 = 0, base_23_16 = 0, seg_type = type,
     limit_19_16_and_flags = flags, base_31_24 = 0\<rparr>"

definition create_descriptors :: "GDT \<Rightarrow> GDT" where
  "create_descriptors gdt =
     gdt\<lparr>null := descriptor 0x00 0x00,
         kernel_code := descriptor 0x9A 0xA0,
         kernel_data := descriptor 0x92 0xA0,
         null2 := descriptor 0x00 0x00,
         user_data := descriptor 0x92 0xA0,
         user_code := descriptor 0x9A 0xA0,
         ovmf_data := descriptor 0x92 0xA0,
         ovmf_code := descriptor 0x9A 0xA0,
         tss_low := descriptor 0x89 0xA0,
         tss_high := descriptor 0x00 0x00\<rparr>"

record gdt_state =
  tss :: TSS
  gdt :: GDT
  gdt_pointer :: GDT_Pointer

definition gdt_init :: "u64 \<Rightarrow> u64 \<Rightarrow> gdt_state \<times> segments \<Rightarrow> gdt_state \<times> segments" where
  "gdt_init tss_base gdt_addr st =
     (let (g, cpu) = st;
          table = create_descriptors (gdt g);
          low = (tss_low table)\<lparr>
            base_15_0 := ucast (tss_base AND 0xffff),
            base_23_16 := ucast (drop_bit 16 tss_base AND 0xff),
            base_31_24 := ucast (drop_bit 24 tss_base AND 0xff),
            limit_15_0 := of_nat sizeof_TSS\<rparr>;
          high = (tss_high table)\<lparr>
            limit_15_0 := ucast (drop_bit 32 tss_base AND 0xffff),
            base_15_0 := ucast (drop_bit 48 tss_base AND 0xffff)\<rparr>;
          ptr = \<lparr>limit = of_nat (sizeof_GDT - 1), base = gdt_addr\<rparr>
      in (\<lparr>tss = zero_TSS, gdt = table\<lparr>tss_low := low, tss_high := high\<rparr>, gdt_pointer = ptr\<rparr>,
          load_gdt_and_tss_asm ptr cpu))"

section \<open>How the processor reads the table\<close>

definition gdt_entries :: "GDT \<Rightarrow> GDT_Descriptor list" where
  "gdt_entries g = [null g, kernel_code g, kernel_data g, null2 g, user_data g, user_code g,
     ovmf_data g, ovmf_code g, tss_low g, tss_high g]"

definition selected :: "GDT \<Rightarrow> u16 \<Rightarrow> GDT_Descriptor" where
  "selected g selector = gdt_entries g ! (unat selector div 8)"

definition present :: "GDT_Descriptor \<Rightarrow> bool" where
  "present s \<longleftrightarrow> bit (seg_type s) 7"

definition privilege_level :: "GDT_Descriptor \<Rightarrow> nat" where
  "privilege_level s = unat (drop_bit 5 (seg_type s) AND 3)"

text \<open>A 64-bit code segment: code or data, executable, long mode, and not 32-bit.\<close>

definition code64 :: "GDT_Descriptor \<Rightarrow> bool" where
  "code64 s \<longleftrightarrow> bit (seg_type s) 4 \<and> bit (seg_type s) 3 \<and>
     bit (limit_19_16_and_flags s) 5 \<and> \<not> bit (limit_19_16_and_flags s) 6"

definition writable_data :: "GDT_Descriptor \<Rightarrow> bool" where
  "writable_data s \<longleftrightarrow> bit (seg_type s) 4 \<and> \<not> bit (seg_type s) 3 \<and> bit (seg_type s) 1"

definition available_tss :: "GDT_Descriptor \<Rightarrow> bool" where
  "available_tss s \<longleftrightarrow> seg_type s AND 0x1F = 0x09"

definition segment_limit :: "GDT_Descriptor \<Rightarrow> nat" where
  "segment_limit s =
     (let raw = unat (limit_15_0 s) + 2 ^ 16 * unat (limit_19_16_and_flags s AND 0xF)
      in if bit (limit_19_16_and_flags s) 7 then raw * 4096 + 4095 else raw)"

text \<open>The base of a 16-byte system descriptor.\<close>

definition system_base :: "GDT_Descriptor \<Rightarrow> GDT_Descriptor \<Rightarrow> u64" where
  "system_base low high =
     ucast (base_15_0 low) OR push_bit 16 (ucast (base_23_16 low)) OR push_bit 24 (ucast (base_31_24 low)) OR
     push_bit 32 (ucast (limit_15_0 high)) OR push_bit 48 (ucast (base_15_0 high))"

lemma split_base:
  "(ucast (ucast (w AND 0xffff) :: u16) :: u64) OR push_bit 16 (ucast (ucast (drop_bit 16 w AND 0xff) :: u8)) OR
     push_bit 24 (ucast (ucast (drop_bit 24 w AND 0xff) :: u8)) OR
     push_bit 32 (ucast (ucast (drop_bit 32 w AND 0xffff) :: u16)) OR
     push_bit 48 (ucast (ucast (drop_bit 48 w AND 0xffff) :: u16)) = (w :: u64)"
proof -
  have masks: "w AND 0xffff = take_bit 16 w" "v AND 0xff = take_bit 8 v" "v AND 0xffff = take_bit 16 v" for v :: u64
    by (simp_all add: take_bit_eq_mask mask_eq_exp_minus_1)
  show ?thesis (is "?v = w")
  proof (rule bit_word_eqI)
    fix n
    assume "n < LENGTH(64)"
    then show "bit ?v n = bit w n"
      unfolding masks
        by (cases "n < 48"; cases "n < 32"; cases "n < 24") (auto simp: bit_simps)
  qed
qed

section \<open>Properties\<close>

text \<open>C37: \<open>gdt_init\<close> builds a table in which every selector that it loads lies within the
  limit of the table and selects what it is meant for: a present 64-bit code segment and a present
  writable data segment of ring 0, and an available task state segment whose base is the address of
  the zeroed task state segment. The user segments are of ring 0 too, and the granularity bit makes
  the limit of the task state segment 430,079 bytes instead of 103.\<close>

theorem gdt_init_correct:
  assumes "gdt_init tss_base gdt_addr st = (g, cpu)"
  shows "gdtr cpu = gdt_pointer g \<and> base (gdtr cpu) = gdt_addr \<and> tss g = zero_TSS \<and>
    (\<forall>selector \<in> {cs cpu, ds cpu, es cpu, fs cpu, gs cpu, ss cpu, tr cpu}.
       unat selector + 7 \<le> unat (limit (gdtr cpu)) \<and>
       present (selected (gdt g) selector) \<and> privilege_level (selected (gdt g) selector) = 0) \<and>
    code64 (selected (gdt g) (cs cpu)) \<and>
    (\<forall>selector \<in> {ds cpu, es cpu, fs cpu, gs cpu, ss cpu}. writable_data (selected (gdt g) selector)) \<and>
    available_tss (selected (gdt g) (tr cpu)) \<and>
    system_base (selected (gdt g) (tr cpu)) (selected (gdt g) (tr cpu + 8)) = tss_base \<and>
    segment_limit (selected (gdt g) (tr cpu)) = 430079 \<and>
    code64 (user_code (gdt g)) \<and> privilege_level (user_code (gdt g)) = 0 \<and>
    writable_data (user_data (gdt g)) \<and> privilege_level (user_data (gdt g)) = 0"
proof -
  have entry: "selected t 0x08 = kernel_code t" "selected t 0x10 = kernel_data t"
    "selected t 0x40 = tss_low t" "selected t 0x48 = tss_high t" for t
    by (simp_all add: selected_def gdt_entries_def)
  have code: "present (descriptor 0x9A 0xA0)" "privilege_level (descriptor 0x9A 0xA0) = 0"
    "code64 (descriptor 0x9A 0xA0)" and data: "present (descriptor 0x92 0xA0)"
    "privilege_level (descriptor 0x92 0xA0) = 0" "writable_data (descriptor 0x92 0xA0)"
    by code_simp+
  have tss: "present s" "privilege_level s = 0" "available_tss s" if "seg_type s = 0x89" for s
    using that by (simp_all add: present_def privilege_level_def available_tss_def)
  have tss_limit: "segment_limit s = 430079" if "limit_15_0 s = 104" "limit_19_16_and_flags s = 0xA0" for s
    using that by (simp add: segment_limit_def)
  have types: "seg_type (descriptor t f) = t" "limit_19_16_and_flags (descriptor t f) = f" for t f
    by (simp_all add: descriptor_def)
  have "cpu = load_gdt_and_tss_asm (gdt_pointer g) (snd st)" "gdt_pointer g = \<lparr>limit = 79, base = gdt_addr\<rparr>"
    "tss g = zero_TSS"
    using assms by (auto simp: gdt_init_def Let_def sizeof_GDT_def split: prod.splits)
  moreover have "kernel_code (gdt g) = descriptor 0x9A 0xA0" "user_code (gdt g) = descriptor 0x9A 0xA0"
    "kernel_data (gdt g) = descriptor 0x92 0xA0" "user_data (gdt g) = descriptor 0x92 0xA0"
    "seg_type (tss_low (gdt g)) = 0x89" "limit_19_16_and_flags (tss_low (gdt g)) = 0xA0"
    "limit_15_0 (tss_low (gdt g)) = 104"
    using assms by (auto simp: gdt_init_def Let_def create_descriptors_def types sizeof_TSS_def split: prod.splits)
  moreover have "system_base (tss_low (gdt g)) (tss_high (gdt g)) = tss_base"
    using assms split_base [of tss_base]
    by (auto simp: gdt_init_def Let_def system_base_def split: prod.splits)
  ultimately show ?thesis
    by (simp add: load_gdt_and_tss_asm_def entry code data tss tss_limit)
qed

definition boot_segments :: "gdt_state \<times> segments" where
  "boot_segments = (\<lparr>tss = zero_TSS,
      gdt = \<lparr>null = descriptor 0 0, kernel_code = descriptor 0 0, kernel_data = descriptor 0 0,
        null2 = descriptor 0 0, user_data = descriptor 0 0, user_code = descriptor 0 0,
        ovmf_data = descriptor 0 0, ovmf_code = descriptor 0 0, tss_low = descriptor 0 0,
        tss_high = descriptor 0 0\<rparr>,
      gdt_pointer = \<lparr>limit = 0, base = 0\<rparr>\<rparr>,
    \<lparr>gdtr = \<lparr>limit = 0, base = 0\<rparr>, tr = 0, cs = 0, ds = 0, es = 0, fs = 0, gs = 0, ss = 0\<rparr>)"

theorem gdt_init_correct_witness:
  "base (gdtr (snd (gdt_init 0xFFFFFFFF80201234 0xFFFFFFFF80200000 boot_segments))) = 0xFFFFFFFF80200000"
  using gdt_init_correct [OF prod.collapse [symmetric],
      of "0xFFFFFFFF80201234" "0xFFFFFFFF80200000" boot_segments] by blast

end
