(* ===== verification/Idt.thy ===== *)
theory Idt
  imports Pic
begin

text \<open>
  \<open>interrupts/idt\<close>: the interrupt descriptor table. \<open>names\<close> is the memory at
  \<open>_isr_names_asm\<close> as an array of words: the assembly file defines the addresses of the 48
  stubs there, and a read past them returns whatever the linker put after the table. The address of
  the static table is a parameter.
\<close>

section \<open>Tables\<close>

record IDT_Descriptor =
  offset_15_0 :: u16
  selector :: u16
  ist :: u8
  type_and_attributes :: u8
  offset_31_16 :: u16
  offset_63_32 :: u32
  zero :: u32

record IDT_Pointer =
  idt_limit :: u16
  idt_base :: u64

definition zero_gate :: IDT_Descriptor where
  "zero_gate = \<lparr>offset_15_0 = 0, selector = 0, ist = 0, type_and_attributes = 0, offset_31_16 = 0,
     offset_63_32 = 0, zero = 0\<rparr>"

text \<open>The static table, and the interrupt state of the processor: the table register and the
  interrupt flag.\<close>

record idt_state =
  idt :: "IDT_Descriptor list"
  idtr :: IDT_Pointer
  interrupts_enabled :: bool

section \<open>Operations\<close>

definition create_descriptor :: "(nat \<Rightarrow> u64) \<Rightarrow> u8 \<Rightarrow> u8 \<Rightarrow> IDT_Descriptor list \<Rightarrow> IDT_Descriptor list" where
  "create_descriptor names index type_attr table =
     (let offset = names (unat index)
      in table[unat index := \<lparr>
           offset_15_0 = ucast (offset AND 0xFFFF),
           selector = 0x08,
           ist = 0,
           type_and_attributes = type_attr,
           offset_31_16 = ucast (drop_bit 16 offset AND 0xFFFF),
           offset_63_32 = ucast (drop_bit 32 offset AND 0xFFFFFFFF),
           zero = 0\<rparr>])"

definition load_idt_asm :: "IDT_Pointer \<Rightarrow> idt_state \<Rightarrow> idt_state" where
  "load_idt_asm ptr st = st\<lparr>idtr := ptr, interrupts_enabled := True\<rparr>"

text \<open>The gates that \<open>idt_init\<close> creates before and after it remaps the interrupt
  controllers, one call each.\<close>

definition exception_gates :: "u8 list" where
  "exception_gates = map of_nat [0..<32]"

definition irq_gates :: "u8 list" where
  "irq_gates = map of_nat [32..<48] @ [255]"

definition idt_init ::
    "(nat \<Rightarrow> u64) \<Rightarrow> u64 \<Rightarrow> 'd bus \<Rightarrow> idt_state \<times> 'd \<Rightarrow> (idt_state \<times> 'd) option" where
  "idt_init names idt_addr bus st = do {
     let (s, d) = st;
     let table = fold (\<lambda>i. create_descriptor names i 0x8E) exception_gates (idt s);
     let d = snd (run_state (pic_remap bus) d);
     let table = fold (\<lambda>i. create_descriptor names i 0x8E) irq_gates table;
     d \<leftarrow> pic_set_mask bus 1 d;
     let ptr = \<lparr>idt_limit = of_nat (256 * 16 - 1), idt_base = idt_addr\<rparr>;
     Some (load_idt_asm ptr (s\<lparr>idt := table\<rparr>), d)
   }"

section \<open>How the processor reads a gate\<close>

definition gate_offset :: "IDT_Descriptor \<Rightarrow> u64" where
  "gate_offset g =
     ucast (offset_15_0 g) OR push_bit 16 (ucast (offset_31_16 g)) OR push_bit 32 (ucast (offset_63_32 g))"

text \<open>The handler that a vector enters: code segment, address; \<open>None\<close> if the gate is not
  present or not an interrupt gate. The processor reads the 16 bytes at 16 times the vector if the
  limit allows it.\<close>

definition gate_target :: "idt_state \<Rightarrow> nat \<Rightarrow> (u16 \<times> u64) option" where
  "gate_target st v =
     (let g = idt st ! v
      in if 16 * v + 15 \<le> unat (idt_limit (idtr st)) \<and> bit (type_and_attributes g) 7 \<and>
            type_and_attributes g AND 0x1F = 0x0E
         then Some (selector g, gate_offset g) else None)"

lemma split_offset:
  "(ucast (ucast (w AND 0xFFFF) :: u16) :: u64) OR push_bit 16 (ucast (ucast (drop_bit 16 w AND 0xFFFF) :: u16)) OR
     push_bit 32 (ucast (ucast (drop_bit 32 w AND 0xFFFFFFFF) :: u32)) = (w :: u64)"
proof -
  have masks: "v AND 0xFFFF = take_bit 16 v" "v AND 0xFFFFFFFF = take_bit 32 v" for v :: u64
    by (simp_all add: take_bit_eq_mask mask_eq_exp_minus_1)
  show ?thesis (is "?v = w")
  proof (rule bit_word_eqI)
    fix n
    assume "n < LENGTH(64)"
    then show "bit ?v n = bit w n"
      unfolding masks by (cases "n < 32"; cases "n < 16") (auto simp: bit_simps)
  qed
qed

definition gate :: "(nat \<Rightarrow> u64) \<Rightarrow> u8 \<Rightarrow> IDT_Descriptor" where
  "gate names i = create_descriptor names i 0x8E (replicate 256 zero_gate) ! unat i"

lemma u8_less: "unat (i :: u8) < 256"
  using unsigned_less [of i] by simp

lemma gate_correct:
  "gate_offset (gate names i) = names (unat i)" "selector (gate names i) = 0x08"
  "type_and_attributes (gate names i) = 0x8E"
proof -
  note less = u8_less [of i]
  show "gate_offset (gate names i) = names (unat i)" "selector (gate names i) = 0x08"
    "type_and_attributes (gate names i) = 0x8E"
    by (simp_all only: gate_def create_descriptor_def Let_def nth_list_update_eq length_replicate gate_offset_def less)
      (simp_all add: split_offset)
qed

lemma create_descriptor_gate:
  "length table = 256 \<Longrightarrow> create_descriptor names i 0x8E table = table[unat i := gate names i]"
  using u8_less [of i] by (simp add: gate_def create_descriptor_def Let_def)

lemma create_all:
  "length table = 256 \<Longrightarrow>
    length (fold (\<lambda>i. create_descriptor names i 0x8E) gates table) = 256 \<and>
    (\<forall>v < 256. fold (\<lambda>i. create_descriptor names i 0x8E) gates table ! v =
      (if of_nat v \<in> set gates then gate names (of_nat v) else table ! v))"
proof (induction gates arbitrary: table)
  case (Cons i gates)
  have len: "length (create_descriptor names i 0x8E table) = 256"
    by (simp add: create_descriptor_gate Cons.prems)
  have "create_descriptor names i 0x8E table ! v = (if of_nat v = i then gate names i else table ! v)"
    if "v < 256" for v
  proof -
    have "unat i = v \<longleftrightarrow> of_nat v = i" using that by (auto simp: unat_of_nat)
    then show ?thesis
      using that Cons.prems u8_less [of i] by (simp add: create_descriptor_gate nth_list_update)
  qed
  with Cons.IH [OF len] show ?case by auto
qed simp

lemma unat_small: "v < 256 \<Longrightarrow> unat (of_nat v :: u8) = v"
  by (simp add: unat_of_nat)

lemma of_nat_mem:
  "v < 256 \<Longrightarrow> m \<le> n \<Longrightarrow> n \<le> 256 \<Longrightarrow> (of_nat v :: u8) \<in> of_nat ` {m..<n} \<longleftrightarrow> m \<le> v \<and> v < n"
proof
  assume "v < 256" "n \<le> 256" "(of_nat v :: u8) \<in> of_nat ` {m..<n}"
  then obtain j where j: "(of_nat v :: u8) = of_nat j" "m \<le> j" "j < n" by auto
  have "j < 256" using j(3) \<open>n \<le> 256\<close> by linarith
  then have "v = j" using unat_small [OF \<open>v < 256\<close>] unat_small j(1) by metis
  with j show "m \<le> v \<and> v < n" by simp
qed auto

lemma gates_mem:
  assumes "v < 256"
  shows "(of_nat v :: u8) \<in> set exception_gates \<longleftrightarrow> v < 32"
    and "(of_nat v :: u8) \<in> set irq_gates \<longleftrightarrow> 32 \<le> v \<and> v < 48 \<or> v = 255"
proof -
  have "(of_nat v :: u8) = 255 \<longleftrightarrow> v = 255"
    using unat_small [OF assms] by auto
  then show "(of_nat v :: u8) \<in> set exception_gates \<longleftrightarrow> v < 32"
    "(of_nat v :: u8) \<in> set irq_gates \<longleftrightarrow> 32 \<le> v \<and> v < 48 \<or> v = 255"
    using of_nat_mem [OF assms, of 0 32] of_nat_mem [OF assms, of 32 48]
    unfolding exception_gates_def irq_gates_def set_append set_map set_upt by auto
qed

text \<open>The table does not depend on the controllers behind the bus.\<close>

lemma idt_init_table:
  assumes "idt s = replicate 256 zero_gate"
  obtains s' d' where "idt_init names idt_addr bus (s, d) = Some (s', d')"
    "pic_set_mask bus 1 (snd (run_state (pic_remap bus) d)) = Some d'"
    "idt_base (idtr s') = idt_addr" "interrupts_enabled s'"
    "\<And>v. v < 256 \<Longrightarrow> gate_target s' v = (if v < 48 \<or> v = 255 then Some (0x08, names v) else None)"
proof -
  let ?d = "snd (run_state (pic_remap bus) d)"
  obtain d' where d': "pic_set_mask bus 1 ?d = Some d'" by (simp add: pic_set_mask_def line_port_def)
  define table where "table = fold (\<lambda>i. create_descriptor names i 0x8E) irq_gates
    (fold (\<lambda>i. create_descriptor names i 0x8E) exception_gates (idt s))"
  have "length (idt s) = 256" by (simp add: assms)
  from create_all [OF conjunct1 [OF create_all [OF this]]] create_all [OF this]
  have table: "table ! v = (if v < 48 \<or> v = 255 then gate names (of_nat v) else zero_gate)" if "v < 256" for v
    using that gates_mem [OF that] by (auto simp: table_def assms)
  define s' where "s' = load_idt_asm \<lparr>idt_limit = of_nat (256 * 16 - 1), idt_base = idt_addr\<rparr> (s\<lparr>idt := table\<rparr>)"
  show thesis
  proof
    show "idt_init names idt_addr bus (s, d) = Some (s', d')"
      using d' by (simp add: idt_init_def table_def [symmetric] s'_def)
    show "pic_set_mask bus 1 ?d = Some d'" by (rule d')
    show "idt_base (idtr s') = idt_addr" "interrupts_enabled s'" by (simp_all add: s'_def load_idt_asm_def)
    fix v :: nat
    assume "v < 256"
    moreover from this have "unat (of_nat v :: u8) = v" by (simp add: unat_of_nat)
    moreover have "bit (type_and_attributes zero_gate) 7 = False" by (simp add: zero_gate_def)
    ultimately show "gate_target s' v = (if v < 48 \<or> v = 255 then Some (0x08, names v) else None)"
      by (simp add: gate_target_def s'_def load_idt_asm_def table gate_correct Let_def)
  qed
qed

section \<open>Properties\<close>



end
