(* ===== verification/Start_Up.thy ===== *)
theory Start_Up
  imports Apic Boot_Screen Vmm_Space Gdt Idt
begin

text \<open>
  \<open>kernel.c\<close>: the start of the kernel, from the boot loader to the idle loop. \<open>kmain\<close> composes the
  initialisations of the other theories on the state of the whole kernel. As in those theories, the log output of the memory
  managers and of the table search is left out; that of \<open>kmain\<close> itself and of \<open>apic_init\<close> is not. Interrupts, which are enabled
  from \<open>idt_init\<close> on, are not taken.
\<close>

section \<open>The platform and the state\<close>

text \<open>
  What the kernel finds: the devices, the processor, the translation of the boot loader, the boot loader's tags
  and the contents of two of them, and what the linker supplies: the font, the names of two files, the addresses of tables, stubs and
  strings.
\<close>

record ('d, 'm) platform =
  pf_bus :: "'d bus"
  pf_mmio :: "'m mmio"
  pf_cpuid :: cpuid_insn
  pf_ecx :: u32
  pf_cr4 :: u64
  pf_translation :: "u64 \<Rightarrow> u64"
  pf_tags :: "u64 \<Rightarrow> stivale2_tag option"
  pf_framebuffer :: "u64 \<Rightarrow> stivale2_struct_tag_framebuffer"
  pf_memmap :: "u64 \<Rightarrow> stivale2_mmap_entry list"
  pf_font :: font
  pf_kernel_c :: string
  pf_apic_c :: string
  pf_tss :: u64
  pf_gdt :: u64
  pf_idt :: u64
  pf_stubs :: "nat \<Rightarrow> u64"
  pf_RSDT :: u64
  pf_APIC :: u64

record ('d, 'm) kernel =
  k_buffers :: log_buffers
  k_devices :: 'd
  k_screen :: fb_state
  k_vmm :: vmm_state
  k_segments :: "gdt_state \<times> segments"
  k_idt :: idt_state
  k_slab :: slab_state
  k_acpi :: acpi_state
  k_mmio :: 'm
  k_lapic_base :: u64

text \<open>Output to the serial port and to the screen.\<close>

definition via_serial ::
    "(log_buffers \<times> 'd \<Rightarrow> (log_buffers \<times> 'd) option) \<Rightarrow> ('d, 'm) kernel \<Rightarrow> ('d, 'm) kernel option" where
  "via_serial f st = map_option (\<lambda>(b, d). st\<lparr>k_buffers := b, k_devices := d\<rparr>) (f (k_buffers st, k_devices st))"

definition via_screen ::
    "(log_buffers \<times> fb_state \<Rightarrow> (log_buffers \<times> fb_state) option) \<Rightarrow> ('d, 'm) kernel \<Rightarrow> ('d, 'm) kernel option" where
  "via_screen f st = map_option (\<lambda>(b, s). st\<lparr>k_buffers := b, k_screen := s\<rparr>) (f (k_buffers st, k_screen st))"

text \<open>A message in the log, on the port from line \<open>line\<close> and on the screen from the next.\<close>

definition log_info :: "('d, 'm) platform \<Rightarrow> u64 \<Rightarrow> string \<Rightarrow> va_arg list \<Rightarrow> ('d, 'm) kernel \<Rightarrow> ('d, 'm) kernel option" where
  "log_info p line fmt va st = do {
     st \<leftarrow> via_serial (serial_log_impl (pf_bus p) (pf_kernel_c p) line INFO fmt va) st;
     via_screen (kernel_log_impl framebuffer_print_string (pf_kernel_c p) (line + 1) INFO fmt va) st
   }"

section \<open>The stages of the start\<close>

definition welcome_msg :: string where "welcome_msg = ''Welcome to:'' @ NL"
definition console_msg :: string where "console_msg = ''Framebuffer and serial initialized'' @ NL"
definition started_msg :: string where "started_msg = ''Kernel started'' @ NL"

definition console_init :: "('d, 'm) platform \<Rightarrow> u64 \<Rightarrow> ('d, 'm) kernel \<Rightarrow> ('d, 'm) kernel option" where
  "console_init p first_tag st = do {
     s \<leftarrow> framebuffer_init (pf_font p) (pf_tags p) (pf_framebuffer p) first_tag GFX_BLACK (k_screen st);
     let d = snd (run_state (serial_init (pf_bus p)) (k_devices st));
     let st = st\<lparr>k_screen := s, k_devices := d\<rparr>;
     st \<leftarrow> log_info p 44 console_msg [] st;
     st \<leftarrow> via_serial (serial_color (pf_bus p) TERM_BLUE) st;
     st \<leftarrow> via_serial (debug (pf_bus p) welcome_msg []) st;
     st \<leftarrow> via_serial (debug (pf_bus p) ''%s'' [Va_Str small_logo_text]) st;
     st \<leftarrow> via_serial (serial_color (pf_bus p) TERM_COLOR_RESET) st;
     log_info p 52 started_msg [] st
   }"

text \<open>Memory and descriptor tables. The page allocator is shared by the page tables, the slabs and, later, the heap.\<close>

definition memory_init :: "('d, 'm) platform \<Rightarrow> u64 \<Rightarrow> ('d, 'm) kernel \<Rightarrow> ('d, 'm) kernel option" where
  "memory_init p first_tag st = do {
     tag \<leftarrow> stivale2_get_tag (pf_tags p) first_tag STIVALE2_STRUCT_TAG_MEMMAP_ID;
     if tag = NULL then None
     else do {
       pm \<leftarrow> pmm_init (pf_cr4 p) (v_pmm (k_vmm st)) (pf_memmap p tag);
       v \<leftarrow> vmm_init (pf_translation p) (pf_cr4 p) ((k_vmm st)\<lparr>v_pmm := pm\<rparr>);
       let g = gdt_init (pf_tss p) (pf_gdt p) (k_segments st);
       (i, d) \<leftarrow> idt_init (pf_stubs p) (pf_idt p) (pf_bus p) (k_idt st, k_devices st);
       (pm, ss) \<leftarrow> slab_init (pf_cr4 p) (v_pmm v, k_slab st);
       Some (st\<lparr>k_vmm := v\<lparr>v_pmm := pm\<rparr>, k_segments := g, k_idt := i, k_devices := d, k_slab := ss\<rparr>)
     }
   }"

text \<open>
  The memory at virtual addresses, through the tables that \<open>cr3\<close> points to. An access to an address that is not translated
  faults; the value 0 stands for it. From here on memory is this view, in which the
  aliases of a page are addresses of their own.
\<close>

definition seen :: "u64 \<Rightarrow> vmm_state \<Rightarrow> u64 \<Rightarrow> u8" where
  "seen cr4 v a =
     (case page_walk (v_mem v) (levels cr4) (v_cr3 v) a of
        None \<Rightarrow> 0
      | Some q \<Rightarrow> v_mem v (q + (a AND 0xFFF)))"

definition vendor_format :: string where "vendor_format = ''CPU Vendor ID String: %s'' @ NL"

definition vendor_init :: "('d, 'm) platform \<Rightarrow> ('d, 'm) kernel \<Rightarrow> ('d, 'm) kernel option" where
  "vendor_init p st = do {
     (vendor_string, ss, mem) \<leftarrow> cpu_get_vendor_string (pf_cpuid p) (pf_ecx p) (k_slab st, seen (pf_cr4 p) (k_vmm st));
     let st = st\<lparr>k_slab := ss, k_acpi := (k_acpi st)\<lparr>a_mem := mem\<rparr>\<rparr>;
     log_info p 63 vendor_format [Va_Str (c_string (chars_at mem vendor_string 16))] st
   }"

definition firmware_init :: "('d, 'm) platform \<Rightarrow> u64 \<Rightarrow> ('d, 'm) kernel \<Rightarrow> ('d, 'm) kernel outcome option" where
  "firmware_init p first_tag st = do {
     let a = (k_acpi st)\<lparr>a_heap := (a_heap (k_acpi st))\<lparr>h_pmm := v_pmm (k_vmm st), h_slab := k_slab st\<rparr>\<rparr>;
     r \<leftarrow> acpi_init (pf_cr4 p) (pf_RSDT p) (pf_APIC p) (pf_tags p) first_tag a;
     case r of
       Halted \<Rightarrow> Some Halted
     | Running a \<Rightarrow> do {
         r \<leftarrow> apic_init (pf_apic_c p) (pf_bus p) framebuffer_print_string (pf_mmio p) (pf_cpuid p) (pf_ecx p) (pf_cr4 p) a
           \<lparr>ap_buffers = k_buffers st, ap_devices = k_devices st, ap_screen = k_screen st, ap_mmio = k_mmio st,
            lapic_base = k_lapic_base st\<rparr>;
         case r of
           Stopped m \<Rightarrow> Some Halted
         | Ready m \<Rightarrow> Some (Running
             (st\<lparr>k_acpi := a, k_slab := h_slab (a_heap a), k_vmm := (k_vmm st)\<lparr>v_pmm := h_pmm (a_heap a)\<rparr>,
                k_buffers := ap_buffers m, k_devices := ap_devices m, k_screen := ap_screen m, k_mmio := ap_mmio m,
                k_lapic_base := lapic_base m\<rparr>))
       }
   }"

text \<open>\<open>Running\<close> is the state in which the processor waits for interrupts for ever.\<close>

definition kmain :: "('d, 'm) platform \<Rightarrow> u64 \<Rightarrow> ('d, 'm) kernel \<Rightarrow> ('d, 'm) kernel outcome option" where
  "kmain p first_tag st = do {
     st \<leftarrow> console_init p first_tag st;
     st \<leftarrow> memory_init p first_tag st;
     st \<leftarrow> vendor_init p st;
     firmware_init p first_tag st
   }"

section \<open>Output\<close>

definition console_ok :: "('d, 'm) kernel \<Rightarrow> bool" where
  "console_ok st \<longleftrightarrow> buffers_ok (k_buffers st) \<and> fb_ok (k_screen st)"

text \<open>A step of the start that only prints: it returns, sends \<open>t\<close>, and changes nothing but the console.\<close>

definition prints :: "('d \<Rightarrow> u8 list) \<Rightarrow> string \<Rightarrow> (('d, 'm) kernel \<Rightarrow> ('d, 'm) kernel option) \<Rightarrow> bool" where
  "prints sent t f \<longleftrightarrow>
     (\<forall>st. console_ok st \<longrightarrow>
       (\<exists>b d s. f st = Some (st\<lparr>k_buffers := b, k_devices := d, k_screen := s\<rparr>) \<and>
          console_ok (st\<lparr>k_buffers := b, k_devices := d, k_screen := s\<rparr>) \<and> sent d = sent (k_devices st) @ bytes t))"

lemma printsE:
  assumes "prints sent t f" "console_ok st"
  obtains b d s where "f st = Some (st\<lparr>k_buffers := b, k_devices := d, k_screen := s\<rparr>)"
    "console_ok (st\<lparr>k_buffers := b, k_devices := d, k_screen := s\<rparr>)" "sent d = sent (k_devices st) @ bytes t"
  using assms unfolding prints_def by blast

lemma prints_bind:
  assumes "prints sent t f" "prints sent u g"
  shows "prints sent (t @ u) (\<lambda>st. Option.bind (f st) g)"
  unfolding prints_def
proof (intro allI impI)
  fix st :: "('a, 'b) kernel"
  assume "console_ok st"
  then obtain b d s where 1: "f st = Some (st\<lparr>k_buffers := b, k_devices := d, k_screen := s\<rparr>)"
    "console_ok (st\<lparr>k_buffers := b, k_devices := d, k_screen := s\<rparr>)" "sent d = sent (k_devices st) @ bytes t"
    by (rule printsE [OF assms(1)])
  obtain b' d' s' where 2: "g (st\<lparr>k_buffers := b, k_devices := d, k_screen := s\<rparr>) =
      Some (st\<lparr>k_buffers := b', k_devices := d', k_screen := s'\<rparr>)"
    "console_ok (st\<lparr>k_buffers := b', k_devices := d', k_screen := s'\<rparr>)" "sent d' = sent d @ bytes u"
    by (rule printsE [OF assms(2) 1(2)]) simp
  show "\<exists>b d s. Option.bind (f st) g = Some (st\<lparr>k_buffers := b, k_devices := d, k_screen := s\<rparr>) \<and>
      console_ok (st\<lparr>k_buffers := b, k_devices := d, k_screen := s\<rparr>) \<and> sent d = sent (k_devices st) @ bytes (t @ u)"
    using 1 2 by (intro exI [of _ b'] exI [of _ d'] exI [of _ s']) simp
qed

lemma via_serial_prints:
  assumes "sends sent t f"
  shows "prints sent t (via_serial f)"
  unfolding prints_def
proof (intro allI impI)
  fix st :: "('a, 'b) kernel"
  assume ok: "console_ok st"
  then obtain b d where "f (k_buffers st, k_devices st) = Some (b, d)" "buffers_ok b" "sent d = sent (k_devices st) @ bytes t"
    using assms unfolding sends_def console_ok_def by blast
  with ok show "\<exists>b d s. via_serial f st = Some (st\<lparr>k_buffers := b, k_devices := d, k_screen := s\<rparr>) \<and>
      console_ok (st\<lparr>k_buffers := b, k_devices := d, k_screen := s\<rparr>) \<and> sent d = sent (k_devices st) @ bytes t"
    by (intro exI [of _ b] exI [of _ d] exI [of _ "k_screen st"]) (simp add: via_serial_def console_ok_def)
qed

lemma via_screen_prints:
  assumes "keeps fb_ok f"
  shows "prints sent [] (via_screen f)"
  unfolding prints_def
proof (intro allI impI)
  fix st :: "('a, 'b) kernel"
  assume ok: "console_ok st"
  then obtain b s where "f (k_buffers st, k_screen st) = Some (b, s)" "buffers_ok b" "fb_ok s"
    using assms unfolding keeps_def console_ok_def by blast
  with ok show "\<exists>b d s. via_screen f st = Some (st\<lparr>k_buffers := b, k_devices := d, k_screen := s\<rparr>) \<and>
      console_ok (st\<lparr>k_buffers := b, k_devices := d, k_screen := s\<rparr>) \<and> sent d = sent (k_devices st) @ bytes []"
    by (intro exI [of _ b] exI [of _ "k_devices st"] exI [of _ s]) (simp add: via_screen_def console_ok_def)
qed


section \<open>The log of the start\<close>

text \<open>A name of a source file, as \<open>__FILE_NAME__\<close> gives it.\<close>

definition file_name :: "string \<Rightarrow> bool" where
  "file_name t \<longleftrightarrow> NUL \<notin> set t \<and> displayable t \<and> length t < 4000"

definition log_text :: "string \<Rightarrow> u64 \<Rightarrow> string \<Rightarrow> string" where
  "log_text description line_nr msg =
     status_color INFO @ status_tag INFO @ log_line description line_nr msg @ TERM_COLOR_RESET"

lemma log_info_prints:
  assumes "drains (pf_bus p) busy sent" "file_name (pf_kernel_c p)" "format_text fmt va = Some msg"
    and "NUL \<notin> set msg" "displayable msg" "length msg < 1000"
    and "to_int32 line \<noteq> - (2 ^ 31)" "to_int32 (line + 1) \<noteq> - (2 ^ 31)"
    and "length (signed_text (to_int32 line)) < 12" "length (signed_text (to_int32 (line + 1))) < 12"
  shows "prints sent (log_text (pf_kernel_c p) line msg) (log_info p line fmt va)"
proof -
  let ?n = "pf_kernel_c p"
  have len: "length (status_tag INFO) = 12" "length arrow = 6" by (simp_all add: status_tag_def arrow_def)
  have name: "NUL \<notin> set ?n" "displayable ?n" "length ?n < 4000" using assms(2) by (simp_all add: file_name_def)
  have lines: "length (log_line ?n line msg) < 5120" "length (status_tag INFO @ log_line ?n (line + 1) msg) < 5120"
    using assms(6,9,10) name(3) len by (simp_all add: log_line_def)
  note ser = via_serial_prints [OF serial_log_sends [OF assms(1,3,4) name(1) assms(7) lines(1)], of INFO, folded log_text_def]
  note scr = via_screen_prints [OF fbs.kernel_log_keeps [OF assms(3,4) name(1) assms(8) lines(2) log_line_displayable [OF name(2) assms(5)]]]
  show ?thesis
    unfolding log_info_def [abs_def] using prints_bind [OF ser scr] by (simp only: append_Nil2)
qed

definition greeting :: "string \<Rightarrow> string" where
  "greeting description = log_text description 44 console_msg @ TERM_BLUE @ welcome_msg @ small_logo_text @ TERM_COLOR_RESET @
     log_text description 52 started_msg"

lemma start_messages:
  "literal console_msg" "literal started_msg" "literal welcome_msg"
  "displayable console_msg" "displayable started_msg"
  "length console_msg < 1000" "length started_msg < 1000" "length welcome_msg < 5120"
  "\<forall>n \<in> set [44, 45, 52, 53, 63, 64 :: u64]. to_int32 n \<noteq> - (2 ^ 31) \<and> length (signed_text (to_int32 n)) < 12"
  by (code_simp)+

lemma greeting_prints:
  assumes "drains (pf_bus p) busy sent" "file_name (pf_kernel_c p)"
  shows "prints sent (greeting (pf_kernel_c p))
    (\<lambda>st. Option.bind (log_info p 44 console_msg [] st) (\<lambda>st.
       Option.bind (via_serial (serial_color (pf_bus p) TERM_BLUE) st) (\<lambda>st.
       Option.bind (via_serial (debug (pf_bus p) welcome_msg []) st) (\<lambda>st.
       Option.bind (via_serial (debug (pf_bus p) ''%s'' [Va_Str small_logo_text]) st) (\<lambda>st.
       Option.bind (via_serial (serial_color (pf_bus p) TERM_COLOR_RESET) st)
         (log_info p 52 started_msg []))))))"
proof -
  have nrs: "to_int32 44 \<noteq> - (2 ^ 31)" "to_int32 (44 + 1) \<noteq> - (2 ^ 31)" "length (signed_text (to_int32 44)) < 12"
    "length (signed_text (to_int32 (44 + 1))) < 12" "to_int32 52 \<noteq> - (2 ^ 31)" "to_int32 (52 + 1) \<noteq> - (2 ^ 31)"
    "length (signed_text (to_int32 52)) < 12" "length (signed_text (to_int32 (52 + 1))) < 12"
    using start_messages(9) by simp_all
  note con = literal_text(2,3) [OF start_messages(1)] note sta = literal_text(2,3) [OF start_messages(2)]
  note wel = literal_text(2,3) [OF start_messages(3)]
  have nul: "NUL \<notin> set small_logo_text" using logo_texts(2) by (rule literal_text(3))
  have logo: "format_text ''%s'' [Va_Str small_logo_text] = Some small_logo_text" "length small_logo_text < 5120"
    using format_string [OF nul, of "[]" "[]"] by (simp_all add: logo_lengths)
  obtain r1 where blue: "TERM_BLUE = char_of (27 :: nat) # CHR ''['' # r1" by (simp add: TERM_BLUE_def)
  obtain r2 where reset: "TERM_COLOR_RESET = char_of (27 :: nat) # CHR ''['' # r2" by (simp add: TERM_COLOR_RESET_def)
  note d = assms(1)
  show ?thesis
    unfolding greeting_def
    by (intro prints_bind via_serial_prints color_sends [OF d blue] color_sends [OF d reset] debug_sends [OF d wel start_messages(8)]
        debug_sends [OF d logo(1) nul logo(2)] log_info_prints [OF assms con start_messages(4,6) nrs(1-4)]
        log_info_prints [OF assms sta start_messages(5,7) nrs(5-8)])
qed

section \<open>The framebuffer of the boot loader\<close>

definition framebuffer_given :: "('d, 'm) platform \<Rightarrow> u64 \<Rightarrow> fb_state \<Rightarrow> bool" where
  "framebuffer_given p first_tag s \<longleftrightarrow>
     (case stivale2_get_tag (pf_tags p) first_tag STIVALE2_STRUCT_TAG_FRAMEBUFFER_ID of
        None \<Rightarrow> False
      | Some tag \<Rightarrow>
          (let i = pf_framebuffer p tag; w = uint (framebuffer_width i); h = uint (framebuffer_height i);
               pitch = uint (framebuffer_pitch i)
           in tag \<noteq> NULL \<and> pitch mod 4 = 0 \<and> 8 \<le> w \<and> w < 32000 \<and> 16 \<le> h \<and> h < 32000 \<and> 4 * w \<le> pitch \<and>
              int (length (pixels s)) = h * (pitch div 4)))"

lemma console_init_prints:
  assumes "drains (pf_bus p) busy sent" "file_name (pf_kernel_c p)"
    and "framebuffer_given p first_tag (k_screen st)" "buffers_ok (k_buffers st)"
  shows "\<exists>b d s. console_init p first_tag st = Some (st\<lparr>k_buffers := b, k_devices := d, k_screen := s\<rparr>) \<and>
    console_ok (st\<lparr>k_buffers := b, k_devices := d, k_screen := s\<rparr>) \<and>
    sent d = sent (snd (run_state (serial_init (pf_bus p)) (k_devices st))) @ bytes (greeting (pf_kernel_c p))"
proof -
  obtain tag where "stivale2_get_tag (pf_tags p) first_tag STIVALE2_STRUCT_TAG_FRAMEBUFFER_ID = Some tag" "tag \<noteq> NULL"
    and "uint (framebuffer_pitch (pf_framebuffer p tag)) mod 4 = 0"
    and "8 \<le> uint (framebuffer_width (pf_framebuffer p tag))" "uint (framebuffer_width (pf_framebuffer p tag)) < 32000"
    and "16 \<le> uint (framebuffer_height (pf_framebuffer p tag))" "uint (framebuffer_height (pf_framebuffer p tag)) < 32000"
    and "4 * uint (framebuffer_width (pf_framebuffer p tag)) \<le> uint (framebuffer_pitch (pf_framebuffer p tag))"
    and "int (length (pixels (k_screen st))) =
      uint (framebuffer_height (pf_framebuffer p tag)) * (uint (framebuffer_pitch (pf_framebuffer p tag)) div 4)"
    using assms(3) by (auto simp: framebuffer_given_def Let_def split: option.splits)
  from framebuffer_init_ok [where ?tags = "pf_tags p" and ?info = "pf_framebuffer p" and st = "k_screen st", OF this, of "pf_font p" GFX_BLACK]
  obtain s where s: "framebuffer_init (pf_font p) (pf_tags p) (pf_framebuffer p) first_tag GFX_BLACK (k_screen st) = Some s" "fb_ok s"
    by (elim exE conjE)
  let ?d = "snd (run_state (serial_init (pf_bus p)) (k_devices st))"
  have "console_ok (st\<lparr>k_screen := s, k_devices := ?d\<rparr>)" using s(2) assms(4) by (simp add: console_ok_def)
  from greeting_prints [OF assms(1,2), unfolded prints_def, rule_format, OF this] show ?thesis
    by (simp add: console_init_def s(1) Let_def)
qed

text \<open>
  C10: the console comes up first. On a port that drains and a framebuffer of the boot loader that is large enough for
  one character, \<open>console_init\<close> returns, changes nothing but the console, leaves a well-formed screen on which
  the next line can be printed, and has sent, after what the port was programmed with, exactly the greeting: two log lines with their
  file, line and colours, and between them the welcome and the small logo in blue.
\<close>

theorem console_init_greets:
  assumes "drains (pf_bus p) busy sent" "file_name (pf_kernel_c p)"
    and "framebuffer_given p first_tag (k_screen st)" "buffers_ok (k_buffers st)"
  shows "\<exists>b d s. console_init p first_tag st = Some (st\<lparr>k_buffers := b, k_devices := d, k_screen := s\<rparr>) \<and>
    console_ok (st\<lparr>k_buffers := b, k_devices := d, k_screen := s\<rparr>) \<and>
    sent d = sent (snd (run_state (serial_init (pf_bus p)) (k_devices st))) @ bytes (greeting (pf_kernel_c p))"
  by (rule console_init_prints [OF assms])

text \<open>A machine for the witness: a slow port and a screen of two characters by three lines.\<close>

definition sample_tags :: "u64 \<Rightarrow> stivale2_tag option" where
  "sample_tags = [0xE7000 \<mapsto> \<lparr>tag_identifier = STIVALE2_STRUCT_TAG_RSDP_ID, tag_next = 0xE7100\<rparr>,
     0xE7100 \<mapsto> \<lparr>tag_identifier = STIVALE2_STRUCT_TAG_FRAMEBUFFER_ID, tag_next = 0xE7200\<rparr>,
     0xE7200 \<mapsto> \<lparr>tag_identifier = STIVALE2_STRUCT_TAG_MEMMAP_ID, tag_next = 0\<rparr>]"

definition sample_framebuffer :: stivale2_struct_tag_framebuffer where
  "sample_framebuffer = \<lparr>framebuffer_addr = 0x1000, framebuffer_width = 16, framebuffer_height = 48,
     framebuffer_pitch = 64, framebuffer_bpp = 32\<rparr>"

definition sample_platform :: "'d bus \<Rightarrow> 'm mmio \<Rightarrow> ('d, 'm) platform" where
  "sample_platform bus mmio = \<lparr>pf_bus = bus, pf_mmio = mmio, pf_cpuid = genuine_intel, pf_ecx = 0, pf_cr4 = 0,
     pf_translation = boot_tr, pf_tags = sample_tags, pf_framebuffer = (\<lambda>_. sample_framebuffer), pf_memmap = (\<lambda>_. sample_mmap),
     pf_font = the (ssfn_src screen_sample), pf_kernel_c = ''kernel.c'', pf_apic_c = ''apic.c'',
     pf_tss = 0xA3000, pf_gdt = 0xA4000, pf_idt = 0xA5000, pf_stubs = (\<lambda>v. 0xA6000 + of_nat v), pf_RSDT = 0xA0010, pf_APIC = 0xA0000\<rparr>"

definition acpi_zero :: acpi_state where
  "acpi_zero = \<lparr>a_mem = (\<lambda>_. 0), a_heap = \<lparr>h_pmm = pmm_zero, h_slab = slab_state_zero, h_meta = (\<lambda>_. \<lparr>md_size = 0\<rparr>)\<rparr>,
     rsdp = 0, has_xsdt_var = False, rsdt = 0, madt = 0, madt_lapics = 0, madt_io_apics = 0, madt_isos = 0, madt_lapic_nmis = 0,
     madt_lapics_i = 0, madt_io_apics_i = 0, madt_isos_i = 0, madt_lapic_nmis_i = 0\<rparr>"

definition sample_kernel :: "'d \<Rightarrow> 'm \<Rightarrow> (u64 \<Rightarrow> u8) \<Rightarrow> ('d, 'm) kernel" where
  "sample_kernel d m mem = \<lparr>k_buffers = boot_buffers, k_devices = d, k_screen = screen_sample,
     k_vmm = \<lparr>v_pmm = pmm_zero, v_mem = mem, v_cr3 = 0, v_tlb = [], root_page_directory = 0\<rparr>,
     k_segments = boot_segments,
     k_idt = \<lparr>idt = replicate 256 zero_gate, idtr = \<lparr>idt_limit = 0, idt_base = 0\<rparr>, interrupts_enabled = False\<rparr>,
     k_slab = slab_state_zero, k_acpi = acpi_zero, k_mmio = m, k_lapic_base = 0\<rparr>"

lemma sample_tag:
  "stivale2_get_tag sample_tags 0xE7000 STIVALE2_STRUCT_TAG_RSDP_ID = Some 0xE7000"
  "stivale2_get_tag sample_tags 0xE7000 STIVALE2_STRUCT_TAG_FRAMEBUFFER_ID = Some 0xE7100"
  "stivale2_get_tag sample_tags 0xE7000 STIVALE2_STRUCT_TAG_MEMMAP_ID = Some 0xE7200"
proof -
  have "tag_chain sample_tags 0xE7000 [0xE7000, 0xE7100, 0xE7200]" by (simp add: sample_tags_def)
  note found = get_tag_chain [OF this]
  show "stivale2_get_tag sample_tags 0xE7000 STIVALE2_STRUCT_TAG_RSDP_ID = Some 0xE7000"
    "stivale2_get_tag sample_tags 0xE7000 STIVALE2_STRUCT_TAG_FRAMEBUFFER_ID = Some 0xE7100"
    "stivale2_get_tag sample_tags 0xE7000 STIVALE2_STRUCT_TAG_MEMMAP_ID = Some 0xE7200"
    by (simp_all only: found) (simp_all add: has_tag_def sample_tags_def STIVALE2_STRUCT_TAG_RSDP_ID_def
        STIVALE2_STRUCT_TAG_FRAMEBUFFER_ID_def STIVALE2_STRUCT_TAG_MEMMAP_ID_def)
qed

lemma sample_console:
  "framebuffer_given (sample_platform bus mmio) 0xE7000 (k_screen (sample_kernel d m mem))"
  "file_name (pf_kernel_c (sample_platform bus mmio))" "buffers_ok (k_buffers (sample_kernel d m mem))"
proof -
  have "displayable ''kernel.c''" by (rule plain_displayable, code_simp)
  moreover have "NUL \<notin> set ''kernel.c''" by code_simp
  ultimately show "file_name (pf_kernel_c (sample_platform bus mmio))" by (simp add: file_name_def sample_platform_def)
  show "framebuffer_given (sample_platform bus mmio) 0xE7000 (k_screen (sample_kernel d m mem))"
    by (simp add: framebuffer_given_def sample_platform_def sample_tag sample_framebuffer_def sample_kernel_def screen_sample_def)
  show "buffers_ok (k_buffers (sample_kernel d m mem))" by (simp add: sample_kernel_def buffers_ok_def boot_buffers_def)
qed

theorem console_init_greets_witness:
  "\<exists>st'. console_init (sample_platform slow_port ram) 0xE7000 (sample_kernel (0, []) (\<lambda>_. 0) (\<lambda>_. 0)) = Some st' \<and> console_ok st' \<and>
     snd (k_devices st') = [0, 0x80, 3, 0, 3, 0xC7, 0x0B] @ bytes (greeting ''kernel.c'')"
proof -
  let ?p = "sample_platform slow_port ram" and ?st = "sample_kernel (0, []) (\<lambda>_. 0) (\<lambda>_. 0) :: (nat \<times> u8 list, u64 \<Rightarrow> u8) kernel"
  have "drains (pf_bus ?p) fst snd" by (simp add: drains_def slow_port_def sample_platform_def)
  from console_init_greets [where first_tag = "0xE7000" and st = ?st, OF this sample_console(2,1,3)]
  obtain b d s where *: "console_init ?p 0xE7000 ?st = Some (?st\<lparr>k_buffers := b, k_devices := d, k_screen := s\<rparr>)"
    "console_ok (?st\<lparr>k_buffers := b, k_devices := d, k_screen := s\<rparr>)"
    "snd d = snd (snd (run_state (serial_init (pf_bus ?p)) (k_devices ?st))) @ bytes (greeting (pf_kernel_c ?p))"
    by (elim exE conjE)
  have "snd (snd (run_state (serial_init (pf_bus ?p)) (k_devices ?st))) = [0, 0x80, 3, 0, 3, 0xC7, 0x0B]"
    by (simp add: sample_platform_def sample_kernel_def serial_init_def run_bind slow_port_def del: run_state_bind)
  moreover have "pf_kernel_c ?p = ''kernel.c''" by (simp add: sample_platform_def)
  ultimately show ?thesis using * by (intro exI [of _ "?st\<lparr>k_buffers := b, k_devices := d, k_screen := s\<rparr>"]) simp
qed

end
