(* ===== verification/Kmain.thy ===== *)
theory Kmain
  imports Start_Up
begin

text \<open>
  The start of the kernel as a whole: what each stage hands to the next, and the theorem that on a machine as the boot loader
  describes it \<open>kmain\<close> reaches its idle loop.
\<close>

section \<open>What the boot loader gives\<close>

text \<open>
  Memory: a map of less than 4 GiB whose usable pages, \<open>free\<close>, are blank and enough for the page tables
  (5137) and the slabs (6), with no page counted yet and the boot loader's translation in force.
\<close>

definition memory_given :: "('d, 'm) platform \<Rightarrow> u64 \<Rightarrow> vmm_state \<Rightarrow> nat set \<Rightarrow> bool" where
  "memory_given p first_tag v free \<longleftrightarrow>
     (case stivale2_get_tag (pf_tags p) first_tag STIVALE2_STRUCT_TAG_MEMMAP_ID of
        None \<Rightarrow> False
      | Some tag \<Rightarrow>
          (let mmap = pf_memmap p tag
           in tag \<noteq> NULL \<and> mmap_ok mmap \<and> mmap_disjoint mmap \<and> unat (find_highest mmap 0) < 2 ^ 32 \<and>
              free = usable_pages (pmm_init_map mmap) - {0} \<and> 5143 \<le> card free)) \<and>
     highest_page (v_pmm v) = 0 \<and> (\<forall>f \<in> free. \<forall>i < 512. ent v f i = 0) \<and> boot_map (pf_cr4 p) (pf_translation p)"

text \<open>
  A view \<open>mem\<close> of physical memory \<open>m\<close> through the address space of the kernel, except for the pages in \<open>free\<close>.
\<close>

definition sees :: "u64 \<Rightarrow> nat set \<Rightarrow> (u64 \<Rightarrow> u8) \<Rightarrow> (u64 \<Rightarrow> u8) \<Rightarrow> bool" where
  "sees cr4 free m mem \<longleftrightarrow>
     (\<forall>a j. kernel_page cr4 a j \<longrightarrow> j \<notin> free \<longrightarrow> mem a = m (of_nat j * PAGE_SIZE + (a AND 0xFFF)))"

text \<open>The entries of the root table at \<open>r\<close> that the root pointer at \<open>q\<close> leads to.\<close>

definition listed_tables :: "(u64 \<Rightarrow> u8) \<Rightarrow> u64 \<Rightarrow> u64 \<Rightarrow> u64 list" where
  "listed_tables mem q r = map (\<lambda>i. ucast (rsdt_entry mem r (of_nat i)))
     [0..<(unat (sdt_length mem r) - 36) div (if 2 \<le> rsdp_revision mem q then 8 else 4)]"

text \<open>
  Tables of the firmware that \<open>acpi_init\<close> accepts: right signatures and checksums, lengths that the loops over the tables can handle, and a table of the
  interrupt controllers with the records \<open>recs\<close>, of the types \<open>types\<close>, outside the free pages.
\<close>

definition firmware_ok ::
    "('d, 'm) platform \<Rightarrow> u64 \<Rightarrow> nat set \<Rightarrow> u64 list \<Rightarrow> (u64 \<Rightarrow> u8) \<Rightarrow> (u64 \<Rightarrow> u8) \<Rightarrow> bool" where
  "firmware_ok p first_tag free recs types mem \<longleftrightarrow>
     (\<exists>tag e.
        let q = load64 mem (tag + 16);
            r = phys_to_higher_half_data (pf_cr4 p) (ucast (rsdp_rsdt_address mem q));
            tbl = phys_to_higher_half_data (pf_cr4 p) e
        in stivale2_get_tag (pf_tags p) first_tag STIVALE2_STRUCT_TAG_RSDP_ID = Some tag \<and> tag \<noteq> NULL \<and>
           sum_list (bytes_at mem q 20) = 0 \<and>
           table_ok mem (pf_RSDT p) r \<and> 36 \<le> unat (sdt_length mem r) \<and> unat (sdt_length mem r) < 256 \<and>
           (\<forall>e \<in> set (listed_tables mem q r). bytes_at mem e 4 = bytes_at mem (pf_APIC p) 4 \<longrightarrow> unat (sdt_length mem e) < 256) \<and>
           find (table_ok mem (pf_APIC p)) (listed_tables mem q r) = Some e \<and> tbl \<noteq> NULL \<and>
           madt_table mem (tbl + ucast (sdt_length mem tbl)) (tbl + 44) recs) \<and>
     (\<forall>q \<in> set recs. mem q = types q) \<and>
     (\<forall>q \<in> set recs. \<forall>a \<in> {q, q + 1}. \<forall>k \<in> free. unat a div 4096 \<noteq> unat (page_ptr (pf_cr4 p) k) div 4096)"

text \<open>The identification of the processor: characters that the screen shows.\<close>

definition vendor :: "('d, 'm) platform \<Rightarrow> string" where
  "vendor p = (case pf_cpuid p 0 0 of (a, b, c, d) \<Rightarrow> reg_chars b @ reg_chars d @ reg_chars c)"

definition processor_ok :: "('d, 'm) platform \<Rightarrow> bool" where
  "processor_ok p \<longleftrightarrow> apic_is_available (pf_cpuid p) (pf_ecx p) \<and> (\<forall>c \<in> set (vendor p). c \<noteq> NUL \<and> plain c)"

text \<open>The two interrupt controllers are behind the ports of the bus.\<close>

definition has_pics :: "'d bus \<Rightarrow> ('d \<Rightarrow> pics) \<Rightarrow> bool" where
  "has_pics bus pics_of \<longleftrightarrow>
     (\<forall>port d. pics_of (snd (bus_in bus port d)) = pics_of d \<and>
        (port \<in> {0x21, 0xA1} \<longrightarrow> fst (bus_in bus port d) = fst (bus_in pics_bus port (pics_of d)))) \<and>
     (\<forall>port v d. pics_of (bus_out bus port v d) = bus_out pics_bus port v (pics_of d))"

lemma pics_remapped:
  assumes "has_pics bus pics_of"
  shows "pics_of (snd (run_state (pic_remap bus) d)) = snd (run_state (pic_remap pics_bus) (pics_of d))"
    and "pics_of (snd (run_state (pic_disable bus) d)) = snd (run_state (pic_disable pics_bus) (pics_of d))"
proof -
  have out: "pics_of (bus_out bus port v d) = bus_out pics_bus port v (pics_of d)" for port v d
    using assms by (simp add: has_pics_def)
  have inp: "fst (bus_in bus 0x21 d) = imr (master (pics_of d))" "fst (bus_in bus 0xA1 d) = imr (slave (pics_of d))"
    "pics_of (snd (bus_in bus port d)) = pics_of d" for port d
    using assms by (simp_all add: has_pics_def pics_bus_in)
  show "pics_of (snd (run_state (pic_remap bus) d)) = snd (run_state (pic_remap pics_bus) (pics_of d))"
    by (simp add: pic_remap_def ports run_bind out inp pics_bus_in split_beta del: run_state_bind)
  show "pics_of (snd (run_state (pic_disable bus) d)) = snd (run_state (pic_disable pics_bus) (pics_of d))"
    by (simp add: pic_disable_def ports run_bind out inp pics_bus_in split_beta del: run_state_bind)
qed

section \<open>Pages and views\<close>

lemma same_page_div: "unat u div 4096 = unat v div 4096 \<Longrightarrow> same_page cr4 u v"
proof -
  assume eq: "unat u div 4096 = unat v div 4096"
  have "unat u div 2 ^ (9 * l + 3) = unat v div 2 ^ (9 * l + 3)" if "1 \<le> l" for l
  proof -
    have split: "9 * l + 3 = 12 + 9 * (l - 1)" using that by simp
    have "unat u div 2 ^ 12 = unat v div 2 ^ 12" using eq by simp
    then show ?thesis unfolding split power_add div_mult2_eq by simp
  qed
  then show ?thesis by (simp add: same_page_def va_index_nat)
qed

lemma page_offset:
  assumes "j < 2 ^ 20"
  shows "unat (of_nat j * PAGE_SIZE + (a AND 0xFFF) :: u64) div 4096 = j"
proof -
  have "unat (a AND 0xFFF) < 4096"
  proof -
    have "a AND 0xFFF = take_bit 12 a" by (simp add: take_bit_eq_mask mask_eq_exp_minus_1)
    then show ?thesis by (simp only:) (subst unsigned_take_bit_eq, simp add: take_bit_eq_mod)
  qed
  moreover from this have "unat (of_nat j * PAGE_SIZE + (a AND 0xFFF) :: u64) = j * 4096 + unat (a AND 0xFFF)"
    using range_page [OF assms] assms by (subst unat_add_u64) simp_all
  ultimately show ?thesis by simp
qed

lemma kernel_page_less: "kernel_page cr4 v j \<Longrightarrow> j < 2 ^ 20"
  by (auto simp: kernel_page_def)

lemma seen_sees:
  assumes "v_cr3 v = frame_addr r" "\<And>a j. kernel_page cr4 a j \<Longrightarrow> translates cr4 r v a = Some (of_nat j * PAGE_SIZE)"
    and "\<And>a. unat a div 4096 \<notin> free \<Longrightarrow> v_mem v a = m a"
  shows "sees cr4 free m (seen cr4 v)"
  unfolding sees_def
proof (intro allI impI)
  fix a j
  assume j: "kernel_page cr4 a j" "j \<notin> free"
  have "seen cr4 v a = v_mem v (of_nat j * PAGE_SIZE + (a AND 0xFFF))"
    using assms(2) [OF j(1)] by (simp add: seen_def translates_def assms(1))
  also have "\<dots> = m (of_nat j * PAGE_SIZE + (a AND 0xFFF))"
    using page_offset [OF kernel_page_less [OF j(1)], of a] j(2) by (intro assms(3)) simp
  finally show "seen cr4 v a = m (of_nat j * PAGE_SIZE + (a AND 0xFFF))" .
qed

text \<open>Writing to the data alias of a free page is not noticed.\<close>

lemma sees_write:
  assumes "sees cr4 free m mem" "\<And>a j. kernel_page cr4 a j \<Longrightarrow> translates cr4 r v a = Some (of_nat j * PAGE_SIZE)"
    and "k \<in> free" "k < 2 ^ 20" "\<And>a. unat a div 4096 \<noteq> unat (page_ptr cr4 k) div 4096 \<Longrightarrow> mem' a = mem a"
  shows "sees cr4 free m mem'"
  unfolding sees_def
proof (intro allI impI)
  fix a j
  assume j: "kernel_page cr4 a j" "j \<notin> free"
  have "unat a div 4096 \<noteq> unat (page_ptr cr4 k) div 4096"
  proof
    assume "unat a div 4096 = unat (page_ptr cr4 k) div 4096"
    then have "same_page cr4 (page_ptr cr4 k) a" by (intro same_page_div) simp
    then have "kernel_page cr4 a k" using assms(4) by (simp add: kernel_page_def page_ptr_def)
    from assms(2) [OF this] assms(2) [OF j(1)] have "unat (of_nat k * PAGE_SIZE :: u64) = unat (of_nat j * PAGE_SIZE :: u64)"
      by simp
    then have "k = j" using range_page [OF assms(4)] range_page [OF kernel_page_less [OF j(1)]] by simp
    with assms(3) j(2) show False by simp
  qed
  then show "mem' a = m (of_nat j * PAGE_SIZE + (a AND 0xFFF))"
    using assms(1,5) j unfolding sees_def by metis
qed

section \<open>Where the slabs are\<close>

lemma slab_base_at:
  assumes "length ks = 6" "\<forall>k \<in> set ks. k < 2 ^ 20" "i < 11"
  shows "unat (slab_base cr4 ks i) = unat (page_ptr cr4 (ks ! (i div 2))) + (if odd i then 2048 else 0)"
    and "unat (page_ptr cr4 (ks ! (i div 2))) mod 4096 = 0"
proof -
  have "ks ! (i div 2) \<in> set ks" using assms(1,3) by simp
  then have k: "ks ! (i div 2) < 2 ^ 31" using assms(2) by fastforce
  show "unat (slab_base cr4 ks i) = unat (page_ptr cr4 (ks ! (i div 2))) + (if odd i then 2048 else 0)"
    using unat_page_ptr_offset [OF k, of 2048 cr4] by (simp add: slab_base_def)
  have "(b + n * 4096) mod 4096 = 0" if "b \<in> {0xFF00000000000000, 0xFFFF800000000000}" for b n :: nat
    using that by (auto simp: mod_mult_self2)
  then show "unat (page_ptr cr4 (ks ! (i div 2))) mod 4096 = 0" unfolding unat_page_ptr [OF k] by simp
qed

lemma slab_bases_aligned:
  assumes "length ks = 6" "\<forall>k \<in> set ks. k < 2 ^ 20"
  shows "bases_aligned (slab_base cr4 ks)"
  unfolding bases_aligned_def
proof (intro allI impI)
  fix i :: nat
  assume i: "i < 11"
  obtain q where "unat (page_ptr cr4 (ks ! (i div 2))) = q * 4096"
    using slab_base_at(2) [OF assms i] by (metis mod_0_imp_dvd dvd_div_mult_self)
  then have "unat (slab_base cr4 ks i) = (q * 2 + (if odd i then 1 else 0)) * 2048"
    using slab_base_at(1) [OF assms i] by simp
  then show "unat (slab_base cr4 ks i) mod 2048 = 0" by simp
qed

lemma slab_page:
  assumes "length ks = 6" "\<forall>k \<in> set ks. k < 2 ^ 20" "i < 11"
    and "unat (slab_base cr4 ks i) \<le> unat a" "unat a < unat (slab_base cr4 ks i) + 2048"
  shows "unat a div 4096 = unat (page_ptr cr4 (ks ! (i div 2))) div 4096"
proof -
  obtain q where q: "unat (page_ptr cr4 (ks ! (i div 2))) = q * 4096"
    using slab_base_at(2) [OF assms(1-3)] by (metis mod_0_imp_dvd dvd_div_mult_self)
  then have "q * 4096 \<le> unat a" "unat a < q * 4096 + 4096"
    using slab_base_at(1) [OF assms(1-3)] assms(4,5) by (auto split: if_splits)
  then have "unat a div 4096 = q" by linarith
  then show ?thesis by (simp add: q)
qed

section \<open>The stages\<close>

text \<open>
  The state of memory when the slabs have been set up: the address space is the one of \<open>kernel_page\<close>, the slabs lie on the six pages
  \<open>ks\<close>, and no page table lies on one of them or on a page that can still be handed out. All of these pages were free, and the
  rest of memory is as it was.
\<close>

definition memory_up :: "u64 \<Rightarrow> nat set \<Rightarrow> (u64 \<Rightarrow> u8) \<Rightarrow> nat list \<Rightarrow> vmm_state \<Rightarrow> bool" where
  "memory_up cr4 free m ks v \<longleftrightarrow>
     (\<exists>r lvl par. v_cr3 v = frame_addr r \<and> vmm_inv lvl par v \<and> lvl r = levels cr4 \<and>
        (\<forall>f. lvl f \<noteq> 0 \<longrightarrow> f \<in> free - set ks) \<and>
        (\<forall>a j. kernel_page cr4 a j \<longrightarrow> translates cr4 r v a = Some (of_nat j * PAGE_SIZE)) \<and>
        (\<forall>a. \<not> (\<exists>j. kernel_page cr4 a j) \<longrightarrow> translates cr4 r v a = None)) \<and>
     length ks = 6 \<and> distinct ks \<and> set ks \<subseteq> free \<and> pmm_avail (v_pmm v) \<subseteq> free - set ks \<and>
     (\<forall>f \<in> free. f < 2 ^ 20) \<and> (\<forall>a. unat a div 4096 \<notin> free \<longrightarrow> v_mem v a = m a)"

lemma memory_init_runs:
  assumes given: "memory_given p first_tag (k_vmm st) free"
    and zero: "k_slab st = slab_state_zero" "idt (k_idt st) = replicate 256 zero_gate"
  obtains v i d ss ks where
    "memory_init p first_tag st = Some (st\<lparr>k_vmm := v, k_segments := gdt_init (pf_tss p) (pf_gdt p) (k_segments st),
       k_idt := i, k_devices := d, k_slab := ss\<rparr>)"
    "interrupts_enabled i" "idt_base (idtr i) = pf_idt p"
    "\<And>n. n < 256 \<Longrightarrow> gate_target i n = (if n < 48 \<or> n = 255 then Some (0x08, pf_stubs p n) else None)"
    "memory_up (pf_cr4 p) free (v_mem (k_vmm st)) ks v" "slab_ok (slab_base (pf_cr4 p) ks) ss"
    "\<And>j. j < 11 \<Longrightarrow> slab_avail ss j = slots (slab_base (pf_cr4 p) ks) j"
proof -
  let ?cr4 = "pf_cr4 p" and ?v = "k_vmm st"
  obtain tag where tag: "stivale2_get_tag (pf_tags p) first_tag STIVALE2_STRUCT_TAG_MEMMAP_ID = Some tag" "tag \<noteq> NULL"
    and mmap: "mmap_ok (pf_memmap p tag)" "mmap_disjoint (pf_memmap p tag)" "unat (find_highest (pf_memmap p tag) 0) < 2 ^ 32"
    and free: "free = usable_pages (pmm_init_map (pf_memmap p tag)) - {0}" "5143 \<le> card free"
    using given by (auto simp: memory_given_def Let_def split: option.splits)
  have rest: "highest_page (v_pmm ?v) = 0" "\<And>f i. f \<in> free \<Longrightarrow> i < 512 \<Longrightarrow> ent ?v f i = 0" "boot_map ?cr4 (pf_translation p)"
    using given by (simp_all add: memory_given_def)
  have "unat (find_highest (pf_memmap p tag) 0) < 2 ^ 34" using mmap(3) by simp
  from pmm_init_ready [OF mmap(1,2) rest(1) this]
  obtain pm where pm: "pmm_init ?cr4 (v_pmm ?v) (pf_memmap p tag) = Some pm" "pmm_ok pm" "pmm_avail pm = free"
    unfolding free(1) by metis
  have "mmap_pages (pf_memmap p tag) \<le> 2 ^ 20"
    using mmap(3) by (simp add: mmap_pages_def div_le_mono less_imp_le_nat less_mult_imp_div_less)
  then have small: "f < 2 ^ 20" if "f \<in> free" for f
    using that usable_pages_below [OF mmap(1)] unfolding free(1) by fastforce
  define v0 where "v0 = ?v\<lparr>v_pmm := pm\<rparr>"
  have v0: "pmm_ok (v_pmm v0)" "pmm_avail (v_pmm v0) = free" "v_mem v0 = v_mem ?v" "5137 \<le> card (pmm_avail (v_pmm v0))"
    using pm free(2) by (simp_all add: v0_def)
  have blank: "blank_pages v0" using small rest(2) by (simp add: blank_pages_def v0(2)) (simp add: ent_def v0(3))
  obtain v lvl par r where v: "vmm_init (pf_translation p) ?cr4 v0 = Some v" "v_cr3 v = frame_addr r" "vmm_inv lvl par v"
    "lvl r = levels ?cr4" "\<And>f. lvl f \<noteq> 0 \<Longrightarrow> f \<in> free - pmm_avail (v_pmm v)"
    "\<And>a. lvl (unat a div 4096) = 0 \<Longrightarrow> v_mem v a = v_mem ?v a"
    "pmm_avail (v_pmm v) \<subseteq> free" "card free \<le> card (pmm_avail (v_pmm v)) + 5137"
    "\<And>a j. kernel_page ?cr4 a j \<Longrightarrow> translates ?cr4 r v a = Some (of_nat j * PAGE_SIZE)"
    "\<And>a. \<not> (\<exists>j. kernel_page ?cr4 a j) \<Longrightarrow> translates ?cr4 r v a = None"
    by (rule vmm_init_result [OF rest(3) v0(1) blank v0(4), unfolded v0(2,3)]) (rule that)
  obtain i d where i: "idt_init (pf_stubs p) (pf_idt p) (pf_bus p) (k_idt st, k_devices st) = Some (i, d)"
    "idt_base (idtr i) = pf_idt p" "interrupts_enabled i"
    "\<And>n. n < 256 \<Longrightarrow> gate_target i n = (if n < 48 \<or> n = 255 then Some (0x08, pf_stubs p n) else None)"
    using idt_init_table [OF zero(2), of "pf_stubs p" "pf_idt p" "pf_bus p" "k_devices st"] by metis
  have "pmm_ok (v_pmm v)" "6 \<le> card (pmm_avail (v_pmm v))" using v(3,8) free(2) by (simp_all add: vmm_inv_def)
  from slab_init_result [OF this, of ?cr4]
  obtain pm' ss ks where ss: "slab_init ?cr4 (v_pmm v, slab_state_zero) = Some (pm', ss)"
    "slabs ss = map (\<lambda>m. slab_ready (slab_base ?cr4 ks m) m) [0..<11]" "length ks = 6" "distinct ks"
    "set ks \<subseteq> pmm_avail (v_pmm v)" "pmm_avail pm' = pmm_avail (v_pmm v) - set ks" "pmm_ok pm'"
    by (elim exE conjE)
  have "\<forall>k \<in> set ks. k < 2 ^ 31" using ss(5) v(7) small by fastforce
  then have bases: "bases_ok (slab_base ?cr4 ks)" by (rule bases_ok_slab_base [OF ss(3,4)])
  note ready = slab_ok_ready [OF bases ss(2)]
  define v' where "v' = v\<lparr>v_pmm := pm'\<rparr>"
  have v': "vmm_inv lvl par v'" "v_cr3 v' = frame_addr r" "pmm_avail (v_pmm v') = pmm_avail (v_pmm v) - set ks" "v_mem v' = v_mem v"
    "translates ?cr4 r v' = translates ?cr4 r v"
    using v(2,3) ss(6,7) by (auto simp: v'_def vmm_inv_def ent_def translates_def fun_eq_iff)
  have tables: "f \<in> free - set ks" if "lvl f \<noteq> 0" for f using v(5) [OF that] ss(5) by blast
  have "v_mem v' a = v_mem ?v a" if "unat a div 4096 \<notin> free" for a
    using that tables [of "unat a div 4096"] v(6) [of a] by (auto simp: v'(4))
  then have up: "memory_up ?cr4 free (v_mem ?v) ks v'"
    unfolding memory_up_def using v' v(4,7,9,10) tables ss(3-5) small by (intro conjI exI [of _ r] exI [of _ lvl] exI [of _ par]) auto
  show thesis
  proof
    show "memory_init p first_tag st = Some (st\<lparr>k_vmm := v', k_segments := gdt_init (pf_tss p) (pf_gdt p) (k_segments st),
       k_idt := i, k_devices := d, k_slab := ss\<rparr>)"
      using tag pm(1) v(1) i(1) ss(1) zero(1) by (simp add: memory_init_def v0_def v'_def Let_def)
    show "interrupts_enabled i" "idt_base (idtr i) = pf_idt p" by (rule i)+
    show "gate_target i n = (if n < 48 \<or> n = 255 then Some (0x08, pf_stubs p n) else None)" if "n < 256" for n by (rule i(4) [OF that])
    show "memory_up ?cr4 free (v_mem ?v) ks v'" by (rule up)
    show "slab_ok (slab_base ?cr4 ks) ss" by (rule ready(1))
    show "slab_avail ss j = slots (slab_base ?cr4 ks) j" if "j < 11" for j
      using ready(2,3) [OF that] by (simp add: slab_avail_def slots_def)
  qed
qed

lemma memory_up_small: "memory_up cr4 free m ks v \<Longrightarrow> length ks = 6 \<and> (\<forall>k \<in> set ks. k < 2 ^ 20) \<and> set ks \<subseteq> free"
  by (auto simp: memory_up_def)

lemma memory_up_sees: "memory_up cr4 free m ks v \<Longrightarrow> sees cr4 free m (seen cr4 v)"
  unfolding memory_up_def by (elim exE conjE) (rule seen_sees; blast)

text \<open>A write to a slab is a write to a free page.\<close>

lemma slab_write_sees:
  assumes "memory_up cr4 free m ks v" "sees cr4 free m mem" "i < 11"
    and "\<And>a. unat a < unat (slab_base cr4 ks i) \<or> unat (slab_base cr4 ks i) + 2048 \<le> unat a \<Longrightarrow> mem' a = mem a"
  shows "sees cr4 free m mem'"
proof -
  have ks: "length ks = 6" "\<forall>k \<in> set ks. k < 2 ^ 20" "set ks \<subseteq> free" using memory_up_small [OF assms(1)] by simp_all
  let ?k = "ks ! (i div 2)"
  have k: "?k \<in> set ks" using ks(1) assms(3) by simp
  obtain r where r: "\<And>a j. kernel_page cr4 a j \<Longrightarrow> translates cr4 r v a = Some (of_nat j * PAGE_SIZE)"
    using assms(1) unfolding memory_up_def by blast
  show ?thesis
  proof (rule sees_write [OF assms(2) r])
    show "?k \<in> free" "?k < 2 ^ 20" using k ks by auto
    fix a :: u64
    assume "unat a div 4096 \<noteq> unat (page_ptr cr4 ?k) div 4096"
    then show "mem' a = mem a" using slab_page [OF ks(1,2) assms(3), of cr4 a] assms(4) [of a] by (metis not_le)
  qed
qed

lemma vendor_formats:
  assumes "NUL \<notin> set t" "displayable t" "length t < 100"
  shows "format_text vendor_format [Va_Str t] = Some (''CPU Vendor ID String: '' @ t @ NL)"
    "NUL \<notin> set (''CPU Vendor ID String: '' @ t @ NL)" "displayable (''CPU Vendor ID String: '' @ t @ NL)"
    "length (''CPU Vendor ID String: '' @ t @ NL) < 1000"
proof -
  have lit: "\<forall>c \<in> set ''CPU Vendor ID String: ''. c \<noteq> NUL \<and> c \<noteq> CHR ''%''" "literal NL" by code_simp+
  have split: "vendor_format = ''CPU Vendor ID String: '' @ ''%s'' @ NL" by (simp add: vendor_format_def)
  show "format_text vendor_format [Va_Str t] = Some (''CPU Vendor ID String: '' @ t @ NL)"
    unfolding split format_literal [OF lit(1)] format_string [OF assms(1)] literal_text(2) [OF lit(2)] by simp
  show "NUL \<notin> set (''CPU Vendor ID String: '' @ t @ NL)"
    using lit(1) assms(1) literal_text(3) [OF lit(2)] unfolding set_append Un_iff by blast
  have "displayable ''CPU Vendor ID String: ''" by (rule plain_displayable, code_simp)
  then show "displayable (''CPU Vendor ID String: '' @ t @ NL)" by (intro displayable_append assms(2) plain_texts)
  show "length (''CPU Vendor ID String: '' @ t @ NL) < 1000" using assms(3) by (simp add: NL_def)
qed

lemma vendor_init_runs:
  assumes up: "memory_up (pf_cr4 p) free m ks (k_vmm st)" and slabs: "slab_ok (slab_base (pf_cr4 p) ks) (k_slab st)"
    and some: "slab_avail (k_slab st) 3 \<noteq> {}"
    and bus: "drains (pf_bus p) busy sent" "file_name (pf_kernel_c p)" and ok: "console_ok st" "processor_ok p"
  obtains b d s ss mem where
    "vendor_init p st = Some (st\<lparr>k_buffers := b, k_devices := d, k_screen := s, k_slab := ss, k_acpi := (k_acpi st)\<lparr>a_mem := mem\<rparr>\<rparr>)"
    "buffers_ok b" "fb_ok s" "slab_ok (slab_base (pf_cr4 p) ks) ss" "\<And>j. j \<noteq> 3 \<Longrightarrow> slab_avail ss j = slab_avail (k_slab st) j"
    "sees (pf_cr4 p) free m mem"
proof -
  let ?cr4 = "pf_cr4 p" and ?bs = "slab_base (pf_cr4 p) ks" and ?seen = "seen (pf_cr4 p) (k_vmm st)"
  obtain a b c d where insn: "pf_cpuid p 0 0 = (a, b, c, d)" by (cases "pf_cpuid p 0 0")
  let ?t = "reg_chars b @ reg_chars d @ reg_chars c"
  have t: "vendor p = ?t" by (simp add: vendor_def insn)
  then have plain: "\<forall>c \<in> set ?t. c \<noteq> NUL \<and> plain c" using ok(2) by (simp add: processor_ok_def)
  then have "NUL \<notin> set (reg_chars b @ reg_chars c @ reg_chars d)" by auto
  from vendor_string_written [where insn = "pf_cpuid p", OF slabs some insn this, of "pf_ecx p" ?seen]
  obtain q ss mem where q: "cpu_get_vendor_string (pf_cpuid p) (pf_ecx p) (k_slab st, ?seen) = Some (q, ss, mem)"
    "q \<in> slab_avail (k_slab st) 3" "slab_ok ?bs ss"
    "\<forall>j. slab_avail ss j = (if j = 3 then slab_avail (k_slab st) 3 - {q} else slab_avail (k_slab st) j)"
    "chars_at mem q 13 = reg_chars b @ reg_chars d @ reg_chars c @ [NUL]" "\<forall>x. \<not> unat (x - q) < 16 \<longrightarrow> mem x = ?seen x"
    by (elim exE conjE)
  have "(3 :: nat) < 11" by simp
  have slot: "q \<in> slots ?bs 3" using q(2) slab_avail_slots [OF slabs \<open>3 < 11\<close>] by blast
  have bases: "bases_ok ?bs" using slabs by (simp add: slab_ok_def)
  have inside: "unat (?bs 3) \<le> unat q" "unat q + 16 \<le> unat (?bs 3) + 2048"
    using slot_range [OF bases \<open>3 < 11\<close> slot] slot_end [OF bases \<open>3 < 11\<close> slot] by simp_all
  have mem: "mem x = ?seen x" if "unat x < unat (?bs 3) \<or> unat (?bs 3) + 2048 \<le> unat x" for x
  proof -
    have "\<not> unat (x - q) < 16"
    proof
      assume less: "unat (x - q) < 16"
      have "unat (?bs 3) + 2048 < 2 ^ 64" using bases \<open>3 < 11\<close> by (auto simp: bases_ok_def)
      have "unat x = unat ((x - q) + q)" by simp
      also have "\<dots> = unat (x - q) + unat q"
        using less inside \<open>unat (?bs 3) + 2048 < 2 ^ 64\<close> by (subst unat_add_u64) simp_all
      finally show False using less inside that by linarith
    qed
    then show ?thesis using q(6) by blast
  qed
  have sees: "sees ?cr4 free m mem" by (rule slab_write_sees [OF up memory_up_sees [OF up] \<open>3 < 11\<close> mem])
  have "[0..<16] = [0..<13] @ [13, 14, 15 :: nat]" by (simp add: upt_rec)
  then have "chars_at mem q 16 = chars_at mem q 13 @ map (\<lambda>i. char_of (unat (mem (q + of_nat i)))) [13, 14, 15]"
    unfolding chars_at_def by (simp only: map_append)
  then have str: "c_string (chars_at mem q 16) = ?t"
    using c_string_text [of ?t] plain unfolding q(5) by (auto simp only: append_assoc)
  have nul: "NUL \<notin> set ?t" and disp: "displayable ?t" and short: "length ?t < 100"
    using plain by (auto intro: plain_displayable)
  have nr: "to_int32 63 \<noteq> - (2 ^ 31)" "to_int32 (63 + 1) \<noteq> - (2 ^ 31)" "length (signed_text (to_int32 63)) < 12"
    "length (signed_text (to_int32 (63 + 1))) < 12"
    using start_messages(9) by simp_all
  let ?st = "st\<lparr>k_slab := ss, k_acpi := (k_acpi st)\<lparr>a_mem := mem\<rparr>\<rparr>"
  have "console_ok ?st" using ok(1) by (simp add: console_ok_def)
  from printsE [OF log_info_prints [OF bus vendor_formats [OF nul disp short] nr] this]
  obtain b' d' s' where out: "log_info p 63 vendor_format [Va_Str ?t] ?st = Some (?st\<lparr>k_buffers := b', k_devices := d', k_screen := s'\<rparr>)"
    "console_ok (?st\<lparr>k_buffers := b', k_devices := d', k_screen := s'\<rparr>)"
    by metis
  show thesis
  proof
    show "vendor_init p st = Some (st\<lparr>k_buffers := b', k_devices := d', k_screen := s', k_slab := ss, k_acpi := (k_acpi st)\<lparr>a_mem := mem\<rparr>\<rparr>)"
      using q(1) out(1) by (simp add: vendor_init_def str)
    show "buffers_ok b'" "fb_ok s'" using out(2) by (simp_all add: console_ok_def)
    show "slab_ok ?bs ss" by (rule q(3))
    show "slab_avail ss j = slab_avail (k_slab st) j" if "j \<noteq> 3" for j using q(4) that by simp
    show "sees ?cr4 free m mem" by (rule sees)
  qed
qed

definition acpi_blank :: "acpi_state \<Rightarrow> bool" where
  "acpi_blank a \<longleftrightarrow> \<not> has_xsdt_var a \<and> madt_lapics_i a = 0 \<and> madt_io_apics_i a = 0 \<and> madt_isos_i a = 0 \<and> madt_lapic_nmis_i a = 0"

text \<open>The four arrays hold the records of their types.\<close>

definition arrays_hold :: "u64 list \<Rightarrow> (u64 \<Rightarrow> u8) \<Rightarrow> acpi_state \<Rightarrow> bool" where
  "arrays_hold recs types a \<longleftrightarrow>
     pointers_at (a_mem a) (madt_lapics a) (madt_lapics_i a) = filter (\<lambda>q. types q = PROCESSOR_LOCAL_APIC) recs \<and>
     pointers_at (a_mem a) (madt_io_apics a) (madt_io_apics_i a) = filter (\<lambda>q. types q = IO_APIC) recs \<and>
     pointers_at (a_mem a) (madt_isos a) (madt_isos_i a) = filter (\<lambda>q. types q = INTERRUPT_SOURCE_OVERRIDE) recs \<and>
     pointers_at (a_mem a) (madt_lapic_nmis a) (madt_lapic_nmis_i a) = filter (\<lambda>q. types q = LAPIC_NMI) recs"

lemma acpi_init_runs:
  assumes tables: "firmware_ok p first_tag free recs types (a_mem a)" and blank: "acpi_blank a"
    and few: "\<forall>t. length (filter (\<lambda>q. types q = t) recs) \<le> 32"
    and slabs: "slab_ok bs (h_slab (a_heap a))" "bases_aligned bs" "card (slab_avail (h_slab (a_heap a)) 8) = 4"
    and away: "\<forall>q \<in> set recs. \<forall>x \<in> {q, q + 1}. unat x < unat (bs 8) \<or> unat (bs 8) + 2048 \<le> unat x"
  obtains a' where "acpi_init (pf_cr4 p) (pf_RSDT p) (pf_APIC p) (pf_tags p) first_tag a = Some (Running a')"
    "arrays_hold recs types a'" "slab_avail (h_slab (a_heap a')) 8 = {}" "slab_ok bs (h_slab (a_heap a'))"
    "same_but_512 (a_heap a) (a_heap a')"
    "\<And>x. unat x < unat (bs 8) \<or> unat (bs 8) + 2048 \<le> unat x \<Longrightarrow> a_mem a' x = a_mem a x"
proof -
  let ?cr4 = "pf_cr4 p" and ?mem = "a_mem a"
  obtain tag e q r tbl where defs: "q = load64 ?mem (tag + 16)" "r = phys_to_higher_half_data ?cr4 (ucast (rsdp_rsdt_address ?mem q))"
      "tbl = phys_to_higher_half_data ?cr4 e"
    and tag: "stivale2_get_tag (pf_tags p) first_tag STIVALE2_STRUCT_TAG_RSDP_ID = Some tag" "tag \<noteq> NULL"
    and sum: "sum_list (bytes_at ?mem q 20) = 0"
    and root: "table_ok ?mem (pf_RSDT p) r" "36 \<le> unat (sdt_length ?mem r)" "unat (sdt_length ?mem r) < 256"
    and short: "\<forall>e \<in> set (listed_tables ?mem q r). bytes_at ?mem e 4 = bytes_at ?mem (pf_APIC p) 4 \<longrightarrow> unat (sdt_length ?mem e) < 256"
    and first: "find (table_ok ?mem (pf_APIC p)) (listed_tables ?mem q r) = Some e" "tbl \<noteq> NULL"
    and table: "madt_table ?mem (tbl + ucast (sdt_length ?mem tbl)) (tbl + 44) recs"
    and types: "\<forall>q \<in> set recs. ?mem q = types q"
    using tables unfolding firmware_ok_def Let_def by (elim exE conjE) (rule that [OF refl refl refl])
  define a1 where "a1 = (if 2 \<le> rsdp_revision ?mem q then a\<lparr>rsdp := q, has_xsdt_var := True\<rparr> else a\<lparr>rsdp := q\<rparr>)\<lparr>rsdt := r\<rparr>"
  have a1: "a_mem a1 = ?mem" "rsdt a1 = r" "a_heap a1 = a_heap a" "madt_lapics_i a1 = 0" "madt_io_apics_i a1 = 0" "madt_isos_i a1 = 0"
    "madt_lapic_nmis_i a1 = 0" "has_xsdt_var a1 \<longleftrightarrow> 2 \<le> rsdp_revision ?mem q"
    using blank by (simp_all add: a1_def acpi_blank_def)
  have list: "root_entries a1 = listed_tables ?mem q r" by (simp add: root_entries_def listed_tables_def a1)
  have "acpi_find_sdt_table ?cr4 a1 (pf_APIC p) = Some tbl"
    using find_table_first [of a1 "pf_APIC p" ?cr4] root(2) short first(1) unfolding list a1(1,2) by (simp add: defs(3))
  note found = this first(2)
  have same: "filter (\<lambda>q. a_mem a1 q = t) recs = filter (\<lambda>q. types q = t) recs" for t
    using types by (intro filter_cong) (simp_all add: a1(1))
  have few1: "\<forall>t. length (filter (\<lambda>q. a_mem a1 q = t) recs) \<le> 32" using few by (simp add: same)
  have table1: "madt_table (a_mem a1) (tbl + ucast (sdt_length (a_mem a1) tbl)) (tbl + 44) recs" using table by (simp add: a1(1))
  obtain a' where a': "madt_init ?cr4 (pf_APIC p) a1 = Some (Running a')" "arrays_hold recs types a'"
    "slab_avail (h_slab (a_heap a')) 8 = {}" "slab_ok bs (h_slab (a_heap a'))" "same_but_512 (a_heap a) (a_heap a')"
    "\<forall>x. unat x < unat (bs 8) \<or> unat (bs 8) + 2048 \<le> unat x \<longrightarrow> a_mem a' x = ?mem x"
    using madt_collects [where bs = bs and st = a1 and ps = recs and tbl = tbl, unfolded a1(3), OF slabs found a1(4-7) table1 few1 away]
    unfolding same unfolding a1(1) arrays_hold_def
    by (elim exE conjE) (rule that, assumption, (unfold arrays_hold_def)[1], (intro conjI; assumption), assumption+)
  have init: "rsdp_init q a = Running (if 2 \<le> rsdp_revision ?mem q then a\<lparr>rsdp := q, has_xsdt_var := True\<rparr> else a\<lparr>rsdp := q\<rparr>)"
    by (simp add: rsdp_init_def rsdp_checksum sum Let_def)
  have "acpi_check_sdt_header ?mem r (pf_RSDT p) = Some 0" using root(1,3) by (simp add: check_header table_ok_def)
  then have "acpi_init ?cr4 (pf_RSDT p) (pf_APIC p) (pf_tags p) first_tag a = madt_init ?cr4 (pf_APIC p) a1"
    using tag by (simp add: acpi_init_def defs(1) [symmetric] init a1_def Let_def defs(2) cong: if_cong)
  then show thesis using that a' by metis
qed

lemma pics_after_apic:
  assumes "has_pics bus pics_of" "k < 16"
  shows "masked (pics_of (snd (run_state (pic_disable bus) (snd (run_state (pic_remap bus) d))))) k"
    and "line_vector (pics_of (snd (run_state (pic_disable bus) (snd (run_state (pic_remap bus) d))))) k = of_nat (32 + k)"
proof -
  let ?c = "snd (run_state (pic_remap pics_bus) (pics_of d))"
  have "run_state (pic_remap pics_bus) (pics_of d) = ((), ?c)" by (simp add: pic_remap_run)
  note c = remap_facts(1,2) [OF this]
  show "masked (pics_of (snd (run_state (pic_disable bus) (snd (run_state (pic_remap bus) d))))) k"
    "line_vector (pics_of (snd (run_state (pic_disable bus) (snd (run_state (pic_remap bus) d))))) k = of_nat (32 + k)"
    unfolding pics_remapped [OF assms(1)] using disabled_masks [OF c(1) assms(2)] c(2) [OF assms(2)] by simp_all
qed

lemma firmware_init_runs:
  assumes up: "memory_up (pf_cr4 p) free m ks (k_vmm st)" and slabs: "slab_ok (slab_base (pf_cr4 p) ks) (k_slab st)"
    and full: "slab_avail (k_slab st) 8 = slots (slab_base (pf_cr4 p) ks) 8"
    and tables: "firmware_ok p first_tag free recs types (a_mem (k_acpi st))" and blank: "acpi_blank (k_acpi st)"
    and few: "\<forall>t. length (filter (\<lambda>q. types q = t) recs) \<le> 32"
    and seen: "sees (pf_cr4 p) free m (a_mem (k_acpi st))"
    and rest: "has_pics (pf_bus p) pics_of" "processor_ok p"
  obtains st' where "firmware_init p first_tag st = Some (Running st')"
    "k_vmm st' = k_vmm st" "k_segments st' = k_segments st" "k_idt st' = k_idt st" "k_buffers st' = k_buffers st" "k_screen st' = k_screen st"
    "slab_ok (slab_base (pf_cr4 p) ks) (k_slab st')" "slab_avail (k_slab st') 8 = {}"
    "\<And>j. j \<noteq> 8 \<Longrightarrow> slab_avail (k_slab st') j = slab_avail (k_slab st) j"
    "arrays_hold recs types (k_acpi st')" "sees (pf_cr4 p) free m (a_mem (k_acpi st'))"
    "\<And>k. k < 16 \<Longrightarrow> masked (pics_of (k_devices st')) k \<and> line_vector (pics_of (k_devices st')) k = of_nat (32 + k)"
proof -
  let ?cr4 = "pf_cr4 p" and ?bs = "slab_base (pf_cr4 p) ks"
  have ks: "length ks = 6" "\<forall>k \<in> set ks. k < 2 ^ 20" "set ks \<subseteq> free" using memory_up_small [OF up] by simp_all
  define a where "a = (k_acpi st)\<lparr>a_heap := (a_heap (k_acpi st))\<lparr>h_pmm := v_pmm (k_vmm st), h_slab := k_slab st\<rparr>\<rparr>"
  have a: "a_mem a = a_mem (k_acpi st)" "h_slab (a_heap a) = k_slab st" "h_pmm (a_heap a) = v_pmm (k_vmm st)"
    by (simp_all add: a_def)
  have blank': "acpi_blank a" using blank by (simp add: acpi_blank_def a_def)
  have bases: "bases_ok ?bs" using slabs by (simp add: slab_ok_def)
  have card: "card (slab_avail (h_slab (a_heap a)) 8) = 4" by (simp add: a(2) full card_slots_8 [OF bases])
  have "ks ! (8 div 2) \<in> free" using ks by auto
  then have away: "\<forall>q \<in> set recs. \<forall>x \<in> {q, q + 1}. unat x < unat (?bs 8) \<or> unat (?bs 8) + 2048 \<le> unat x"
  proof (intro ballI)
    fix q x
    assume "q \<in> set recs" "x \<in> {q, q + 1}"
    then have "unat x div 4096 \<noteq> unat (page_ptr ?cr4 (ks ! (8 div 2))) div 4096"
      using tables \<open>ks ! (8 div 2) \<in> free\<close> unfolding firmware_ok_def by blast
    then show "unat x < unat (?bs 8) \<or> unat (?bs 8) + 2048 \<le> unat x"
      using slab_page [OF ks(1,2), of 8 ?cr4 x] by linarith
  qed
  obtain a' where a': "acpi_init ?cr4 (pf_RSDT p) (pf_APIC p) (pf_tags p) first_tag a = Some (Running a')"
    "arrays_hold recs types a'" "slab_avail (h_slab (a_heap a')) 8 = {}" "slab_ok ?bs (h_slab (a_heap a'))"
    "same_but_512 (a_heap a) (a_heap a')"
    "\<And>x. unat x < unat (?bs 8) \<or> unat (?bs 8) + 2048 \<le> unat x \<Longrightarrow> a_mem a' x = a_mem a x"
    by (rule acpi_init_runs [OF tables [folded a(1)] blank' few slabs [folded a(2)] slab_bases_aligned [OF ks(1,2)] card away]) (rule that)
  have sees: "sees ?cr4 free m (a_mem a')" by (rule slab_write_sees [OF up seen _ a'(6) [unfolded a(1)]]) simp_all
  define base where "base = phys_to_higher_half_data ?cr4 (ucast (load32 (a_mem a') (madt a' + 36)))"
  define d where "d = snd (run_state (pic_disable (pf_bus p)) (snd (run_state (pic_remap (pf_bus p)) (k_devices st))))"
  define st' where "st' = st\<lparr>k_acpi := a', k_slab := h_slab (a_heap a'), k_devices := d,
    k_mmio := lapic_enable (pf_mmio p) base (k_mmio st), k_lapic_base := base\<rparr>"
  have pm: "h_pmm (a_heap a') = v_pmm (k_vmm st)" using a'(5) a(3) by (simp add: same_but_512_def)
  show thesis
  proof
    show "firmware_init p first_tag st = Some (Running st')"
      using rest(2) a'(1) unfolding a_def
      by (simp add: firmware_init_def apic_init_def processor_ok_def st'_def base_def d_def pm Let_def)
    show "slab_ok ?bs (k_slab st')" "slab_avail (k_slab st') 8 = {}" using a'(3,4) by (simp_all add: st'_def)
    show "slab_avail (k_slab st') j = slab_avail (k_slab st) j" if "j \<noteq> 8" for j
      using a'(5) that by (simp add: st'_def same_but_512_def a(2))
    show "arrays_hold recs types (k_acpi st')" "sees ?cr4 free m (a_mem (k_acpi st'))" using a'(2) sees by (simp_all add: st'_def)
    show "masked (pics_of (k_devices st')) k \<and> line_vector (pics_of (k_devices st')) k = of_nat (32 + k)" if "k < 16" for k
      using pics_after_apic [OF rest(1) that] by (simp add: st'_def d_def)
  qed (simp_all add: st'_def)
qed

section \<open>Property\<close>

text \<open>
  C1: the kernel comes up. On a machine as the boot loader describes it (a port that drains, a large enough framebuffer, 5143 blank
  usable pages in a well-formed memory map below 4 GiB, tables of the firmware that pass the checks wherever they are seen
  through the kernel's address space, a processor with a local controller), \<open>kmain\<close> returns from every initialisation and reaches its
  idle loop. Then the console is in order, interrupts are enabled with a gate for each of the 48 vectors, the address space is the
  specified one, its tables, the six pages of the slabs and the pages still free are disjoint, the slabs are intact, with the one of
  512 bytes used up by the four arrays, which hold the records of the firmware's table, no
  memory but the free pages has changed, and all sixteen lines are masked on remapped controllers.
\<close>

theorem kmain_reaches_idle:
  assumes "drains (pf_bus p) busy sent" "file_name (pf_kernel_c p)" "has_pics (pf_bus p) pics_of"
    and "framebuffer_given p first_tag (k_screen st)" "buffers_ok (k_buffers st)"
    and "memory_given p first_tag (k_vmm st) free"
    and "k_slab st = slab_state_zero" "idt (k_idt st) = replicate 256 zero_gate" "acpi_blank (k_acpi st)" "processor_ok p"
    and "\<forall>mem. sees (pf_cr4 p) free (v_mem (k_vmm st)) mem \<longrightarrow> firmware_ok p first_tag free recs types mem"
    and "\<forall>t. length (filter (\<lambda>q. types q = t) recs) \<le> 32"
  shows "\<exists>st' ks. kmain p first_tag st = Some (Running st') \<and> console_ok st' \<and>
    interrupts_enabled (k_idt st') \<and> idt_base (idtr (k_idt st')) = pf_idt p \<and>
    (\<forall>n < 256. gate_target (k_idt st') n = (if n < 48 \<or> n = 255 then Some (0x08, pf_stubs p n) else None)) \<and>
    k_segments st' = gdt_init (pf_tss p) (pf_gdt p) (k_segments st) \<and>
    memory_up (pf_cr4 p) free (v_mem (k_vmm st)) ks (k_vmm st') \<and>
    slab_ok (slab_base (pf_cr4 p) ks) (k_slab st') \<and> slab_avail (k_slab st') 8 = {} \<and>
    (\<forall>j < 11. j \<noteq> 3 \<and> j \<noteq> 8 \<longrightarrow> slab_avail (k_slab st') j = slots (slab_base (pf_cr4 p) ks) j) \<and>
    arrays_hold recs types (k_acpi st') \<and> sees (pf_cr4 p) free (v_mem (k_vmm st)) (a_mem (k_acpi st')) \<and>
    (\<forall>k < 16. masked (pics_of (k_devices st')) k \<and> line_vector (pics_of (k_devices st')) k = of_nat (32 + k))"
proof -
  let ?cr4 = "pf_cr4 p" and ?m = "v_mem (k_vmm st)"
  obtain b1 d1 s1 where 1: "console_init p first_tag st = Some (st\<lparr>k_buffers := b1, k_devices := d1, k_screen := s1\<rparr>)"
    "console_ok (st\<lparr>k_buffers := b1, k_devices := d1, k_screen := s1\<rparr>)"
    using console_init_prints [OF assms(1,2,4,5)] by (elim exE conjE)
  define st1 where "st1 = st\<lparr>k_buffers := b1, k_devices := d1, k_screen := s1\<rparr>"
  have st1: "memory_given p first_tag (k_vmm st1) free" "k_slab st1 = slab_state_zero" "idt (k_idt st1) = replicate 256 zero_gate"
    "v_mem (k_vmm st1) = ?m" "k_segments st1 = k_segments st" "k_acpi st1 = k_acpi st" "console_ok st1"
    using assms(6-8) 1(2) by (simp_all add: st1_def)
  obtain v i d2 ss1 ks where 2: "memory_init p first_tag st1 = Some (st1\<lparr>k_vmm := v, k_segments := gdt_init (pf_tss p) (pf_gdt p) (k_segments st1),
       k_idt := i, k_devices := d2, k_slab := ss1\<rparr>)"
    "interrupts_enabled i" "idt_base (idtr i) = pf_idt p"
    "\<And>n. n < 256 \<Longrightarrow> gate_target i n = (if n < 48 \<or> n = 255 then Some (0x08, pf_stubs p n) else None)"
    "memory_up ?cr4 free ?m ks v" "slab_ok (slab_base ?cr4 ks) ss1"
    "\<And>j. j < 11 \<Longrightarrow> slab_avail ss1 j = slots (slab_base ?cr4 ks) j"
    by (rule memory_init_runs [OF st1(1-3), unfolded st1(4)]) (rule that)
  define st2 where "st2 = st1\<lparr>k_vmm := v, k_segments := gdt_init (pf_tss p) (pf_gdt p) (k_segments st1),
       k_idt := i, k_devices := d2, k_slab := ss1\<rparr>"
  have st2: "k_vmm st2 = v" "k_slab st2 = ss1" "console_ok st2" using st1(7) by (simp_all add: st2_def console_ok_def)
  have some: "slab_avail (k_slab st2) 3 \<noteq> {}" using 2(7) [of 3] slots_nonempty by (simp add: st2(2))
  obtain b3 d3 s3 ss2 mem where 3: "vendor_init p st2 =
      Some (st2\<lparr>k_buffers := b3, k_devices := d3, k_screen := s3, k_slab := ss2, k_acpi := (k_acpi st2)\<lparr>a_mem := mem\<rparr>\<rparr>)"
    "buffers_ok b3" "fb_ok s3" "slab_ok (slab_base ?cr4 ks) ss2" "\<And>j. j \<noteq> 3 \<Longrightarrow> slab_avail ss2 j = slab_avail ss1 j"
    "sees ?cr4 free ?m mem"
    by (rule vendor_init_runs [OF 2(5) [folded st2(1)] 2(6) [folded st2(2)] some assms(1,2) st2(3) assms(10), unfolded st2(2)]) (rule that)
  define st3 where "st3 = st2\<lparr>k_buffers := b3, k_devices := d3, k_screen := s3, k_slab := ss2, k_acpi := (k_acpi st2)\<lparr>a_mem := mem\<rparr>\<rparr>"
  have st3: "k_vmm st3 = v" "k_slab st3 = ss2" "a_mem (k_acpi st3) = mem" "k_segments st3 = gdt_init (pf_tss p) (pf_gdt p) (k_segments st)"
    "k_idt st3 = i" "k_buffers st3 = b3" "k_screen st3 = s3"
    by (simp_all add: st3_def st2_def st1(5))
  have blank: "acpi_blank (k_acpi st3)" using assms(9) by (simp add: st3_def st2_def st1_def acpi_blank_def)
  have full: "slab_avail ss2 8 = slots (slab_base ?cr4 ks) 8" using 3(5) [of 8] 2(7) [of 8] by simp
  obtain st4 where 4: "firmware_init p first_tag st3 = Some (Running st4)" "k_vmm st4 = v"
    "k_segments st4 = gdt_init (pf_tss p) (pf_gdt p) (k_segments st)" "k_idt st4 = i" "k_buffers st4 = b3" "k_screen st4 = s3"
    "slab_ok (slab_base ?cr4 ks) (k_slab st4)" "slab_avail (k_slab st4) 8 = {}"
    "\<And>j. j \<noteq> 8 \<Longrightarrow> slab_avail (k_slab st4) j = slab_avail ss2 j"
    "arrays_hold recs types (k_acpi st4)" "sees ?cr4 free ?m (a_mem (k_acpi st4))"
    "\<And>k. k < 16 \<Longrightarrow> masked (pics_of (k_devices st4)) k \<and> line_vector (pics_of (k_devices st4)) k = of_nat (32 + k)"
    by (rule firmware_init_runs [OF 2(5) [folded st3(1)] 3(4) [folded st3(2)] full [folded st3(2)] assms(11) [rule_format, OF 3(6), folded st3(3)] blank
        assms(12) 3(6) [folded st3(3)] assms(3,10), unfolded st3]) (rule that)
  have run: "kmain p first_tag st = Some (Running st4)"
    using 1(1) 2(1) 3(1) 4(1) by (simp add: kmain_def st1_def [symmetric] st2_def [symmetric] st3_def [symmetric])
  have avail: "\<forall>j < 11. j \<noteq> 3 \<and> j \<noteq> 8 \<longrightarrow> slab_avail (k_slab st4) j = slots (slab_base ?cr4 ks) j"
    using 4(9) 3(5) 2(7) by simp
  show ?thesis
    by (intro exI [of _ st4] exI [of _ ks])
      (use run avail 2(2-5) 3(2,3) 4(2-8,10-12) in \<open>simp add: console_ok_def\<close>)
qed

text \<open>
  A machine for the witness: 128 MiB, the tables of the firmware in the reserved pages below 1 MiB, a slow port and two interrupt
  controllers on the bus.
\<close>

definition boot_rsdp :: "u8 list" where
  "boot_rsdp = replicate 8 0 @ [0xE2] @ replicate 7 0 @ [0, 0x10, 0x0E, 0]"

definition boot_rsdt :: "u8 list" where
  "boot_rsdt = [82, 83, 68, 84, 44, 0, 0, 0, 0, 43] @ replicate 26 0 @ [0, 0x30, 0x0E, 0, 0, 0x20, 0x0E, 0]"

definition boot_mem :: "u64 \<Rightarrow> u8" where
  "boot_mem = place 0xE1000 boot_rsdt (place 0xE2000 sample_madt (place 0xE6000 boot_rsdp (place 0xE7010 [0, 0x60, 0x0E]
     (place 0xE3000 [70] (place 0xA0000 [65, 80, 73, 67] (place 0xA0010 [82, 83, 68, 84] (\<lambda>_. 0)))))))"

definition machine_bus :: "((nat \<times> u8 list) \<times> pics) bus" where
  "machine_bus = \<lparr>bus_in = (\<lambda>port (s, c). if port \<in> {0x21, 0xA1} then (fst (bus_in pics_bus port c), (s, c))
       else (let (v, s) = bus_in slow_port port s in (v, (s, c)))),
     bus_out = (\<lambda>port v (s, c). if port \<in> {0x20, 0x21, 0xA0, 0xA1} then (s, bus_out pics_bus port v c)
       else (bus_out slow_port port v s, c))\<rparr>"

lemma machine_bus_ok: "drains machine_bus (fst \<circ> fst) (snd \<circ> fst)" "has_pics machine_bus snd"
proof -
  show "drains machine_bus (fst \<circ> fst) (snd \<circ> fst)"
    by (auto simp: drains_def machine_bus_def slow_port_def COM1_def split: prod.splits)
  show "has_pics machine_bus snd"
    by (auto simp: has_pics_def machine_bus_def pics_bus_def slow_port_def split: prod.splits)
qed

lemma place_outside:
  assumes "unat a < unat p \<or> unat p + length bs \<le> unat a" "unat p + length bs \<le> 2 ^ 64"
  shows "place p bs mem a = mem a"
proof -
  have "\<not> unat (a - p) < length bs"
  proof
    assume less: "unat (a - p) < length bs"
    have "unat a = unat ((a - p) + p)" by simp
    also have "\<dots> = unat (a - p) + unat p" using less assms(2) by (subst unat_add_u64) simp_all
    finally show False using less assms(1) by linarith
  qed
  then show ?thesis by (simp add: place_def)
qed

lemma boot_sizes [simp]: "length boot_rsdp = 20" "length boot_rsdt = 44"
  by (simp_all add: boot_rsdp_def boot_rsdt_def)

lemma boot_mem_zero: "unat a < 0x9F000 \<or> 0x100000 \<le> unat a \<Longrightarrow> boot_mem a = 0"
  unfolding boot_mem_def by (subst place_outside, auto)+

abbreviation sample_free :: "nat set" where
  "sample_free \<equiv> {2..<0x9F} \<union> {0x100..<0x8000}"

lemma sample_memory_given: "memory_given (sample_platform bus mmio) 0xE7000 (k_vmm (sample_kernel d m boot_mem)) sample_free"
proof -
  have disj: "mmap_disjoint sample_mmap"
    by (simp add: mmap_disjoint_def sample_mmap_def usable_def entry_pages_def mmap_types)
  have "card sample_free = card {2..<0x9F :: nat} + card {0x100..<0x8000 :: nat}" by (rule card_Un_disjoint) auto
  then have card: "5143 \<le> card sample_free" by simp
  have "ent (k_vmm (sample_kernel d m boot_mem)) f i = 0" if "f \<in> sample_free" "i < 512" for f i
  proof -
    have "f < 2 ^ 20" using that(1) by auto
    then have "unat (frame_addr f + 8 * of_nat i + of_nat k) = f * 4096 + 8 * i + k" if "k < 8" for k
      using aligned8_offset [OF aligned8_ent, of f i k] unat_ent_addr [of f i] that \<open>i < 512\<close> by simp
    then have "boot_mem (frame_addr f + 8 * of_nat i + of_nat k) = 0" if "k < 8" for k
      using that \<open>f \<in> sample_free\<close> \<open>i < 512\<close> by (intro boot_mem_zero) auto
    then show ?thesis by (simp add: ent_def sample_kernel_def load64_zero)
  qed
  then show ?thesis
    using disj card sample_mmap_ok sample_init_pages boot_map_sample
    by (simp add: memory_given_def sample_platform_def sample_tag sample_highest) (simp add: sample_kernel_def pmm_zero_def)
qed

lemma sample_view:
  assumes "sees 0 sample_free m mem"
  shows "0x9F000 \<le> a \<Longrightarrow> a < 0x100000 \<Longrightarrow> mem a = m a"
    and "0xFFFF80000009F000 \<le> a \<Longrightarrow> a < 0xFFFF800000100000 \<Longrightarrow> mem a = m (a - 0xFFFF800000000000)"
proof -
  have low: "unat (x AND 0xFFF) = unat x mod 4096" for x :: u64
  proof -
    have "x AND 0xFFF = take_bit 12 x" by (simp add: take_bit_eq_mask mask_eq_exp_minus_1)
    then show ?thesis by (simp only:) (subst unsigned_take_bit_eq, simp add: take_bit_eq_mod)
  qed
  have at: "mem y = m x" if x: "0x9F000 \<le> unat x" "unat x < 0x100000" and y: "unat y = unat x \<or> unat y = 0xFFFF800000000000 + unat x" for x y
  proof -
    define j where "j = unat x div 4096"
    have j: "j < 2 ^ 20" "j \<notin> sample_free" using x by (auto simp: j_def)
    have "same_page 0 (of_nat j * PAGE_SIZE) y \<or> same_page 0 (phys_to_higher_half_data 0 (of_nat j * PAGE_SIZE)) y"
      using y range_address(1) [OF j(1)] range_address(2) [OF j(1), of 0] j(1)
      by (auto intro!: same_page_div simp: j_def data_base_def is_la57_enabled_def)
    then have "kernel_page 0 y j" using j(1) by (auto simp: kernel_page_def)
    then have "mem y = m (of_nat j * PAGE_SIZE + (y AND 0xFFF))" using assms j(2) by (simp add: sees_def)
    moreover have "of_nat j * PAGE_SIZE + (y AND 0xFFF) = x"
    proof -
      have "(4096 * 0xFFFF800000000 + unat x) mod 4096 = unat x mod 4096" by (rule mod_mult_self4)
      then have "unat y mod 4096 = unat x mod 4096" using y by auto
      then have "unat (of_nat j * PAGE_SIZE + (y AND 0xFFF) :: u64) = j * 4096 + unat x mod 4096"
        using range_page [OF j(1)] low [of y] j(1) by (subst unat_add_u64) simp_all
      then show ?thesis by (simp add: j_def word_unat_eq_iff)
    qed
    ultimately show ?thesis by simp
  qed
  show "mem a = m a" if "0x9F000 \<le> a" "a < 0x100000"
    using that by (intro at) (simp_all add: word_le_nat_alt word_less_nat_alt)
  show "mem a = m (a - 0xFFFF800000000000)" if *: "0xFFFF80000009F000 \<le> a" "a < 0xFFFF800000100000"
  proof (rule at)
    have "unat (a - 0xFFFF800000000000) = unat a - 0xFFFF800000000000"
      using * by (subst unat_sub) (simp_all add: word_le_nat_alt)
    then show "0x9F000 \<le> unat (a - 0xFFFF800000000000)" "unat (a - 0xFFFF800000000000) < 0x100000"
      "unat a = unat (a - 0xFFFF800000000000) \<or> unat a = 0xFFFF800000000000 + unat (a - 0xFFFF800000000000)"
      using * by (auto simp: word_le_nat_alt word_less_nat_alt)
  qed
qed

lemma sample_view_bytes:
  assumes "sees 0 sample_free m mem" "0x9F000 \<le> unat p" "unat p + n \<le> 0x100000"
  shows "bytes_at mem p n = bytes_at m p n" "bytes_at mem (0xFFFF800000000000 + p) n = bytes_at m p n"
proof -
  have j: "unat (p + of_nat j) = unat p + j" "unat (0xFFFF800000000000 + p + of_nat j) = 0xFFFF800000000000 + unat p + j" if "j < n" for j
  proof -
    have "unat (of_nat j :: u64) = j" using that assms(3) by (intro unat_of_nat_u64) simp
    then show p: "unat (p + of_nat j) = unat p + j" using that assms(3) by (subst unat_add_u64) simp_all
    then show "unat (0xFFFF800000000000 + p + of_nat j) = 0xFFFF800000000000 + unat p + j"
      using that assms(3) unfolding add.assoc by (subst unat_add_u64) simp_all
  qed
  have "mem (p + of_nat j) = m (p + of_nat j)" if "j < n" for j
    using j(1) [OF that] that assms(2,3) by (intro sample_view(1) [OF assms(1)]) (simp_all add: word_le_nat_alt word_less_nat_alt)
  then show "bytes_at mem p n = bytes_at m p n" by (intro nth_equalityI) (simp_all add: nth_bytes_at)
  have "mem (0xFFFF800000000000 + p + of_nat j) = m (p + of_nat j)" if "j < n" for j
    using j(2) [OF that] that assms(2,3) sample_view(2) [OF assms(1), of "0xFFFF800000000000 + p + of_nat j"]
    by (simp add: word_le_nat_alt word_less_nat_alt)
  then show "bytes_at mem (0xFFFF800000000000 + p) n = bytes_at m p n" by (intro nth_equalityI) (simp_all add: nth_bytes_at)
qed

lemmas boot_bytes = boot_mem_def place_def boot_rsdp_def boot_rsdt_def sample_madt_def nth_append

definition boot_recs :: "u64 list" where
  "boot_recs = [0xFFFF8000000E202C, 0xFFFF8000000E2034]"

definition boot_types :: "u64 \<Rightarrow> u8" where
  "boot_types q = (if q = 0xFFFF8000000E202C then 0 else 1)"

lemma boot_contents:
  "bytes_at boot_mem 0xE6000 20 = boot_rsdp" "bytes_at boot_mem 0xE1000 44 = boot_rsdt" "bytes_at boot_mem 0xE2000 64 = sample_madt"
  "bytes_at boot_mem 0xA0000 4 = [65, 80, 73, 67]" "bytes_at boot_mem 0xA0010 4 = [82, 83, 68, 84]"
  "bytes_at boot_mem 0xE1000 4 = [82, 83, 68, 84]" "bytes_at boot_mem 0xE2000 4 = [65, 80, 73, 67]"
  "bytes_at boot_mem 0xE3000 4 = [70, 0, 0, 0]"
proof -
  show "bytes_at boot_mem 0xE6000 20 = boot_rsdp" "bytes_at boot_mem 0xE1000 44 = boot_rsdt" "bytes_at boot_mem 0xE2000 64 = sample_madt"
    "bytes_at boot_mem 0xA0000 4 = [65, 80, 73, 67]" "bytes_at boot_mem 0xA0010 4 = [82, 83, 68, 84]"
    by (simp_all add: boot_mem_def bytes_at_place bytes_at_place_other)
  show "bytes_at boot_mem 0xE1000 4 = [82, 83, 68, 84]" "bytes_at boot_mem 0xE2000 4 = [65, 80, 73, 67]"
    "bytes_at boot_mem 0xE3000 4 = [70, 0, 0, 0]"
    by (simp_all add: bytes_at_map upt_4 boot_bytes)
qed

lemma boot_firmware_ok:
  assumes "sees 0 sample_free boot_mem mem"
  shows "firmware_ok (sample_platform bus mmio) 0xE7000 sample_free boot_recs boot_types mem"
proof -
  note view = sample_view [OF assms] note bytes = sample_view_bytes [OF assms]
  have fields: "pf_cr4 (sample_platform bus mmio) = 0" "pf_tags (sample_platform bus mmio) = sample_tags"
    "pf_RSDT (sample_platform bus mmio) = 0xA0010" "pf_APIC (sample_platform bus mmio) = 0xA0000"
    by (simp_all add: sample_platform_def)
  have q: "load64 mem 0xE7010 = 0xE6000" "rsdp_rsdt_address mem 0xE6000 = 0xE1000" "rsdp_revision mem 0xE6000 = 0"
    by (simp_all add: load64_def upt_8 rsdp_rsdt_address_def rsdp_revision_def load32_def upt_4 view boot_bytes)
  have len: "sdt_length mem 0xFFFF8000000E1000 = 44" "sdt_length mem 0xE2000 = 64" "sdt_length mem 0xFFFF8000000E2000 = 64"
    by (simp_all add: sdt_length_def load32_def upt_4 view boot_bytes)
  have hh: "phys_to_higher_half_data 0 a = 0xFFFF800000000000 + a" for a
    by (simp add: phys_to_higher_half_data_def is_la57_enabled_def HIGHER_HALF_DATA_LV4_def)
  have two: "[0..<2] = [0, 1 :: nat]" by (simp add: upt_rec)
  have "listed_tables mem 0xE6000 0xFFFF8000000E1000 = [ucast (rsdt_entry mem 0xFFFF8000000E1000 0), ucast (rsdt_entry mem 0xFFFF8000000E1000 1)]"
    by (simp add: listed_tables_def len q(3) two)
  then have listed: "listed_tables mem 0xE6000 0xFFFF8000000E1000 = [0xE3000, 0xE2000]"
    by (simp add: rsdt_entry_def sizeof_sdt_header_def load32_def upt_4 view boot_bytes)
  have "bytes_at mem (0xFFFF800000000000 + 0xE1000) 4 = [82, 83, 68, 84]" "bytes_at mem (0xFFFF800000000000 + 0xE1000) 44 = boot_rsdt"
    "bytes_at mem 0xA0010 4 = [82, 83, 68, 84]" "bytes_at mem 0xA0000 4 = [65, 80, 73, 67]"
    "bytes_at mem 0xE3000 4 = [70, 0, 0, 0]" "bytes_at mem 0xE2000 4 = [65, 80, 73, 67]" "bytes_at mem 0xE2000 64 = sample_madt"
    "bytes_at mem 0xE6000 20 = boot_rsdp"
    by (subst bytes; simp add: boot_contents)+
  note b = this
  have root: "table_ok mem 0xA0010 0xFFFF8000000E1000"
    using b(1-3) by (simp add: table_ok_def len) (simp add: boot_rsdt_def sum_list_replicate)
  have first: "\<not> table_ok mem 0xA0000 0xE3000" "table_ok mem 0xA0000 0xE2000"
    using b(4-7) by (simp_all add: table_ok_def len) (simp add: sample_madt_def sum_list_replicate)
  have "madt_table mem 0xFFFF8000000E2040 0xFFFF8000000E2040 []" by (intro madt_end) simp
  then have "madt_table mem 0xFFFF8000000E2040 0xFFFF8000000E2034 [0xFFFF8000000E2034]"
    by (intro madt_next) (simp_all add: view boot_bytes)
  then have table: "madt_table mem 0xFFFF8000000E2040 0xFFFF8000000E202C boot_recs"
    unfolding boot_recs_def by (intro madt_next) (simp_all add: view boot_bytes)
  have types: "\<forall>q \<in> set boot_recs. mem q = boot_types q" by (simp add: boot_recs_def boot_types_def view boot_bytes)
  have away: "\<forall>q \<in> set boot_recs. \<forall>a \<in> {q, q + 1}. \<forall>k \<in> sample_free. unat a div 4096 \<noteq> unat (page_ptr 0 k) div 4096"
  proof (intro ballI)
    fix q a k
    assume "q \<in> set boot_recs" "a \<in> {q, q + 1}" and k: "k \<in> sample_free"
    then have a: "unat a div 4096 = 0xFFFF8000000E2" by (auto simp: boot_recs_def)
    have "k < 2 ^ 31" using k by auto
    then have "unat (page_ptr 0 k) div 4096 = 0xFFFF800000000 + k" by (simp add: unat_page_ptr is_la57_enabled_def)
    with a k show "unat a div 4096 \<noteq> unat (page_ptr 0 k) div 4096" by auto
  qed
  have sum: "sum_list (bytes_at mem 0xE6000 20) = 0" unfolding b(8) by (simp add: boot_rsdp_def sum_list_replicate)
  show ?thesis
    unfolding firmware_ok_def fields
    by (intro conjI types away, rule exI [of _ "0xE7000"], rule exI [of _ "0xE2000"])
      (simp add: Let_def q sample_tag hh sum root len listed first table b(4-6))
qed

theorem kmain_reaches_idle_witness:
  "\<exists>st'. kmain (sample_platform machine_bus ram) 0xE7000
      (sample_kernel ((0, []), \<lparr>master = reset_pic, slave = reset_pic, unused = 0\<rparr>) boot_mem boot_mem) = Some (Running st') \<and>
     interrupts_enabled (k_idt st') \<and> seen 0 (k_vmm st') 0xFFFF8000000E1000 = 82 \<and>
     pointers_at (a_mem (k_acpi st')) (madt_io_apics (k_acpi st')) (madt_io_apics_i (k_acpi st')) = [0xFFFF8000000E2034] \<and>
     masked (snd (k_devices st')) 1"
proof -
  let ?p = "sample_platform machine_bus ram :: ((nat \<times> u8 list) \<times> pics, u64 \<Rightarrow> u8) platform"
    and ?st = "sample_kernel ((0, []), \<lparr>master = reset_pic, slave = reset_pic, unused = 0\<rparr>) boot_mem boot_mem
      :: ((nat \<times> u8 list) \<times> pics, u64 \<Rightarrow> u8) kernel"
  have fields: "pf_bus ?p = machine_bus" "pf_cr4 ?p = 0" "pf_cpuid ?p = genuine_intel" "pf_ecx ?p = 0" "v_mem (k_vmm ?st) = boot_mem"
    "k_slab ?st = slab_state_zero" "idt (k_idt ?st) = replicate 256 zero_gate" "acpi_blank (k_acpi ?st)"
    by (simp_all add: sample_platform_def sample_kernel_def acpi_blank_def acpi_zero_def)
  have "apic_is_available genuine_intel 0" by code_simp
  moreover have "vendor ?p = ''GenuineIntel''" unfolding vendor_def fields genuine_intel_def by code_simp
  moreover have "\<forall>c \<in> set ''GenuineIntel''. c \<noteq> NUL \<and> plain c" by code_simp
  ultimately have cpu: "processor_ok ?p" unfolding processor_ok_def fields by simp
  have few: "\<forall>t. length (filter (\<lambda>q. boot_types q = t) boot_recs) \<le> 32"
    using length_filter_le [of _ boot_recs] by (auto simp: boot_recs_def intro: order_trans)
  have tables: "\<forall>mem. sees (pf_cr4 ?p) sample_free (v_mem (k_vmm ?st)) mem \<longrightarrow> firmware_ok ?p 0xE7000 sample_free boot_recs boot_types mem"
    unfolding fields using boot_firmware_ok by blast
  have bus: "drains (pf_bus ?p) (fst \<circ> fst) (snd \<circ> fst)" "has_pics (pf_bus ?p) snd" unfolding fields by (rule machine_bus_ok)+
  note idle = kmain_reaches_idle [where p = ?p and st = ?st and first_tag = "0xE7000" and free = sample_free and recs = boot_recs
    and types = boot_types and busy = "fst \<circ> fst" and sent = "snd \<circ> fst" and pics_of = snd]
  note up = idle [OF bus(1) sample_console(2) bus(2) sample_console(1,3) sample_memory_given fields(6-8) cpu tables few]
  obtain st' ks where st': "kmain ?p 0xE7000 ?st = Some (Running st')" "interrupts_enabled (k_idt st')"
    "memory_up 0 sample_free boot_mem ks (k_vmm st')" "arrays_hold boot_recs boot_types (k_acpi st')"
    "\<forall>k < 16. masked (snd (k_devices st')) k \<and> line_vector (snd (k_devices st')) k = of_nat (32 + k)"
    using up unfolding fields by (elim exE conjE)
  have "seen 0 (k_vmm st') 0xFFFF8000000E1000 = boot_mem 0xE1000"
    using sample_view(2) [OF memory_up_sees [OF st'(3)], of "0xFFFF8000000E1000"] by simp
  then have "seen 0 (k_vmm st') 0xFFFF8000000E1000 = 82" by (simp add: boot_bytes)
  moreover have "pointers_at (a_mem (k_acpi st')) (madt_io_apics (k_acpi st')) (madt_io_apics_i (k_acpi st')) = [0xFFFF8000000E2034]"
    using st'(4) by (simp add: arrays_hold_def boot_recs_def boot_types_def madt_entry_types)
  moreover have "masked (snd (k_devices st')) 1" using st'(5) by simp
  ultimately show ?thesis using st'(1,2) by blast
qed

end
