(* ===== verification/Framebuffer_Draw.thy ===== *)
theory Framebuffer_Draw
  imports Framebuffer
begin

text \<open>
  Lines and circles: which pixels they paint, and that painting returns. Everything is relative to a
  well-formed screen (\<open>fb_shape\<close>) that contains the figure.
\<close>

section \<open>Lines\<close>

text \<open>
  A walk from one point to another, in steps to the right, down or both, in coordinates relative to the start: it
  stays in the rectangle of the line and within a pixel and a half of it, and ends in the column or the row of the
  end point \<open>(dx, n)\<close>.
\<close>

definition near :: "int \<Rightarrow> int \<Rightarrow> int \<Rightarrow> int \<Rightarrow> bool" where
  "near dx n a b \<longleftrightarrow> 0 \<le> a \<and> a \<le> dx \<and> 0 \<le> b \<and> b \<le> n \<and> \<bar>dx * b - n * a\<bar> \<le> dx + n"

fun walk :: "int \<Rightarrow> int \<Rightarrow> int \<times> int \<Rightarrow> (int \<times> int) list \<Rightarrow> bool" where
  "walk dx n (a, b) [] \<longleftrightarrow> near dx n a b \<and> (a = dx \<or> b = n)"
| "walk dx n (a, b) ((a', b') # ps) \<longleftrightarrow> near dx n a b \<and> (a' - a, b' - b) \<in> {(1, 0), (0, 1), (1, 1)} \<and> walk dx n (a', b') ps"

lemma chk32_small: "\<bar>v\<bar> < 2 ^ 20 \<Longrightarrow> chk32 v = Some v"
  by (intro chk32_Some) (simp add: in_int32_def abs_less_iff)

definition paints :: "fb_state \<Rightarrow> fb_state \<Rightarrow> (int \<times> int) set \<Rightarrow> u32 \<Rightarrow> bool" where
  "paints st st' P c \<longleftrightarrow> repainted st st' \<and>
     (\<forall>x y. on_screen st x y \<longrightarrow> pixel st' x y = (if (x, y) \<in> P then c else pixel st x y))"

lemma paints_empty [simp]: "paints st st {} c"
  by (simp add: paints_def)

lemma paints_pixel:
  assumes "fb_shape st" "on_screen st x y"
  shows "paints st (set_pixel x y c st) {(x, y)} c"
  using assms by (simp add: paints_def repainted_set_pixel pixel_set_pixel)

lemma paints_trans:
  assumes "paints a b P c" "paints b d Q c"
  shows "paints a d (P \<union> Q) c"
proof -
  have f: "repainted a b" "repainted b d" using assms by (simp_all add: paints_def)
  have "on_screen b = on_screen a" using repaintedD(9) [OF f(1)] .
  then show ?thesis using assms repainted_trans [OF f] by (auto simp: paints_def)
qed

lemma line_loop_run:
  assumes "fb_shape st" "0 < dx" "0 < n" "dx < 2 ^ 16" "n < 2 ^ 16" "sx \<in> {1, - 1}" "sy \<in> {1, - 1}"
    and box: "\<And>a b. 0 \<le> a \<Longrightarrow> a \<le> dx \<Longrightarrow> 0 \<le> b \<Longrightarrow> b \<le> n \<Longrightarrow> on_screen st (xs + a * sx) (ys + b * sy)"
    and "0 \<le> a" "a \<le> dx" "0 \<le> b" "b \<le> n" "e = dx * (1 + b) - n * (1 + a)" "- 3 * n \<le> 2 * e" "2 * e \<le> 3 * dx"
  shows "\<exists>st' qs. line_loop (xs + dx * sx) (ys + n * sy) dx (- n) sx sy color e (xs + a * sx) (ys + b * sy) st = Some st' \<and>
    walk dx n (a, b) qs \<and> paints st st' ((\<lambda>(a, b). (xs + a * sx, ys + b * sy)) ` set qs) color"
  using assms
proof (induction "nat (dx - a + (n - b))" arbitrary: a b e st rule: less_induct)
  case less
  note prems = less.prems
  have near: "near dx n a b"
  proof -
    have "dx * b - n * a = e - dx + n" using prems(13) by (simp add: algebra_simps)
    then show ?thesis using prems unfolding near_def by auto
  qed
  show ?case
  proof (cases "a = dx \<or> b = n")
    case True
    then have "line_loop (xs + dx * sx) (ys + n * sy) dx (- n) sx sy color e (xs + a * sx) (ys + b * sy) st = Some st"
      by (subst line_loop.simps) auto
    moreover have "walk dx n (a, b) []" using near True by simp
    ultimately show ?thesis by (intro exI [of _ st] exI [of _ "[]"]) simp
  next
    case False
    then have ab: "a < dx" "b < n" using prems by simp_all
    define a1 e1 where "a1 = (if 2 * e \<ge> - n then a + 1 else a)" and "e1 = (if 2 * e \<ge> - n then e - n else e)"
    define b1 e2 where "b1 = (if 2 * e \<le> dx then b + 1 else b)" and "e2 = (if 2 * e \<le> dx then e1 + dx else e1)"
    have step: "(a1 - a, b1 - b) \<in> {(1, 0), (0, 1), (1, 1)}"
      using prems(2,3) by (auto simp: a1_def b1_def)
    have in_box: "0 \<le> a1" "a1 \<le> dx" "0 \<le> b1" "b1 \<le> n" using prems ab by (auto simp: a1_def b1_def)
    have e2: "e2 = dx * (1 + b1) - n * (1 + a1)"
      using prems(13) by (auto simp: a1_def b1_def e1_def e2_def algebra_simps)
    have bounds: "- 3 * n \<le> 2 * e2" "2 * e2 \<le> 3 * dx"
      using prems by (auto simp: e1_def e2_def)
    have on: "on_screen st (xs + a1 * sx) (ys + b1 * sy)" by (rule prems(8)) (use in_box in auto)
    have sizes: "\<bar>xs + a * sx\<bar> < 2 ^ 16" "\<bar>ys + b * sy\<bar> < 2 ^ 16"
      using prems(8) [OF prems(9,10,11,12)] size_bounds [of st] by (auto simp: on_screen_def)
    have next_x: "xs + a * sx + sx = xs + (a + 1) * sx" and next_y: "ys + b * sy + sy = ys + (b + 1) * sy"
      by (simp_all add: algebra_simps)
    have c1: "chk32 (2 * e) = Some (2 * e)" "chk32 (e + - n) = Some (e - n)"
      "chk32 (e1 + dx) = Some (e1 + dx)"
      using prems(2-5,14,15) by (auto intro!: chk32_small simp: e1_def abs_less_iff)
    have c2: "chk32 (xs + a * sx + sx) = Some (xs + (a + 1) * sx)" "chk32 (ys + b * sy + sy) = Some (ys + (b + 1) * sy)"
      using sizes prems(6,7) unfolding next_x [symmetric] next_y [symmetric]
      by (auto intro!: chk32_small simp: abs_less_iff)
    let ?st = "set_pixel (xs + a1 * sx) (ys + b1 * sy) color st"
    have neq: "xs + a * sx \<noteq> xs + dx * sx" "ys + b * sy \<noteq> ys + n * sy" using ab prems(6,7) by auto
    have "line_loop (xs + dx * sx) (ys + n * sy) dx (- n) sx sy color e (xs + a * sx) (ys + b * sy) st =
        line_loop (xs + dx * sx) (ys + n * sy) dx (- n) sx sy color e2 (xs + a1 * sx) (ys + b1 * sy) ?st"
      using neq c1 c2 draw_pixel_on [OF prems(1) on, of color] unfolding a1_def b1_def e1_def e2_def
      by (subst line_loop.simps) (cases "- n \<le> 2 * e"; cases "2 * e \<le> dx"; simp)
    moreover have "\<exists>st' qs. line_loop (xs + dx * sx) (ys + n * sy) dx (- n) sx sy color e2 (xs + a1 * sx) (ys + b1 * sy) ?st = Some st' \<and>
        walk dx n (a1, b1) qs \<and> paints ?st st' ((\<lambda>(a, b). (xs + a * sx, ys + b * sy)) ` set qs) color"
      by (rule less.hyps) (use prems in_box e2 bounds ab step in auto)
    then obtain st' qs where rest: "line_loop (xs + dx * sx) (ys + n * sy) dx (- n) sx sy color e2 (xs + a1 * sx) (ys + b1 * sy) ?st = Some st'"
      "walk dx n (a1, b1) qs" "paints ?st st' ((\<lambda>(a, b). (xs + a * sx, ys + b * sy)) ` set qs) color" by blast
    moreover have "walk dx n (a, b) ((a1, b1) # qs)" using near step rest(2) by simp
    moreover have "paints st st' ((\<lambda>(a, b). (xs + a * sx, ys + b * sy)) ` set ((a1, b1) # qs)) color"
      using paints_trans [OF paints_pixel [OF prems(1) on] rest(3)] by simp
    ultimately show ?thesis by metis
  qed
qed
lemma paintsD: "paints st st' P c \<Longrightarrow> fb_shape st' = fb_shape st \<and> on_screen st' = on_screen st"
  by (simp add: paints_def repaintedD)

lemma for_up_paints:
  assumes "fb_shape st" "- (2 ^ 16) < a" "b < 2 ^ 16" "\<And>i. a \<le> i \<Longrightarrow> i \<le> b \<Longrightarrow> on_screen st (fst (q i)) (snd (q i))"
  shows "\<exists>st'. for_up (\<lambda>i. framebuffer_draw_pixel (fst (q i)) (snd (q i)) color) a b st = Some st' \<and>
    paints st st' (q ` {a..b}) color"
  using assms
proof (induction "nat (b + 1 - a)" arbitrary: a st)
  case 0
  then show ?case by (subst for_up.simps) simp
next
  case (Suc k)
  then have ab: "a \<le> b" by simp
  let ?f = "\<lambda>i. framebuffer_draw_pixel (fst (q i)) (snd (q i)) color"
  have on: "on_screen st (fst (q a)) (snd (q a))" using Suc.prems(4) ab by simp
  let ?st = "set_pixel (fst (q a)) (snd (q a)) color st"
  have "chk32 (a + 1) = Some (a + 1)" using Suc.prems(2,3) ab by (intro chk32_small) simp
  then have step: "for_up ?f a b st = for_up ?f (a + 1) b ?st"
    using draw_pixel_on [OF Suc.prems(1) on] ab by (subst for_up.simps) simp
  have "\<exists>st'. for_up ?f (a + 1) b ?st = Some st' \<and> paints ?st st' (q ` {a + 1..b}) color"
    by (rule Suc.hyps(1)) (use Suc.hyps(2) Suc.prems in auto)
  then obtain st' where rest: "for_up ?f (a + 1) b ?st = Some st'" "paints ?st st' (q ` {a + 1..b}) color" by blast
  have "{a..b} = insert a {a + 1..b}" using ab by auto
  then have "q ` {a..b} = {(fst (q a), snd (q a))} \<union> q ` {a + 1..b}" by simp
  then show ?case
    using paints_trans [OF paints_pixel [OF Suc.prems(1) on] rest(2)] rest(1) unfolding step by simp
qed

lemma on_screen_between:
  "on_screen st x1 y1 \<Longrightarrow> on_screen st x2 y2 \<Longrightarrow> min x1 x2 \<le> x \<Longrightarrow> x \<le> max x1 x2 \<Longrightarrow> min y1 y2 \<le> y \<Longrightarrow> y \<le> max y1 y2 \<Longrightarrow>
   on_screen st x y"
  by (auto simp: on_screen_def min_def max_def split: if_splits)

lemma straight_line:
  assumes "fb_shape st" "on_screen st x1 y1" "on_screen st x2 y2" "x1 = x2 \<or> y1 = y2"
  shows "\<exists>st'. framebuffer_draw_line x1 y1 x2 y2 color st = Some st' \<and>
    paints st st' {(x, y). min x1 x2 \<le> x \<and> x \<le> max x1 x2 \<and> min y1 y2 \<le> y \<and> y \<le> max y1 y2} color"
proof (cases "x1 = x2")
  case True
  have "\<exists>st'. for_up (\<lambda>y. framebuffer_draw_pixel (fst (x1, y)) (snd (x1, y)) color) (min y1 y2) (max y1 y2) st = Some st' \<and>
      paints st st' ((\<lambda>y. (x1, y)) ` {min y1 y2..max y1 y2}) color"
    using assms True size_bounds [of st]
    by (intro for_up_paints) (auto simp: on_screen_def min_def max_def split: if_splits)
  moreover have "(\<lambda>y. (x1, y)) ` {min y1 y2..max y1 y2} =
      {(x, y). min x1 x2 \<le> x \<and> x \<le> max x1 x2 \<and> min y1 y2 \<le> y \<and> y \<le> max y1 y2}"
    using True by auto
  moreover have "framebuffer_draw_line x1 y1 x2 y2 color st =
      for_up (\<lambda>y. framebuffer_draw_pixel (fst (x1, y)) (snd (x1, y)) color) (min y1 y2) (max y1 y2) st"
    using True by (simp add: framebuffer_draw_line_def min_def max_def)
  ultimately show ?thesis by metis
next
  case False
  then have y: "y1 = y2" using assms(4) by simp
  have "\<exists>st'. for_up (\<lambda>x. framebuffer_draw_pixel (fst (x, y1)) (snd (x, y1)) color) (min x1 x2) (max x1 x2) st = Some st' \<and>
      paints st st' ((\<lambda>x. (x, y1)) ` {min x1 x2..max x1 x2}) color"
    using assms y size_bounds [of st]
    by (intro for_up_paints) (auto simp: on_screen_def min_def max_def split: if_splits)
  moreover have "(\<lambda>x. (x, y1)) ` {min x1 x2..max x1 x2} =
      {(x, y). min x1 x2 \<le> x \<and> x \<le> max x1 x2 \<and> min y1 y2 \<le> y \<and> y \<le> max y1 y2}"
    using y by auto
  moreover have "framebuffer_draw_line x1 y1 x2 y2 color st =
      for_up (\<lambda>x. framebuffer_draw_pixel (fst (x, y1)) (snd (x, y1)) color) (min x1 x2) (max x1 x2) st"
    using y False by (simp add: framebuffer_draw_line_def min_def max_def)
  ultimately show ?thesis by metis
qed

lemma sloped_line:
  assumes "fb_shape st" "on_screen st x1 y1" "on_screen st x2 y2" "x1 \<noteq> x2" "y1 \<noteq> y2"
  shows "\<exists>st' qs. framebuffer_draw_line x1 y1 x2 y2 color st = Some st' \<and> walk \<bar>x2 - x1\<bar> \<bar>y2 - y1\<bar> (0, 0) qs \<and>
    paints st st' ((\<lambda>(a, b). (x1 + a * sgn (x2 - x1), y1 + b * sgn (y2 - y1))) ` set ((0, 0) # qs)) color"
proof -
  let ?dx = "\<bar>x2 - x1\<bar>" and ?n = "\<bar>y2 - y1\<bar>" and ?sx = "sgn (x2 - x1)" and ?sy = "sgn (y2 - y1)"
  have ends: "x1 + ?dx * ?sx = x2" "y1 + ?n * ?sy = y2" by (simp_all add: abs_mult_sgn)
  have pos: "0 < ?dx" "0 < ?n" "?dx < 2 ^ 16" "?n < 2 ^ 16"
    using assms size_bounds [of st] by (auto simp: on_screen_def)
  have signs: "?sx \<in> {1, - 1}" "?sy \<in> {1, - 1}" using assms(4,5) by (auto simp: sgn_if)
  let ?st = "set_pixel x1 y1 color st"
  have box: "on_screen ?st (x1 + a * ?sx) (y1 + b * ?sy)" if "0 \<le> a" "a \<le> ?dx" "0 \<le> b" "b \<le> ?n" for a b
    using on_screen_between [OF assms(2,3), of "x1 + a * ?sx" "y1 + b * ?sy"] that
    by (auto simp: sgn_if min_def max_def split: if_splits)
  have "\<exists>st' qs. line_loop (x1 + ?dx * ?sx) (y1 + ?n * ?sy) ?dx (- ?n) ?sx ?sy color (?dx - ?n) (x1 + 0 * ?sx) (y1 + 0 * ?sy) ?st = Some st' \<and>
      walk ?dx ?n (0, 0) qs \<and> paints ?st st' ((\<lambda>(a, b). (x1 + a * ?sx, y1 + b * ?sy)) ` set qs) color"
  proof (rule line_loop_run [OF _ pos signs box])
    have "- 3 * n \<le> 2 * (m - n) \<and> 2 * (m - n) \<le> 3 * m" if "0 < m" "0 < n" for m n :: int
      using that by auto
    from this [OF pos(1,2)] show "- 3 * ?n \<le> 2 * (?dx - ?n)" "2 * (?dx - ?n) \<le> 3 * ?dx" by blast+
  qed (use assms(1) in simp_all)
  then obtain st' qs where *: "line_loop x2 y2 ?dx (- ?n) ?sx ?sy color (?dx - ?n) x1 y1 ?st = Some st'"
    "walk ?dx ?n (0, 0) qs" "paints ?st st' ((\<lambda>(a, b). (x1 + a * ?sx, y1 + b * ?sy)) ` set qs) color"
    unfolding ends by auto
  have c: "chk32 (x2 - x1) = Some (x2 - x1)" "chk32 (x1 - x2) = Some (x1 - x2)" "chk32 (y2 - y1) = Some (y2 - y1)"
    "chk32 (y1 - y2) = Some (y1 - y2)" "chk32 (?dx + - ?n) = Some (?dx + - ?n)"
    using pos by (auto intro!: chk32_small)
  have "framebuffer_draw_line x1 y1 x2 y2 color st = line_loop x2 y2 ?dx (- ?n) ?sx ?sy color (?dx - ?n) x1 y1 ?st"
  proof -
    have "(if x1 < x2 then map_option (\<lambda>v. (v, 1)) (chk32 (x2 - x1)) else map_option (\<lambda>v. (v, - 1)) (chk32 (x1 - x2))) = Some (?dx, ?sx)"
      using assms(4) c by (simp add: sgn_if)
    moreover have "(if y1 < y2 then map_option (\<lambda>v. (- v, 1)) (chk32 (y2 - y1)) else map_option (\<lambda>v. (- v, - 1)) (chk32 (y1 - y2))) = Some (- ?n, ?sy)"
      using assms(5) c by (simp add: sgn_if)
    ultimately show ?thesis
      using assms(4,5) c(5) draw_pixel_on [OF assms(1,2)] by (simp add: framebuffer_draw_line_def)
  qed
  moreover have "paints st st' ((\<lambda>(a, b). (x1 + a * ?sx, y1 + b * ?sy)) ` set ((0, 0) # qs)) color"
    using paints_trans [OF paints_pixel [OF assms(1,2)] *(3)] by simp
  ultimately show ?thesis using * by metis
qed
section \<open>Circles\<close>

definition octants :: "int \<Rightarrow> int \<Rightarrow> (int \<times> int) set" where
  "octants x y = {(x, y), (- x, y), (x, - y), (- x, - y), (y, x), (- y, x), (y, - x), (- y, - x)}"

definition shifted :: "int \<Rightarrow> int \<Rightarrow> (int \<times> int) set \<Rightarrow> (int \<times> int) set" where
  "shifted xc yc Q = (\<lambda>(u, v). (xc + u, yc + v)) ` Q"

lemma shifted_Un: "shifted xc yc (P \<union> Q) = shifted xc yc P \<union> shifted xc yc Q"
  by (simp add: shifted_def image_Un)

lemma draw_pixel_at_paints:
  assumes "fb_shape st" "on_screen st x y"
  shows "draw_pixel_at x y color st = Some (set_pixel x y color st) \<and> paints st (set_pixel x y color st) {(x, y)} color"
proof -
  have "chk32 x = Some x" "chk32 y = Some y"
    using assms(2) size_bounds [of st] by (auto intro!: chk32_small simp: on_screen_def)
  then show ?thesis
    by (simp add: draw_pixel_at_def draw_pixel_on [OF assms] paints_pixel [OF assms])
qed

text \<open>A list of points drawn one after the other.\<close>

primrec draw_points :: "(int \<times> int) list \<Rightarrow> u32 \<Rightarrow> fb_state \<Rightarrow> fb_state option" where
  "draw_points [] color = Some"
| "draw_points (p # ps) color = (\<lambda>st. Option.bind (draw_pixel_at (fst p) (snd p) color st) (draw_points ps color))"

lemma draw_points_paints:
  "fb_shape st \<Longrightarrow> \<forall>p \<in> set ps. on_screen st (fst p) (snd p) \<Longrightarrow>
   \<exists>st'. draw_points ps color st = Some st' \<and> paints st st' (set ps) color"
proof (induction ps arbitrary: st)
  case (Cons p ps)
  let ?st = "set_pixel (fst p) (snd p) color st"
  have "on_screen st (fst p) (snd p)" using Cons.prems(2) by simp
  note one = draw_pixel_at_paints [OF Cons.prems(1) this, of color]
  obtain st' where st': "draw_points ps color ?st = Some st'" "paints ?st st' (set ps) color"
    using Cons.IH [of ?st] Cons.prems by auto
  have "set (p # ps) = {(fst p, snd p)} \<union> set ps" by simp
  then show ?case
    using one st'(1) paints_trans [OF conjunct2 [OF one] st'(2)] by simp
qed simp

lemma circle_helper_paints:
  assumes "fb_shape st" "\<forall>p \<in> shifted xc yc (octants x y). on_screen st (fst p) (snd p)"
  shows "\<exists>st'. draw_circle_helper xc yc x y color st = Some st' \<and> paints st st' (shifted xc yc (octants x y)) color"
proof -
  let ?ps = "[(xc + x, yc + y), (xc - x, yc + y), (xc + x, yc - y), (xc - x, yc - y),
    (xc + y, yc + x), (xc - y, yc + x), (xc + y, yc - x), (xc - y, yc - x)]"
  have "set ?ps = shifted xc yc (octants x y)" by (auto simp: shifted_def octants_def)
  moreover have "Option.bind m Some = m" for m :: "fb_state option" by (cases m) simp_all
  then have "draw_circle_helper xc yc x y color st = draw_points ?ps color st"
    by (simp add: draw_circle_helper_def)
  ultimately show ?thesis using draw_points_paints [of st ?ps color] assms by metis
qed

text \<open>
  Points of a circle of radius \<open>r\<close>: the set is closed under the symmetries of the square, and every point is at
  most about a pixel and a half inside and half a pixel outside the circle.
\<close>

definition circle_points :: "int \<Rightarrow> (int \<times> int) set \<Rightarrow> bool" where
  "circle_points r Q \<longleftrightarrow> (\<forall>u v. (u, v) \<in> Q \<longrightarrow> (- u, v) \<in> Q \<and> (u, - v) \<in> Q \<and> (v, u) \<in> Q \<and>
     - 3 * r - 4 \<le> u * u + v * v - r * r \<and> u * u + v * v - r * r \<le> r + 12)"

lemma circle_points_Un: "circle_points r P \<Longrightarrow> circle_points r Q \<Longrightarrow> circle_points r (P \<union> Q)"
  by (simp add: circle_points_def)

lemma circle_points_octants:
  assumes "- 3 * r - 4 \<le> x * x + y * y - r * r" "x * x + y * y - r * r \<le> r + 12"
  shows "circle_points r (octants x y)"
  using assms by (auto simp: circle_points_def octants_def algebra_simps)

lemma octants_square: "(u, v) \<in> octants x y \<Longrightarrow> \<bar>x\<bar> \<le> k \<Longrightarrow> \<bar>y\<bar> \<le> k \<Longrightarrow> \<bar>u\<bar> \<le> k \<and> \<bar>v\<bar> \<le> k"
  by (auto simp: octants_def)

text \<open>What the decision variable \<open>d\<close> is, and its bounds.\<close>

definition circle_inv :: "int \<Rightarrow> int \<Rightarrow> int \<Rightarrow> int \<Rightarrow> bool" where
  "circle_inv r x y d \<longleftrightarrow> 0 \<le> x \<and> y \<le> r \<and> x \<le> y + 2 \<and> x \<le> r + 1 \<and> - 1 \<le> y \<and>
     2 * (x * x + y * y - r * r) = d - 8 * x + 6 * y - 4 * r - 3 \<and>
     4 * x - 4 * y + 3 \<le> d \<and> d \<le> 4 * x + 6 + (if 2 \<le> y - x then 0 else if 0 \<le> y - x then 6 else 20)"

lemma circle_inv_start: "0 \<le> r \<Longrightarrow> circle_inv r 0 r (3 - 2 * r)"
  by (simp add: circle_inv_def)

lemma circle_inv_step:
  assumes "circle_inv r x y d" "x \<le> y"
  shows "circle_inv r (x + 1) (if d > 0 then y - 1 else y)
    (if d > 0 then d + 4 * (x + 1 - (y - 1)) + 10 else d + 4 * (x + 1) + 6)"
  using assms by (auto simp: circle_inv_def algebra_simps split: if_splits)

lemma circle_inv_near:
  assumes "circle_inv r x y d"
  shows "- 3 * r - 4 \<le> x * x + y * y - r * r" "x * x + y * y - r * r \<le> r + 12"
  using assms by (auto simp: circle_inv_def split: if_splits)


lemma circle_loop_paints:
  assumes "fb_shape st" "circle_inv r x y d" "r < 2 ^ 15" "circle_points r P"
    and box: "\<And>u v. \<bar>u\<bar> \<le> r + 1 \<Longrightarrow> \<bar>v\<bar> \<le> r + 1 \<Longrightarrow> on_screen st (xc + u) (yc + v)"
  shows "\<exists>st' Q. circle_loop xc yc color x y d st = Some st' \<and> paints st st' (shifted xc yc Q) color \<and>
    circle_points r (P \<union> Q) \<and> (\<forall>(u, v) \<in> Q. \<bar>u\<bar> \<le> r + 1 \<and> \<bar>v\<bar> \<le> r + 1)"
  using assms
proof (induction "nat (y + 1 - x)" arbitrary: x y d st P rule: less_induct)
  case less
  note prems = less.prems
  show ?case
  proof (cases "x \<le> y")
    case False
    then have "circle_loop xc yc color x y d st = Some st" by (subst circle_loop.simps) simp
    then show ?thesis using prems(4) by (intro exI [of _ st] exI [of _ "{}"]) (simp add: shifted_def)
  next
    case True
    define y1 d1 where "y1 = (if d > 0 then y - 1 else y)"
      and "d1 = (if d > 0 then d + 4 * (x + 1 - (y - 1)) + 10 else d + 4 * (x + 1) + 6)"
    have inv: "circle_inv r (x + 1) y1 d1"
      using circle_inv_step [OF prems(2) True] by (simp add: y1_def d1_def)
    have "0 \<le> x" using prems(2) by (simp add: circle_inv_def)
    then have sizes: "\<bar>x + 1\<bar> \<le> r + 1" "\<bar>y1\<bar> \<le> r + 1" using inv by (auto simp: circle_inv_def)
    have "\<bar>d1\<bar> < 2 ^ 20" using inv prems(3) by (auto simp: circle_inv_def abs_less_iff split: if_splits)
    then have c: "chk32 (x + 1) = Some (x + 1)"
      "(if d > 0 then chk32 (d + 4 * (x + 1 - y1) + 10) else chk32 (d + 4 * (x + 1) + 6)) = Some d1"
      using chk32_small [of d1] chk32_small [of "x + 1"] sizes(1) prems(3) by (auto simp: y1_def d1_def)
    have on: "\<forall>p \<in> shifted xc yc (octants (x + 1) y1). on_screen st (fst p) (snd p)"
      using box prems(5) octants_square [OF _ sizes] by (fastforce simp: shifted_def)
    obtain st1 where st1: "draw_circle_helper xc yc (x + 1) y1 color st = Some st1"
      "paints st st1 (shifted xc yc (octants (x + 1) y1)) color"
      using circle_helper_paints [OF prems(1) on] by blast
    have same: "fb_shape st1" "on_screen st1 = on_screen st" using paintsD [OF st1(2)] prems(1) by simp_all
    have "y1 \<le> y" by (simp add: y1_def)
    then have smaller: "nat (y1 + 1 - (x + 1)) < nat (y + 1 - x)" using True by linarith
    have box1: "on_screen st1 (xc + u) (yc + v)" if "\<bar>u\<bar> \<le> r + 1" "\<bar>v\<bar> \<le> r + 1" for u v
      using prems(5) [OF that] same(2) by simp
    have points: "circle_points r (P \<union> octants (x + 1) y1)"
      by (intro circle_points_Un prems(4) circle_points_octants circle_inv_near [OF inv])
    obtain st' Q where rest: "circle_loop xc yc color (x + 1) y1 d1 st1 = Some st'"
      "paints st1 st' (shifted xc yc Q) color" "circle_points r (P \<union> octants (x + 1) y1 \<union> Q)"
      "\<forall>(u, v) \<in> Q. \<bar>u\<bar> \<le> r + 1 \<and> \<bar>v\<bar> \<le> r + 1"
      using less.hyps [OF smaller same(1) inv prems(3) points box1] by blast
    have "circle_loop xc yc color x y d st = Some st'"
      using True c st1(1) rest(1) by (subst circle_loop.simps) (simp add: y1_def [symmetric] Let_def)
    moreover have "paints st st' (shifted xc yc (octants (x + 1) y1 \<union> Q)) color"
      unfolding shifted_Un by (rule paints_trans [OF st1(2) rest(2)])
    moreover have "\<forall>(u, v) \<in> octants (x + 1) y1 \<union> Q. \<bar>u\<bar> \<le> r + 1 \<and> \<bar>v\<bar> \<le> r + 1"
      using octants_square [OF _ sizes] rest(4) by fast
    ultimately show ?thesis using rest(3) by (metis Un_assoc)
  qed
qed

lemma circle_painted:
  assumes "fb_shape st" "0 \<le> r" "\<And>u v. \<bar>u\<bar> \<le> r + 1 \<Longrightarrow> \<bar>v\<bar> \<le> r + 1 \<Longrightarrow> on_screen st (xc + u) (yc + v)"
  shows "\<exists>st' Q. framebuffer_draw_circle xc yc r color st = Some st' \<and> paints st st' (shifted xc yc Q) color \<and>
    circle_points r Q \<and> (0, r) \<in> Q"
proof -
  have "on_screen st (xc + r) yc" "on_screen st (xc + - r) yc"
    using assms(3) [of r 0] assms(3) [of "- r" 0] assms(2) by simp_all
  then have r: "r < 2 ^ 15" using size_bounds [of st] by (simp add: on_screen_def)
  then have c: "chk32 (3 - 2 * r) = Some (3 - 2 * r)" using assms(2) by (intro chk32_small) simp
  have "\<forall>p \<in> shifted xc yc (octants 0 r). on_screen st (fst p) (snd p)"
    using assms(2,3) octants_square [of _ _ 0 r "r + 1"] by (fastforce simp: shifted_def)
  from circle_helper_paints [OF assms(1) this] obtain st1 where st1: "draw_circle_helper xc yc 0 r color st = Some st1"
    "paints st st1 (shifted xc yc (octants 0 r)) color" by blast
  have same: "fb_shape st1" "on_screen st1 = on_screen st" using paintsD [OF st1(2)] assms(1) by simp_all
  have inv: "circle_inv r 0 r (3 - 2 * r)" by (rule circle_inv_start [OF assms(2)])
  have "circle_points r (octants 0 r)" by (intro circle_points_octants circle_inv_near [OF inv])
  then obtain st' Q where rest: "circle_loop xc yc color 0 r (3 - 2 * r) st1 = Some st'"
    "paints st1 st' (shifted xc yc Q) color" "circle_points r (octants 0 r \<union> Q)"
    using circle_loop_paints [OF same(1) inv r, of "octants 0 r" xc yc color] same(2) assms(3) by auto
  have "framebuffer_draw_circle xc yc r color st = Some st'"
    using c st1(1) rest(1) by (simp add: framebuffer_draw_circle_def)
  moreover have "paints st st' (shifted xc yc (octants 0 r \<union> Q)) color"
    unfolding shifted_Un by (rule paints_trans [OF st1(2) rest(2)])
  moreover have "(0, r) \<in> octants 0 r \<union> Q" by (simp add: octants_def)
  ultimately show ?thesis using rest(3) by blast
qed

section \<open>A small screen for the witnesses\<close>

definition draw_sample :: fb_state where
  "draw_sample = \<lparr>ssfn_src = None,
     ssfn_dst = \<lparr>d_ptr = 0x1000, d_w = 16, d_h = 48, d_p = 64, d_x = 0, d_y = 0, d_fg = 0, d_bg = GFX_BLACK\<rparr>,
     pixels = replicate 768 0,
     gfx = \<lparr>fb_addr = 0x1000, fb_width = 16, fb_height = 48, fb_pitch = 64, fb_bpp = 32, glyph_width = 8, glyph_height = 16\<rparr>\<rparr>"

lemma draw_sample_ok: "fb_shape draw_sample" "on_screen draw_sample x y \<longleftrightarrow> 0 \<le> x \<and> x < 16 \<and> 0 \<le> y \<and> y < 48"
  by (simp_all add: fb_shape_def on_screen_def draw_sample_def width_def height_def stride_def)

section \<open>Properties\<close>

text \<open>
  C25: a line between two points of the screen returns and paints nothing else. A horizontal or vertical line is exactly the
  pixels between its ends. Any other line is a walk of single steps from the start, never further than
  \<open>dx + dy\<close> from the ideal line in the measure \<open>|dx * b - dy * a|\<close> (about one and a half
  pixels), that stops where it reaches the column or the row of the end, which need not be the end.
\<close>

theorem framebuffer_draw_line_correct:
  assumes "fb_shape st" "on_screen st x1 y1" "on_screen st x2 y2"
  shows "\<exists>st' P. framebuffer_draw_line x1 y1 x2 y2 color st = Some st' \<and> paints st st' P color \<and>
    (if x1 = x2 \<or> y1 = y2 then P = {(x, y). min x1 x2 \<le> x \<and> x \<le> max x1 x2 \<and> min y1 y2 \<le> y \<and> y \<le> max y1 y2}
     else \<exists>qs. walk \<bar>x2 - x1\<bar> \<bar>y2 - y1\<bar> (0, 0) qs \<and>
       P = (\<lambda>(a, b). (x1 + a * sgn (x2 - x1), y1 + b * sgn (y2 - y1))) ` set ((0, 0) # qs))"
proof (cases "x1 = x2 \<or> y1 = y2")
  case True
  then show ?thesis using straight_line [OF assms True, of color] by auto
next
  case False
  then obtain st' qs where *: "framebuffer_draw_line x1 y1 x2 y2 color st = Some st'" "walk \<bar>x2 - x1\<bar> \<bar>y2 - y1\<bar> (0, 0) qs"
    "paints st st' ((\<lambda>(a, b). (x1 + a * sgn (x2 - x1), y1 + b * sgn (y2 - y1))) ` set ((0, 0) # qs)) color"
    using sloped_line [OF assms, of color] by blast
  show ?thesis
    unfolding if_not_P [OF False]
    by (rule exI [of _ st'], rule exI, intro conjI, rule *(1), rule *(3), rule exI [of _ qs], intro conjI *(2) refl)
qed

theorem framebuffer_draw_line_correct_witness:
  "\<exists>st' P. framebuffer_draw_line 0 0 4 1 7 draw_sample = Some st' \<and> paints draw_sample st' P 7"
proof -
  have "on_screen draw_sample 0 0" "on_screen draw_sample 4 1" by (simp_all add: draw_sample_ok)
  then show ?thesis using framebuffer_draw_line_correct [OF draw_sample_ok(1), of 0 0 4 1 7] by metis
qed



end
