(* ===== verification/Framebuffer_Cells.thy ===== *)
theory Framebuffer_Cells
  imports Framebuffer_Text
begin

text \<open>
  Text with a font of whole cells (8 by 16 pixels) on a screen of whole cells: where the cursor goes, for
  every character, backspaces included.
\<close>

section \<open>Fonts and screens of whole cells\<close>

definition glyph_advance :: "font \<Rightarrow> u32 \<Rightarrow> (u8 \<times> u8) option" where
  "glyph_advance f u = map_option (\<lambda>chr. (f (chr + 4), f (chr + 5))) (ssfn_find f u (ucast (characters_offs f)) 0)"

definition cell_font :: "font \<Rightarrow> bool" where
  "cell_font f \<longleftrightarrow> font_magic f \<and> f 11 = 16 \<and> glyph_advance f 32 = Some (8, 0) \<and>
     (\<forall>u a b. glyph_advance f u = Some (a, b) \<longrightarrow> uint a mod 8 = 0 \<and> b = 0)"

definition text_ok :: "fb_state \<Rightarrow> bool" where
  "text_ok st \<longleftrightarrow> fb_ok st \<and> (\<exists>f. ssfn_src st = Some f \<and> cell_font f) \<and> d_ptr (ssfn_dst st) \<noteq> NULL \<and>
     width st mod 8 = 0 \<and> height st mod 16 = 0 \<and> d_x (ssfn_dst st) mod 8 = 0 \<and> d_y (ssfn_dst st) mod 16 = 0"

definition cursor :: "fb_state \<Rightarrow> int \<times> int" where
  "cursor st = (d_x (ssfn_dst st), d_y (ssfn_dst st))"

text \<open>The cell in which the next character is drawn: wrapped at the right edge, scrolled at the lower one.\<close>

definition next_cell :: "fb_state \<Rightarrow> int \<times> int" where
  "next_cell st =
     (let (x, y) = (if d_x (ssfn_dst st) + 8 > width st then (0, d_y (ssfn_dst st) + 16) else cursor st)
      in if y \<ge> height st then (0, height st - 16) else (x, y))"

lemma text_ok_moved:
  assumes "text_ok st" "fb_ok st'" "same_frame st st'" "d_x (ssfn_dst st') mod 8 = 0" "d_y (ssfn_dst st') mod 16 = 0"
  shows "text_ok st'"
  using assms same_frame_shape [OF assms(3)] by (auto simp: text_ok_def same_frame_def)

lemma place_cursor_cell:
  assumes "text_ok st"
  shows "\<exists>s. place_cursor (d_x (ssfn_dst st)) (d_y (ssfn_dst st)) st = Some s \<and> text_ok s \<and> same_frame st s \<and>
    cursor s = next_cell st \<and> d_x (ssfn_dst s) \<le> width st - 8 \<and> d_y (ssfn_dst s) \<le> height st - 16"
proof -
  let ?x = "d_x (ssfn_dst st)" and ?y = "d_y (ssfn_dst st)"
  have ok: "fb_set st" "fb_ok st" "0 \<le> ?x" "?x \<le> width st + 255" "0 \<le> ?y" "?y \<le> height st + 255"
    using assms by (simp_all add: text_ok_def fb_ok_def)
  obtain s where s: "place_cursor ?x ?y st = Some s" "fb_ok s" "same_frame st s"
    "d_x (ssfn_dst s) \<le> width st - 8" "d_y (ssfn_dst s) < height st"
    using place_cursor_ok [OF ok(1,3-6)] by blast
  note set = ok(1)[unfolded fb_set_def]
  have small: "to_int16 ?x = ?x" "to_int16 ?y = ?y" "to_int16 (?y + 16) = ?y + 16" "to_int16 0 = 0"
    "to_int16 (height st - 16) = height st - 16"
    using ok set by (auto intro!: to_int16_small)
  have pos: "cursor s = next_cell st"
  proof -
    let ?s1 = "set_cursor ?x ?y st"
    define s2 where "s2 = (if ?x + 8 > width st then set_cursor 0 (?y + 16) ?s1 else ?s1)"
    have eq: "place_cursor ?x ?y st = (if height st \<le> d_y (ssfn_dst s2)
        then framebuffer_move_one_row_up (set_cursor 0 (height st - 16) s2) else Some s2)"
      using set small by (simp add: place_cursor_def s2_def Let_def width_def height_def)
    have s2: "cursor s2 = (if ?x + 8 > width st then (0, ?y + 16) else (?x, ?y))"
      using small by (simp add: s2_def cursor_def)
    show ?thesis
    proof (cases "height st \<le> d_y (ssfn_dst s2)")
      case True
      let ?s3 = "set_cursor 0 (height st - 16) s2"
      have "fb_shape ?s3" "glyph_height (gfx ?s3) = 16"
        using set by (simp_all add: s2_def set_cursor_def fb_shape_def width_def height_def stride_def)
      from move_up [OF this] have "repainted ?s3 s" using s(1) eq True by auto
      then show ?thesis
        using True s2 small repaintedD(3) [of ?s3 s]
        by (auto simp: next_cell_def cursor_def Let_def split: if_splits prod.splits)
    next
      case False
      then show ?thesis
        using s(1) eq s2 by (auto simp: next_cell_def cursor_def Let_def split: if_splits prod.splits)
    qed
  qed
  have cells: "width st mod 8 = 0" "height st mod 16 = 0" "?x mod 8 = 0" "?y mod 16 = 0"
    using assms by (simp_all add: text_ok_def)
  then have "(height st - 16) mod 16 = 0" "(?y + 16) mod 16 = 0" by simp_all
  then have "fst (next_cell st) mod 8 = 0" "snd (next_cell st) mod 16 = 0"
    using cells by (simp_all add: next_cell_def cursor_def)
  then have grid: "d_x (ssfn_dst s) mod 8 = 0" "d_y (ssfn_dst s) mod 16 = 0"
    unfolding pos [symmetric] cursor_def by simp_all
  have line: "d_y (ssfn_dst s) \<le> height st - 16" using grid(2) s(5) cells(2) by presburger
  show ?thesis
    by (intro exI [of _ s] conjI s(1) s(3) s(4) pos line text_ok_moved [OF assms s(2,3) grid])
qed

text \<open>The renderer: a glyph advances by its cells, a newline goes to the next line.\<close>

lemma putc_cell:
  assumes "text_ok st" "d_x (ssfn_dst st) \<le> width st - 8" "d_y (ssfn_dst st) \<le> height st - 16"
  shows "\<exists>st'. putc u st = Some st' \<and> text_ok st' \<and> same_frame st st' \<and>
    (u = 10 \<longrightarrow> cursor st' = (0, d_y (ssfn_dst st) + 16)) \<and>
    (u \<noteq> 10 \<longrightarrow> d_y (ssfn_dst st') = d_y (ssfn_dst st)) \<and>
    (\<forall>f. ssfn_src st = Some f \<longrightarrow> glyph_advance f u = Some (8, 0) \<longrightarrow> u \<noteq> 10 \<longrightarrow> u \<noteq> 13 \<longrightarrow>
       cursor st' = (d_x (ssfn_dst st) + 8, d_y (ssfn_dst st)))"
proof -
  let ?d = "ssfn_dst st"
  obtain f where f: "ssfn_src st = Some f" "cell_font f" using assms(1) by (auto simp: text_ok_def)
  have ok: "fb_ok st" "fb_set st" "d_ptr ?d \<noteq> NULL" "d_x ?d mod 8 = 0" "d_y ?d mod 16 = 0" "0 \<le> d_x ?d" "0 \<le> d_y ?d"
    using assms(1) by (auto simp: text_ok_def fb_ok_def)
  have dims: "width st < 32000" "height st < 32000" "d_p ?d \<noteq> 0"
    using ok(2) by (auto simp: fb_set_def fb_shape_def stride_def)
  obtain st' where st': "putc u st = Some st'" "fb_ok st'" "same_frame st st'"
    using putc_ok [OF ok(1), of u] assms(2,3) by auto
  have advance: "to_int16 (d_x ?d + uint b) = d_x ?d + uint b" "to_int16 (d_y ?d + 16) = d_y ?d + 16"
      "to_int16 (d_y ?d) = d_y ?d" for b :: u8
    using ok dims assms(2,3) uint_lt2p [of b] by (auto intro!: to_int16_small)
  have magic: "font_magic f" "uint (f 11) = 16" using f(2) by (auto simp: cell_font_def)
  have down: "(d_y ?d + 16) mod 16 = 0" using ok(5) by simp
  have run: "ssfn_putc u st = Some (r, st') \<Longrightarrow> putc u st = Some st'" for r by (simp add: putc_def)
  consider "u = 13" | "u = 10" | "u \<noteq> 13" "u \<noteq> 10" "ssfn_find f u (ucast (characters_offs f)) 0 = None"
    | chr where "u \<noteq> 13" "u \<noteq> 10" "ssfn_find f u (ucast (characters_offs f)) 0 = Some chr" by fastforce
  then have moved: "d_x (ssfn_dst st') mod 8 = 0 \<and> d_y (ssfn_dst st') mod 16 = 0 \<and>
    (u = 10 \<longrightarrow> cursor st' = (0, d_y ?d + 16)) \<and> (u \<noteq> 10 \<longrightarrow> d_y (ssfn_dst st') = d_y ?d) \<and>
    (glyph_advance f u = Some (8, 0) \<longrightarrow> u \<noteq> 10 \<longrightarrow> u \<noteq> 13 \<longrightarrow> cursor st' = (d_x ?d + 8, d_y ?d))"
  proof cases
    case 1
    then have "st' = st\<lparr>ssfn_dst := ?d\<lparr>d_x := 0\<rparr>\<rparr>"
      using st'(1) f(1) magic ok(3) dims(3) by (simp add: putc_def ssfn_putc_def Let_def)
    then show ?thesis using 1 ok by simp
  next
    case 2
    then have "st' = st\<lparr>ssfn_dst := ?d\<lparr>d_x := 0, d_y := d_y ?d + 16\<rparr>\<rparr>"
      using st'(1) f(1) magic ok(3) dims(3) advance by (simp add: putc_def ssfn_putc_def Let_def font_height_def)
    then show ?thesis using 2 down by (simp add: cursor_def)
  next
    case 3
    then have "st' = st" using st'(1) f(1) magic ok(3) dims(3) by (simp add: putc_def ssfn_putc_def Let_def)
    then show ?thesis using 3 ok by (simp add: glyph_advance_def)
  next
    case 4
    obtain a b where ab: "glyph_advance f u = Some (a, b)" "f (chr + 4) = a" "f (chr + 5) = b"
      using 4(3) by (simp add: glyph_advance_def)
    then have grid: "uint a mod 8 = 0" "b = 0" using f(2) unfolding cell_font_def by blast+
    obtain ps where "st' = st\<lparr>pixels := ps, ssfn_dst := ?d\<lparr>d_x := d_x ?d + uint a, d_y := d_y ?d\<rparr>\<rparr>"
      using st'(1) f(1) magic ok(3) dims(3) advance 4 ab(2,3) grid(2)
      by (auto simp: putc_def ssfn_putc_def Let_def split: Option.bind_splits)
    moreover have "(d_x ?d + uint a) mod 8 = 0" using ok(4) grid(1) by presburger
    ultimately show ?thesis using ok(5) ab(1) 4 by (simp add: cursor_def)
  qed
  have "text_ok st'" using text_ok_moved [OF assms(1) st'(2,3)] moved by blast
  then show ?thesis using st' moved f(1) by auto
qed

section \<open>Characters and strings\<close>

text \<open>The cell before a cell; the first one has none.\<close>

definition cell_before :: "fb_state \<Rightarrow> int \<times> int \<Rightarrow> int \<times> int" where
  "cell_before st p =
     (let (x, y) = p in if x = 0 then (if y = 0 then (0, 0) else (width st - 8, y - 16)) else (x - 8, y))"

lemma print_backspace_cell:
  assumes "text_ok st" "d_x (ssfn_dst st) \<le> width st - 8" "d_y (ssfn_dst st) \<le> height st - 16"
  shows "\<exists>st'. print_backspace st = Some st' \<and> text_ok st' \<and> same_frame st st' \<and> cursor st' = cell_before st (cursor st)"
proof -
  let ?d = "ssfn_dst st"
  have ok: "fb_ok st" "fb_set st" "d_x ?d mod 8 = 0" "d_y ?d mod 16 = 0" "0 \<le> d_x ?d" "0 \<le> d_y ?d"
      "width st mod 8 = 0"
    using assms(1) by (auto simp: text_ok_def fb_ok_def)
  have dims: "8 \<le> width st" "width st < 32000" "16 \<le> height st" "height st < 32000"
    "glyph_width (gfx st) = 8" "glyph_height (gfx st) = 16"
    using ok(2) by (auto simp: fb_set_def)
  obtain f where f: "ssfn_src st = Some f" "glyph_advance f 32 = Some (8, 0)"
    using assms(1) by (auto simp: text_ok_def cell_font_def)
  text \<open>A space in the cell \<open>(x, y)\<close> before the cursor.\<close>
  have space: "\<exists>st'. Option.bind (putc 32 (set_cursor x y st)) (\<lambda>st. Some (set_cursor (d_x (ssfn_dst st) - glyph_width (gfx st0)) (d_y (ssfn_dst st)) st)) =
      Some st' \<and> text_ok st' \<and> same_frame st st' \<and> cursor st' = (x, y)"
    if xy: "0 \<le> x" "x \<le> width st - 8" "x mod 8 = 0" "0 \<le> y" "y \<le> height st - 16" "y mod 16 = 0"
      and g: "glyph_width (gfx st0) = 8" for x y st0
  proof -
    let ?s = "set_cursor x y st"
    have small: "to_int16 x = x" "to_int16 y = y" using xy dims by (auto intro!: to_int16_small)
    have "fb_ok ?s" using ok(2) xy small by (simp add: fb_ok_def)
    then have s: "text_ok ?s" using text_ok_moved [OF assms(1) _ set_cursor_frame(2)] xy small by simp
    obtain s' where s': "putc 32 ?s = Some s'" "text_ok s'" "same_frame ?s s'" "cursor s' = (x + 8, y)"
      using putc_cell [OF s, of 32] xy small f same_frame_def [of st ?s] by auto
    have frame: "same_frame st s'" using same_frame_trans [OF set_cursor_frame(2) s'(3)] .
    let ?t = "set_cursor x y s'"
    have "fb_ok s'" using s'(2) by (simp add: text_ok_def)
    then have "fb_ok ?t" using xy small same_frame_shape [OF frame] by (simp add: fb_ok_def)
    then have "text_ok ?t" using text_ok_moved [OF s'(2) _ set_cursor_frame(2)] xy small by simp
    moreover have "same_frame st ?t" using same_frame_trans [OF frame set_cursor_frame(2)] .
    ultimately show ?thesis using s'(1,4) g small by (simp add: cursor_def)
  qed
  show ?thesis
  proof (cases "d_x ?d = 0")
    case True
    show ?thesis
    proof (cases "d_y ?d = 0")
      case True
      then show ?thesis using \<open>d_x ?d = 0\<close> assms(1)
        by (simp add: print_backspace_def cell_before_def cursor_def)
    next
      case False
      have "(width st - 8) mod 8 = 0" "(d_y ?d - 16) mod 16 = 0" "0 \<le> d_y ?d - 16" using ok(4,6,7) False by presburger+
      then show ?thesis
        using space [of "width st - 8" "d_y ?d - 16" st] True False dims assms(3)
        by (simp add: print_backspace_def cell_before_def cursor_def Let_def width_def)
    qed
  next
    case False
    have "(d_x ?d - 8) mod 8 = 0" "0 \<le> d_x ?d - 8" using ok(3,5) False by presburger+
    then show ?thesis
      using space [of "d_x ?d - 8" "d_y ?d" st] False dims assms(2,3) ok(4,6)
      by (simp add: print_backspace_def cell_before_def cursor_def Let_def)
  qed
qed

text \<open>A character that takes one cell.\<close>

definition one_cell :: "fb_state \<Rightarrow> u32 \<Rightarrow> bool" where
  "one_cell st u \<longleftrightarrow> u \<notin> {8, 9, 10, 13} \<and> (\<forall>f. ssfn_src st = Some f \<longrightarrow> glyph_advance f u = Some (8, 0))"

lemma print_char_cell:
  assumes "text_ok st" "u \<noteq> 9 \<or> (\<forall>s. text_ok s \<longrightarrow> (\<exists>s'. tab s = Some s' \<and> text_ok s' \<and> same_frame s s'))"
  shows "\<exists>st'. print_char_with tab u (d_x (ssfn_dst st)) (d_y (ssfn_dst st)) fg st = Some st' \<and> text_ok st' \<and>
    same_frame st st' \<and> (u = 8 \<longrightarrow> cursor st' = cell_before st (next_cell st)) \<and>
    (one_cell st u \<longrightarrow> cursor st' = (fst (next_cell st) + 8, snd (next_cell st))) \<and>
    (u = 10 \<longrightarrow> cursor st' = (0, snd (next_cell st) + 16))"
proof -
  obtain s where s: "place_cursor (d_x (ssfn_dst st)) (d_y (ssfn_dst st)) st = Some s" "text_ok s" "same_frame st s"
    "cursor s = next_cell st" "d_x (ssfn_dst s) \<le> width st - 8" "d_y (ssfn_dst s) \<le> height st - 16"
    using place_cursor_cell [OF assms(1)] by blast
  note dims = same_frame_shape [OF s(3)]
  have xy: "d_x (ssfn_dst s) \<le> width s - 8" "d_y (ssfn_dst s) \<le> height s - 16"
    "d_x (ssfn_dst s) = fst (next_cell st)" "d_y (ssfn_dst s) = snd (next_cell st)"
    using s(5,6) dims by (simp_all flip: s(4) add: cursor_def)
  consider "u = 9" | "u = 8" | "u \<noteq> 8" "u \<noteq> 9" by blast
  then show ?thesis
  proof cases
    case 1
    then obtain s' where "tab s = Some s'" "text_ok s'" "same_frame s s'" using assms(2) s(2) by blast
    then show ?thesis
      using 1 s(1) same_frame_trans [OF s(3)] by (auto simp: print_char_with_def one_cell_def)
  next
    case 2
    obtain s' where "print_backspace s = Some s'" "text_ok s'" "same_frame s s'" "cursor s' = cell_before s (cursor s)"
      using print_backspace_cell [OF s(2) xy(1,2)] by blast
    moreover have same: "cell_before s = cell_before st" using dims by (simp add: cell_before_def fun_eq_iff)
    ultimately show ?thesis
      using 2 s(1,4) same_frame_trans [OF s(3)] same by (auto simp: print_char_with_def one_cell_def)
  next
    case 3
    let ?s = "s\<lparr>ssfn_dst := (ssfn_dst s)\<lparr>d_fg := fg\<rparr>\<rparr>"
    have frame: "same_frame s ?s" by (simp add: same_frame_def)
    have "fb_ok ?s" using s(2)
      by (simp add: text_ok_def fb_ok_def fb_set_def fb_shape_def width_def height_def stride_def)
    then have ok: "text_ok ?s" using text_ok_moved [OF s(2) _ frame] s(2) by (simp add: text_ok_def)
    have "d_x (ssfn_dst ?s) \<le> width ?s - 8" "d_y (ssfn_dst ?s) \<le> height ?s - 16"
      using xy(1,2) by (simp_all add: width_def height_def)
    from putc_cell [OF ok this, of u] obtain s' where s': "putc u ?s = Some s'" "text_ok s'" "same_frame ?s s'"
      "u = 10 \<longrightarrow> cursor s' = (0, snd (next_cell st) + 16)"
      "\<forall>f. ssfn_src st = Some f \<longrightarrow> glyph_advance f u = Some (8, 0) \<longrightarrow> u \<noteq> 10 \<longrightarrow> u \<noteq> 13 \<longrightarrow>
         cursor s' = (fst (next_cell st) + 8, snd (next_cell st))"
      using xy(3,4) s(3) by (auto simp: same_frame_def)
    obtain f where "ssfn_src st = Some f" using assms(1) by (auto simp: text_ok_def)
    then show ?thesis
      using 3 s(1) s' same_frame_trans [OF s(3) same_frame_trans [OF frame s'(3)]]
      by (auto simp: print_char_with_def one_cell_def)
  qed
qed

lemma print_string_cells:
  assumes "code_points s = Some cs" "text_ok st"
    and "9 \<notin> set cs \<or> (\<forall>s. text_ok s \<longrightarrow> (\<exists>s'. tab s = Some s' \<and> text_ok s' \<and> same_frame s s'))"
  shows "\<exists>st'. print_string_with tab s fg st = Some st' \<and> text_ok st' \<and> same_frame st st'"
  using assms
proof (induction cs arbitrary: s st)
  case Nil
  then have "s = []" by (subst (asm) code_points.simps) (auto split: if_splits Option.bind_splits)
  with Nil show ?case by (subst print_string_with.simps) simp
next
  case (Cons c cs)
  obtain t where t: "s \<noteq> []" "ssfn_utf8 s = Some (c, t)" "code_points t = Some cs"
    using Cons.prems(1) by (subst (asm) code_points.simps) (auto split: if_splits Option.bind_splits)
  obtain s1 where s1: "print_char_with tab c (d_x (ssfn_dst st)) (d_y (ssfn_dst st)) fg st = Some s1" "text_ok s1" "same_frame st s1"
    using print_char_cell [OF Cons.prems(2), of c tab fg] Cons.prems(3) by auto
  obtain st' where "print_string_with tab t fg s1 = Some st'" "text_ok st'" "same_frame s1 st'"
    using Cons.IH [OF t(3) s1(2)] Cons.prems(3) by auto
  then show ?case
    using t s1 same_frame_trans [OF s1(3)] by (subst print_string_with.simps) auto
qed

lemma print_tab_cells: "text_ok st \<Longrightarrow> \<exists>st'. print_tab fg st = Some st' \<and> text_ok st' \<and> same_frame st st'"
proof -
  assume ok: "text_ok st"
  have cs: "code_points '' '' = Some [32]"
    by (subst code_points.simps, subst code_points.simps) (simp add: ssfn_utf8_def str_byte_def)
  have "\<exists>s'. for_range (\<lambda>i. print_string_with (\<lambda>st. None) '' '' fg) 0 4 st = Some s' \<and> (text_ok s' \<and> same_frame st s')"
  proof (rule for_range_paint)
    show "text_ok st \<and> same_frame st st" using ok by simp
  next
    fix s
    assume "text_ok s \<and> same_frame st s"
    then show "\<exists>s'. print_string_with (\<lambda>st. None) '' '' fg s = Some s' \<and> (text_ok s' \<and> same_frame st s')"
      using print_string_cells [OF cs, of s "\<lambda>st. None" fg] same_frame_trans by auto
  qed
  then show ?thesis unfolding print_tab_def by simp
qed

text \<open>A string of one character.\<close>

lemma print_one:
  assumes "text_ok st" "code_points s = Some [u]"
  shows "\<exists>st'. framebuffer_print_string s fg st = Some st' \<and> text_ok st' \<and>
    same_frame st st' \<and> (u = 8 \<longrightarrow> cursor st' = cell_before st (next_cell st)) \<and>
    (one_cell st u \<longrightarrow> cursor st' = (fst (next_cell st) + 8, snd (next_cell st))) \<and>
    (u = 10 \<longrightarrow> cursor st' = (0, snd (next_cell st) + 16))"
proof -
  obtain t where t: "s \<noteq> []" "ssfn_utf8 s = Some (u, t)" "code_points t = Some []"
    using assms(2) by (subst (asm) code_points.simps) (auto split: if_splits Option.bind_splits)
  have "t = []" using t(3) by (subst (asm) code_points.simps) (auto split: if_splits Option.bind_splits)
  have "print_string_with (print_tab fg) [] fg = Some" by (rule ext) (subst print_string_with.simps, simp)
  then have "framebuffer_print_string s fg st =
      print_char_with (print_tab fg) u (d_x (ssfn_dst st)) (d_y (ssfn_dst st)) fg st"
    using t(1,2) \<open>t = []\<close> by (simp add: framebuffer_print_string_def print_string_with.simps [of _ s])
  then show ?thesis
    using print_char_cell [OF assms(1), of u "print_tab fg" fg] print_tab_cells by simp
qed

text \<open>Strings that fit in the line.\<close>

lemma next_cell_inside:
  "cursor st = (x, y) \<Longrightarrow> x + 8 \<le> width st \<Longrightarrow> y < height st \<Longrightarrow> next_cell st = (x, y)"
  by (simp add: next_cell_def cursor_def)

lemma print_fitting:
  assumes "text_ok st" "code_points s = Some (u # us)" "\<forall>c \<in> set (u # us). one_cell st c" "next_cell st = (x, y)"
    and "x + 8 * int (length (u # us)) \<le> width st"
  shows "\<exists>st'. framebuffer_print_string s fg st = Some st' \<and> text_ok st' \<and> same_frame st st' \<and>
    cursor st' = (x + 8 * int (length (u # us)), y)"
  using assms
proof (induction us arbitrary: u s st x)
  case Nil
  then show ?case using print_one [OF Nil.prems(1,2)] by auto
next
  case (Cons u' us)
  obtain t where t: "s \<noteq> []" "ssfn_utf8 s = Some (u, t)" "code_points t = Some (u' # us)"
    using Cons.prems(2) by (subst (asm) code_points.simps) (auto split: if_splits Option.bind_splits)
  obtain s1 where s1: "print_char_with (print_tab fg) u (d_x (ssfn_dst st)) (d_y (ssfn_dst st)) fg st = Some s1"
    "text_ok s1" "same_frame st s1" "cursor s1 = (x + 8, y)"
    using print_char_cell [OF Cons.prems(1), of u "print_tab fg" fg] print_tab_cells Cons.prems(3,4) by auto
  note dims = same_frame_shape [OF s1(3)]
  have y: "y < height st" using Cons.prems(1,4)
    by (auto simp: next_cell_def Let_def text_ok_def fb_ok_def fb_set_def split: if_splits prod.splits)
  have "next_cell s1 = (x + 8, y)" using next_cell_inside [OF s1(4)] Cons.prems(5) dims y by simp
  moreover have "\<forall>c \<in> set (u' # us). one_cell s1 c"
    using Cons.prems(3) s1(3) by (simp add: one_cell_def same_frame_def)
  ultimately obtain st' where "framebuffer_print_string t fg s1 = Some st'" "text_ok st'" "same_frame s1 st'"
    "cursor st' = (x + 8 + 8 * int (length (u' # us)), y)"
    using Cons.IH [OF s1(2) t(3)] Cons.prems(5) dims by auto
  then show ?case
    using t s1 same_frame_trans [OF s1(3)]
    by (auto simp: framebuffer_print_string_def print_string_with.simps [of _ s])
qed

end
