(* ===== verification/Shell.thy ===== *)
theory Shell
  imports Console Framebuffer_Cells
begin

text \<open>
  \<open>shell/shell_screen.c\<close>: the prompt of the shell and the echo of the keys. The state is that of the print
  functions and the framebuffer, with the barrier that the cursor is not to be moved back over.
\<close>

section \<open>The shell\<close>

record shell_barrier =
  shell_prompt_x_barrier :: int
  shell_prompt_y_barrier :: int

type_synonym shell = "shell_barrier \<times> log_buffers \<times> fb_state"

definition prompt_top :: string where
  "prompt_top = (NL @ map char_of [0xE2, 0x94, 0x8C, 0xE2, 0x94, 0x80 :: nat] @ '' KnutOS'') @ NL"

definition prompt_bottom :: string where
  "prompt_bottom = map char_of [0xE2, 0x94, 0x94, 0xE2, 0x86, 0x92, 0x20 :: nat]"

definition shell_prompt :: "shell \<Rightarrow> shell option" where
  "shell_prompt st = do {
     let (sh, st) = st;
     st \<leftarrow> printk framebuffer_print_string GFX_PURPLE prompt_top [] st;
     st \<leftarrow> printk framebuffer_print_string GFX_PURPLE prompt_bottom [] st;
     Some (\<lparr>shell_prompt_x_barrier = d_x (ssfn_dst (snd st)), shell_prompt_y_barrier = d_y (ssfn_dst (snd st))\<rparr>, st)
   }"

text \<open>The character is promoted to \<open>int\<close> when it is passed to \<open>printk\<close>.\<close>

definition shell_print_char :: "KEY_INFO_t \<Rightarrow> shell \<Rightarrow> shell option" where
  "shell_print_char key_info st =
     (let (sh, b, fb) = st; d = ssfn_dst fb; g = gfx fb; c = ascii_character key_info in
      if c = 0 then Some st
      else if c = ucast KEY_RETURN then do {
        y \<leftarrow> (if d_y d + glyph_height g = uint (fb_height g)
              then chk32 (shell_prompt_y_barrier sh + glyph_height g) else Some (shell_prompt_y_barrier sh));
        st \<leftarrow> printk framebuffer_print_string GFX_BLUE NL [] (b, fb);
        shell_prompt (sh\<lparr>shell_prompt_y_barrier := y\<rparr>, st)
      }
      else if c = ucast KEY_BACKSPACE then
        (if d_x d = shell_prompt_x_barrier sh \<and> d_y d = shell_prompt_y_barrier sh then Some st
         else map_option (Pair sh) (printk framebuffer_print_string GFX_BLUE [char_of (8 :: nat)] [] (b, fb)))
      else do {
        y \<leftarrow> (if d_y d + glyph_height g = uint (fb_height g) \<and> d_x d + glyph_width g = uint (fb_width g)
              then chk32 (shell_prompt_y_barrier sh - glyph_height g) else Some (shell_prompt_y_barrier sh));
        map_option (Pair (sh\<lparr>shell_prompt_y_barrier := y\<rparr>))
          (printk framebuffer_print_string GFX_BLUE ''%c'' [Va_Int (scast c)] (b, fb))
      })"

text \<open>\<open>handler\<close> stands for the address of \<open>shell_print_char\<close>.\<close>

definition shell_screen_init :: "'h \<Rightarrow> shell \<times> 'h keyboard \<Rightarrow> (shell \<times> 'h keyboard) option" where
  "shell_screen_init handler st = do {
     let ((sh, b, fb), kb) = st;
     fb \<leftarrow> framebuffer_reset_screen fb;
     sh \<leftarrow> shell_prompt (sh, b, fb);
     Some (sh, activate_keyboard_processing handler kb)
   }"

section \<open>Positions\<close>

text \<open>Cells in reading order, and the number of cells from the barrier to the cell of the next character.\<close>

definition place :: "fb_state \<Rightarrow> int \<times> int \<Rightarrow> int" where
  "place st p = snd p div 16 * (width st div 8) + fst p div 8"

definition typed :: "shell \<Rightarrow> int" where
  "typed s = (case s of (sh, b, fb) \<Rightarrow>
     place fb (next_cell fb) - place fb (shell_prompt_x_barrier sh, shell_prompt_y_barrier sh))"

definition shell_ok :: "shell \<Rightarrow> bool" where
  "shell_ok s = (case s of (sh, b, fb) \<Rightarrow>
     buffers_ok b \<and> text_ok fb \<and> 32 \<le> width fb \<and> one_cell fb 0x2514 \<and> one_cell fb 0x2192 \<and>
     d_x (ssfn_dst fb) \<le> width fb \<and> d_y (ssfn_dst fb) \<le> height fb - 16 \<and>
     0 \<le> shell_prompt_x_barrier sh \<and> shell_prompt_x_barrier sh \<le> width fb - 8 \<and>
     shell_prompt_x_barrier sh mod 8 = 0 \<and> shell_prompt_y_barrier sh mod 16 = 0 \<and>
     shell_prompt_y_barrier sh \<le> height fb - 16 \<and>
     0 \<le> typed s \<and> (d_x (ssfn_dst fb) = width fb \<longrightarrow> 0 < typed s))"

text \<open>The number of characters in the line after a key: what an editor of one line does.\<close>

definition edit :: "u8 \<Rightarrow> int \<Rightarrow> int" where
  "edit c n = (if c = 0 then n else if c = 13 then 0 else if c = 8 then max 0 (n - 1) else n + 1)"

text \<open>Keys whose character is echoed in one cell, and those that edit.\<close>

definition typable :: "fb_state \<Rightarrow> u8 \<Rightarrow> bool" where
  "typable fb c \<longleftrightarrow> c \<in> {0, 8, 13} \<or> 32 \<le> c \<and> c < 127 \<and> one_cell fb (ucast c)"

lemma text_okE:
  assumes "text_ok st"
  obtains i j C R where "d_x (ssfn_dst st) = 8 * i" "d_y (ssfn_dst st) = 16 * j" "width st = 8 * C" "height st = 16 * R"
    "0 \<le> i" "0 \<le> j" "1 \<le> C" "1 \<le> R"
proof -
  have ok: "d_x (ssfn_dst st) mod 8 = 0" "d_y (ssfn_dst st) mod 16 = 0" "width st mod 8 = 0" "height st mod 16 = 0"
    "0 \<le> d_x (ssfn_dst st)" "0 \<le> d_y (ssfn_dst st)" "8 \<le> width st" "16 \<le> height st"
    using assms by (simp_all add: text_ok_def fb_ok_def fb_set_def)
  then obtain i j C R where eq: "d_x (ssfn_dst st) = 8 * i" "d_y (ssfn_dst st) = 16 * j" "width st = 8 * C" "height st = 16 * R"
    by (auto simp: mod_eq_0_iff_dvd elim!: dvdE)
  show ?thesis using that [OF eq] ok eq by simp
qed

lemma place_cell: "width st = 8 * C \<Longrightarrow> place st (8 * i, 16 * j) = j * C + i"
  by (simp add: place_def)

lemma printk_screen:
  assumes "format_text fmt va = Some t" "NUL \<notin> set t" "length t < 5120" "buffers_ok b"
    and "framebuffer_print_string t color fb = Some fb'"
  shows "\<exists>b'. buffers_ok b' \<and> printk framebuffer_print_string color fmt va (b, fb) = Some (b', fb')"
  using printk_shows [OF assms(1-4), of framebuffer_print_string color fb] assms(5) by auto

lemma print_string_append:
  "code_points s = Some cs \<Longrightarrow> framebuffer_print_string (s @ t) fg st =
     Option.bind (framebuffer_print_string s fg st) (framebuffer_print_string t fg)"
proof (induction cs arbitrary: s st)
  case Nil
  then have "s = []" by (subst (asm) code_points.simps) (auto split: if_splits Option.bind_splits)
  then show ?case by (simp add: framebuffer_print_string_def print_string_with.simps [of _ "[]" fg st])
next
  case (Cons c cs)
  obtain r where r: "s \<noteq> []" "ssfn_utf8 s = Some (c, r)" "code_points r = Some cs"
    using Cons.prems by (subst (asm) code_points.simps) (auto split: if_splits Option.bind_splits)
  have rest: "print_string_with (print_tab fg) (r @ t) fg = (\<lambda>st. Option.bind (print_string_with (print_tab fg) r fg st)
      (print_string_with (print_tab fg) t fg))"
    using Cons.IH [OF r(3)] by (simp add: framebuffer_print_string_def fun_eq_iff)
  show ?case
    using r(1,2) ssfn_utf8_append [OF r(2), of t]
    by (simp add: framebuffer_print_string_def print_string_with.simps [of _ s] print_string_with.simps [of _ "s @ t"] rest)
qed

lemma shell_texts:
  "code_points prompt_bottom = Some [0x2514, 0x2192, 0x20]" "code_points NL = Some [10]" "code_points [char_of (8 :: nat)] = Some [8]"
  "code_points (NL @ map char_of [0xE2, 0x94, 0x8C, 0xE2, 0x94, 0x80 :: nat] @ '' KnutOS'') =
     Some [10, 0x250C, 0x2500, 0x20, 0x4B, 0x6E, 0x75, 0x74, 0x4F, 0x53]"
  by (code_simp)+

lemma shell_literals: "literal prompt_top" "literal prompt_bottom" "literal NL" "literal [char_of (8 :: nat)]"
  by (code_simp)+

lemma shell_lengths: "length prompt_top < 5120" "length prompt_bottom < 5120" "length NL < 5120" "length [char_of (8 :: nat)] < 5120"
  by (simp_all add: prompt_top_def prompt_bottom_def NL_def)

lemma one_cell_frame: "same_frame st st' \<Longrightarrow> one_cell st' u = one_cell st u"
  by (simp add: one_cell_def same_frame_def)

lemma one_cell_space: "text_ok st \<Longrightarrow> one_cell st 0x20"
  by (auto simp: one_cell_def text_ok_def cell_font_def)

lemma next_cell_bounds:
  assumes "text_ok st"
  shows "fst (next_cell st) \<le> width st - 8" "0 \<le> snd (next_cell st)" "snd (next_cell st) \<le> height st - 16"
    "0 \<le> fst (next_cell st)"
proof -
  obtain s where "text_ok s" "cursor s = next_cell st" "d_x (ssfn_dst s) \<le> width st - 8" "d_y (ssfn_dst s) \<le> height st - 16"
    using place_cursor_cell [OF assms] by blast
  then show "fst (next_cell st) \<le> width st - 8" "0 \<le> snd (next_cell st)" "snd (next_cell st) \<le> height st - 16"
    "0 \<le> fst (next_cell st)"
    by (auto simp: cursor_def text_ok_def fb_ok_def simp flip: \<open>cursor s = next_cell st\<close>)
qed

lemma shell_prompt_ok:
  assumes "buffers_ok b" "text_ok fb" "32 \<le> width fb" "one_cell fb 0x2514" "one_cell fb 0x2192"
  shows "\<exists>sh' b' fb'. shell_prompt (sh, b, fb) = Some (sh', b', fb') \<and> shell_ok (sh', b', fb') \<and> same_frame fb fb' \<and>
    typed (sh', b', fb') = 0 \<and> 0 \<le> shell_prompt_y_barrier sh'"
proof -
  obtain s1 where s1: "framebuffer_print_string (NL @ map char_of [0xE2, 0x94, 0x8C, 0xE2, 0x94, 0x80 :: nat] @ '' KnutOS'') GFX_PURPLE fb = Some s1"
    "text_ok s1" "same_frame fb s1"
    using print_string_cells [OF shell_texts(4) assms(2), of "print_tab GFX_PURPLE"] print_tab_cells
    unfolding framebuffer_print_string_def by blast
  obtain s2 where s2: "framebuffer_print_string NL GFX_PURPLE s1 = Some s2" "text_ok s2" "same_frame s1 s2"
    "cursor s2 = (0, snd (next_cell s1) + 16)"
    using print_one [OF s1(2) shell_texts(2)] by blast
  have top: "framebuffer_print_string prompt_top GFX_PURPLE fb = Some s2"
    unfolding prompt_top_def print_string_append [OF shell_texts(4)] s1(1) by (simp add: s2(1))
  have frame: "same_frame fb s2" by (rule same_frame_trans [OF s1(3) s2(3)])
  note dims = same_frame_shape [OF frame]
  obtain y where y: "next_cell s2 = (0, y)" "0 \<le> y" "y \<le> height s2 - 16"
    using next_cell_bounds [OF s2(2)] s2(4) assms(3) dims
    by (auto simp: next_cell_def cursor_def Let_def split: if_splits)
  have glyphs: "\<forall>c \<in> set [0x2514, 0x2192, 0x20]. one_cell s2 c"
    using assms(4,5) one_cell_frame [OF frame] one_cell_space [OF s2(2)] by simp
  obtain s3 where s3: "framebuffer_print_string prompt_bottom GFX_PURPLE s2 = Some s3" "text_ok s3" "same_frame s2 s3"
    "cursor s3 = (24, y)"
    using print_fitting [OF s2(2) shell_texts(1) glyphs y(1)] assms(3) dims by auto
  obtain b1 where b1: "buffers_ok b1" "printk framebuffer_print_string GFX_PURPLE prompt_top [] (b, fb) = Some (b1, s2)"
    using printk_screen [OF literal_text(2,3) [OF shell_literals(1)] shell_lengths(1) assms(1) top] by blast
  obtain b2 where b2: "buffers_ok b2" "printk framebuffer_print_string GFX_PURPLE prompt_bottom [] (b1, s2) = Some (b2, s3)"
    using printk_screen [OF literal_text(2,3) [OF shell_literals(2)] shell_lengths(2) b1(1) s3(1)] by blast
  let ?sh = "\<lparr>shell_prompt_x_barrier = 24, shell_prompt_y_barrier = y\<rparr>"
  have run: "shell_prompt (sh, b, fb) = Some (?sh, b2, s3)"
    using s3(4) by (simp add: shell_prompt_def b1(2) b2(2) cursor_def)
  have frame3: "same_frame fb s3" by (rule same_frame_trans [OF frame s3(3)])
  note dims3 = same_frame_shape [OF frame3]
  have "next_cell s3 = (24, y)"
    using next_cell_inside [OF s3(4)] assms(3) y(3) dims dims3 by simp
  then have zero: "typed (?sh, b2, s3) = 0" by (simp add: typed_def)
  have "y mod 16 = 0" using s3(2,4) by (auto simp: text_ok_def cursor_def)
  then have "shell_ok (?sh, b2, s3)"
    using b2(1) s3(2,4) zero assms(3-5) dims dims3 y(3) one_cell_frame [OF frame3]
    by (simp add: shell_ok_def cursor_def)
  with run zero frame3 y(2) show ?thesis by auto
qed

section \<open>Typing and erasing\<close>

text \<open>The next cell of a screen whose cursor is one cell behind, or before, the next cell of another.\<close>

lemma place_next:
  assumes "text_ok fb" "d_x (ssfn_dst fb) \<le> width fb" "d_y (ssfn_dst fb) \<le> height fb - 16"
  shows "place fb (next_cell fb) = place fb (cursor fb) -
    (if cursor fb = (width fb, height fb - 16) then width fb div 8 else 0)"
proof -
  obtain i j C R where g: "d_x (ssfn_dst fb) = 8 * i" "d_y (ssfn_dst fb) = 16 * j" "width fb = 8 * C" "height fb = 16 * R"
    "0 \<le> i" "0 \<le> j" "1 \<le> C" "1 \<le> R" using text_okE [OF assms(1)] .
  have le: "i \<le> C" "j \<le> R - 1" using assms(2,3) g by simp_all
  have cur: "cursor fb = (8 * i, 16 * j)" using g by (simp add: cursor_def)
  consider "i < C" | "i = C" "j < R - 1" | "i = C" "j = R - 1" using le by linarith
  then show ?thesis
  proof cases
    case 1
    then have "next_cell fb = cursor fb" using g le by (simp add: next_cell_def cursor_def)
    then show ?thesis using 1 cur g by simp
  next
    case 2
    then have "next_cell fb = (8 * 0, 16 * (j + 1))" using g by (simp add: next_cell_def cursor_def)
    then show ?thesis using 2 cur g by (simp only: place_cell [OF g(3)]) (simp add: algebra_simps)
  next
    case 3
    then have "next_cell fb = (8 * 0, 16 * (R - 1))" using g by (simp add: next_cell_def cursor_def)
    then show ?thesis using 3 cur g by (simp only: place_cell [OF g(3)]) (simp add: algebra_simps)
  qed
qed

text \<open>After a character in the next cell; \<open>full\<close> is the test of the shell.\<close>

lemma place_typed:
  assumes "text_ok fb" "text_ok fb'" "same_frame fb fb'" "16 \<le> width fb"
    and "d_x (ssfn_dst fb) \<le> width fb" "d_y (ssfn_dst fb) \<le> height fb - 16"
    and "cursor fb' = (fst (next_cell fb) + 8, snd (next_cell fb))"
    and full: "full \<longleftrightarrow> d_y (ssfn_dst fb) + 16 = height fb \<and> d_x (ssfn_dst fb) + 8 = width fb"
  shows "place fb (next_cell fb') = place fb (next_cell fb) + 1 - (if full then width fb div 8 else 0)"
proof -
  obtain i j C R where g: "d_x (ssfn_dst fb) = 8 * i" "d_y (ssfn_dst fb) = 16 * j" "width fb = 8 * C" "height fb = 16 * R"
    "0 \<le> i" "0 \<le> j" "1 \<le> C" "1 \<le> R" using text_okE [OF assms(1)] .
  have le: "i \<le> C" "j \<le> R - 1" "2 \<le> C" using assms(4-6) g by simp_all
  note dims = same_frame_shape [OF assms(3)]
  have same: "place fb' p = place fb p" for p using dims by (simp add: place_def)
  note b = next_cell_bounds [OF assms(1)]
  have le': "d_x (ssfn_dst fb') \<le> width fb'" "d_y (ssfn_dst fb') \<le> height fb' - 16"
    using b assms(7) dims by (simp_all add: cursor_def)
  have next': "place fb (next_cell fb') = place fb (cursor fb') -
      (if cursor fb' = (width fb, height fb - 16) then width fb div 8 else 0)"
    using place_next [OF assms(2) le'] dims unfolding same by simp
  have step: "place fb (cursor fb') = place fb (next_cell fb) + 1"
    unfolding assms(7) by (simp add: place_def)
  have "cursor fb' = (width fb, height fb - 16) \<longleftrightarrow> full"
    unfolding full assms(7) using g le by (auto simp: next_cell_def cursor_def Let_def split: if_splits)
  with next' step show ?thesis by simp
qed

lemma place_erased:
  assumes "text_ok fb" "text_ok fb'" "same_frame fb fb'" "cursor fb' = cell_before fb (next_cell fb)"
  shows "d_x (ssfn_dst fb') \<le> width fb - 8" "d_y (ssfn_dst fb') \<le> height fb - 16"
    and "place fb (next_cell fb') = (if next_cell fb = (0, 0) then 0 else place fb (next_cell fb) - 1)"
proof -
  note b = next_cell_bounds [OF assms(1)] and dims = same_frame_shape [OF assms(3)]
  have w: "8 \<le> width fb" using assms(1) by (simp add: text_ok_def fb_ok_def fb_set_def)
  obtain x y where xy: "next_cell fb = (x, y)" by (cases "next_cell fb")
  have h: "16 \<le> height fb" using assms(1) by (simp add: text_ok_def fb_ok_def fb_set_def)
  show le: "d_x (ssfn_dst fb') \<le> width fb - 8" "d_y (ssfn_dst fb') \<le> height fb - 16"
    using assms(4) b w h xy by (auto simp: cell_before_def cursor_def split: if_splits)
  have "next_cell fb' = cursor fb'"
    using next_cell_inside [of fb' "d_x (ssfn_dst fb')" "d_y (ssfn_dst fb')"] le dims by (simp add: cursor_def)
  moreover have less: "(y - 16) div 16 = y div 16 - 1" "(x - 8) div 8 = x div 8 - 1" "(width fb - 8) div 8 = width fb div 8 - 1"
    by simp_all
  ultimately show "place fb (next_cell fb') = (if next_cell fb = (0, 0) then 0 else place fb (next_cell fb) - 1)"
    using assms(4) xy by (auto simp: cell_before_def place_def less left_diff_distrib)
qed

text \<open>What is printed for a key.\<close>

lemma echo_run:
  assumes "buffers_ok b" "text_ok fb" "format_text fmt va = Some t" "NUL \<notin> set t" "length t < 5120" "code_points t = Some [u]"
  shows "\<exists>b' fb'. printk framebuffer_print_string color fmt va (b, fb) = Some (b', fb') \<and> buffers_ok b' \<and> text_ok fb' \<and>
    same_frame fb fb' \<and> (u = 8 \<longrightarrow> cursor fb' = cell_before fb (next_cell fb)) \<and>
    (one_cell fb u \<longrightarrow> cursor fb' = (fst (next_cell fb) + 8, snd (next_cell fb)))"
proof -
  obtain fb' where fb': "framebuffer_print_string t color fb = Some fb'" "text_ok fb'" "same_frame fb fb'"
    "u = 8 \<longrightarrow> cursor fb' = cell_before fb (next_cell fb)"
    "one_cell fb u \<longrightarrow> cursor fb' = (fst (next_cell fb) + 8, snd (next_cell fb))"
    using print_one [OF assms(2,6), of color] by blast
  then show ?thesis using printk_screen [OF assms(3-5,1) fb'(1)] by blast
qed

lemma format_char:
  "format_text ''%c'' [Va_Int w] = Some [char_of (unat (ucast w :: u8))]"
proof -
  let ?sp = "\<lparr>sp_flags = 0, sp_width = 0, sp_precision = 0, sp_char = CHR ''c''\<rparr>"
  have "parse_spec ''c'' [Va_Int w] = Some (?sp, [], [Va_Int w])" by code_simp
  moreover have "spec_text ?sp [Va_Int w] = Some ([char_of (unat (ucast w :: u8))], [])"
    by (simp add: spec_text_def padded_def spaces_def flag_bits)
  ultimately show ?thesis
    using format_conversion [of "''c''"] by simp
qed

lemma plain_key:
  assumes "(32 :: u8) \<le> c" "c < 127"
  shows "format_text ''%c'' [Va_Int (scast c)] = Some [char_of (unat c)]" "NUL \<notin> set [char_of (unat c) :: char]"
    "code_points [char_of (unat c)] = Some [ucast c]"
proof -
  have id: "ucast (scast c :: u64) = c" by (rule bit_word_eqI) (auto simp: bit_simps)
  show "format_text ''%c'' [Va_Int (scast c)] = Some [char_of (unat c)]"
    unfolding format_char id ..
  have n: "32 \<le> unat c" "unat c < 127" using assms by (simp_all add: word_le_nat_alt word_less_nat_alt)
  then have code: "of_char (char_of (unat c)) = unat c" by simp
  have "of_char NUL = (0 :: nat)" by code_simp
  then have "char_of (unat c) \<noteq> NUL" using code n(1) by fastforce
  then show "NUL \<notin> set [char_of (unat c) :: char]" by simp
  have "plain (char_of (unat c))" using n by (simp add: plain_def)
  from plain_utf8(1) [OF this, of "[]"] have "ssfn_utf8 [char_of (unat c)] = Some (ucast c, [])"
    unfolding code by simp
  then show "code_points [char_of (unat c)] = Some [ucast c]"
    by (simp add: code_points.simps)
qed

lemma place_unique:
  assumes "text_ok fb" "d_x (ssfn_dst fb) \<le> width fb - 8" "0 \<le> x" "x \<le> width fb - 8" "x mod 8 = 0" "y mod 16 = 0"
    and "place fb (cursor fb) = place fb (x, y)"
  shows "d_x (ssfn_dst fb) = x \<and> d_y (ssfn_dst fb) = y"
proof -
  obtain i j C R where g: "d_x (ssfn_dst fb) = 8 * i" "d_y (ssfn_dst fb) = 16 * j" "width fb = 8 * C" "height fb = 16 * R"
    "0 \<le> i" "0 \<le> j" "1 \<le> C" "1 \<le> R" using text_okE [OF assms(1)] .
  obtain a b where ab: "x = 8 * a" "y = 16 * b" using assms(5,6) by (auto simp: mod_eq_0_iff_dvd elim!: dvdE)
  have lt: "0 \<le> i" "i < C" "0 \<le> a" "a < C" using g ab assms(2-4) by simp_all
  have "j * C + i = b * C + a" using assms(7) g ab by (simp add: cursor_def place_cell [OF g(3)])
  then have "(j * C + i) div C = (b * C + a) div C" "(j * C + i) mod C = (b * C + a) mod C" by simp_all
  then show ?thesis using lt g ab by (simp add: div_pos_pos_trivial)
qed

lemma shell_types:
  assumes ok: "shell_ok (sh, b, fb)" and c: "32 \<le> c" "c < 127" "one_cell fb (ucast c)"
    and bar: "- (2 ^ 30) \<le> shell_prompt_y_barrier sh"
  shows "\<exists>sh' b' fb'. shell_print_char \<lparr>keycode = k, ascii_character = c\<rparr> (sh, b, fb) = Some (sh', b', fb') \<and>
    shell_ok (sh', b', fb') \<and> same_frame fb fb' \<and> typed (sh', b', fb') = typed (sh, b, fb) + 1 \<and>
    shell_prompt_y_barrier sh' \<ge> shell_prompt_y_barrier sh - 16"
proof -
  note o = ok[unfolded shell_ok_def, simplified]
  define full where "full \<longleftrightarrow> d_y (ssfn_dst fb) + 16 = height fb \<and> d_x (ssfn_dst fb) + 8 = width fb"
  define y where "y = (if full then shell_prompt_y_barrier sh - 16 else shell_prompt_y_barrier sh)"
  obtain b' fb' where run: "printk framebuffer_print_string GFX_BLUE ''%c'' [Va_Int (scast c)] (b, fb) = Some (b', fb')"
    "buffers_ok b'" "text_ok fb'" "same_frame fb fb'" "cursor fb' = (fst (next_cell fb) + 8, snd (next_cell fb))"
    using echo_run [OF _ _ plain_key(1,2) [OF c(1,2)] _ plain_key(3) [OF c(1,2)], of b fb GFX_BLUE] o c(3) by auto
  note dims = same_frame_shape [OF run(4)]
  have chk: "chk32 (shell_prompt_y_barrier sh - 16) = Some (shell_prompt_y_barrier sh - 16)"
    using o bar size_bounds(2) [of fb] by (intro chk32_Some) (simp add: in_int32_def)
  have g: "glyph_height (gfx fb) = 16" "glyph_width (gfx fb) = 8"
    using o by (simp_all add: text_ok_def fb_ok_def fb_set_def)
  let ?sh = "sh\<lparr>shell_prompt_y_barrier := y\<rparr>"
  have "c \<noteq> 0" "c \<noteq> 13" "c \<noteq> 8" using c(1) by auto
  then have eq: "shell_print_char \<lparr>keycode = k, ascii_character = c\<rparr> (sh, b, fb) = Some (?sh, b', fb')"
    using run(1) chk g by (simp add: shell_print_char_def keycodes y_def full_def width_def height_def Let_def)
  have next': "place fb (next_cell fb') = place fb (next_cell fb) + 1 - (if full then width fb div 8 else 0)"
    using place_typed [OF _ run(3,4) _ _ _ run(5) full_def] o by simp
  have less: "(v - 16) div 16 = v div 16 - 1" for v :: int by simp
  have "place fb (shell_prompt_x_barrier sh, y) = place fb (shell_prompt_x_barrier sh, shell_prompt_y_barrier sh) -
      (if full then width fb div 8 else 0)"
    by (simp add: place_def y_def less left_diff_distrib)
  moreover have "place fb' = place fb" using dims by (simp add: place_def fun_eq_iff)
  ultimately have typed: "typed (?sh, b', fb') = typed (sh, b, fb) + 1"
    using next' by (simp add: typed_def)
  have "y mod 16 = 0" "y \<le> height fb - 16" using o by (auto simp: y_def)
  moreover note b = next_cell_bounds [of fb]
  ultimately have "shell_ok (?sh, b', fb')"
    using o run(2,3,5) typed dims one_cell_frame [OF run(4)] by (simp add: shell_ok_def cursor_def)
  then show ?thesis using eq run(4) typed by (auto simp: y_def)
qed

lemma shell_erases:
  assumes ok: "shell_ok (sh, b, fb)"
  shows "\<exists>b' fb'. shell_print_char \<lparr>keycode = k, ascii_character = 8\<rparr> (sh, b, fb) = Some (sh, b', fb') \<and>
    shell_ok (sh, b', fb') \<and> same_frame fb fb' \<and>
    typed (sh, b', fb') = (if next_cell fb = (0, 0) then typed (sh, b, fb) else max 0 (typed (sh, b, fb) - 1))"
proof -
  note o = ok[unfolded shell_ok_def, simplified]
  let ?at = "d_x (ssfn_dst fb) = shell_prompt_x_barrier sh \<and> d_y (ssfn_dst fb) = shell_prompt_y_barrier sh"
  text \<open>The cursor is at the barrier exactly when nothing is typed.\<close>
  have inside: "d_x (ssfn_dst fb) \<le> width fb - 8 \<Longrightarrow> next_cell fb = cursor fb"
    using o by (intro next_cell_inside [of fb "d_x (ssfn_dst fb)" "d_y (ssfn_dst fb)", folded cursor_def]) (simp_all add: cursor_def)
  have at: "?at \<longleftrightarrow> typed (sh, b, fb) = 0"
  proof
    assume ?at
    then show "typed (sh, b, fb) = 0" using o inside by (simp add: typed_def cursor_def)
  next
    assume zero: "typed (sh, b, fb) = 0"
    then have "d_x (ssfn_dst fb) \<noteq> width fb" using o by auto
    moreover have "d_x (ssfn_dst fb) mod 8 = 0" "width fb mod 8 = 0" "d_x (ssfn_dst fb) \<le> width fb"
      using o by (auto simp: text_ok_def)
    ultimately have x: "d_x (ssfn_dst fb) \<le> width fb - 8" by presburger
    have "place fb (cursor fb) = place fb (shell_prompt_x_barrier sh, shell_prompt_y_barrier sh)"
      using zero inside [OF x] by (simp add: typed_def)
    then show ?at using o by (intro place_unique [OF _ x]) simp_all
  qed
  show ?thesis
  proof (cases ?at)
    case True
    then have "shell_print_char \<lparr>keycode = k, ascii_character = 8\<rparr> (sh, b, fb) = Some (sh, b, fb)"
      by (simp add: shell_print_char_def keycodes)
    then show ?thesis using ok True at by simp
  next
    case False
    obtain b' fb' where run: "printk framebuffer_print_string GFX_BLUE [char_of (8 :: nat)] [] (b, fb) = Some (b', fb')"
      "buffers_ok b'" "text_ok fb'" "same_frame fb fb'" "cursor fb' = cell_before fb (next_cell fb)"
      using echo_run [OF _ _ literal_text(2,3) [OF shell_literals(4)] shell_lengths(4) shell_texts(3), of b fb GFX_BLUE] o by auto
    note dims = same_frame_shape [OF run(4)]
    have eq: "shell_print_char \<lparr>keycode = k, ascii_character = 8\<rparr> (sh, b, fb) = Some (sh, b', fb')"
      using False run(1) by (auto simp: shell_print_char_def keycodes)
    have pos: "0 < typed (sh, b, fb)" using False at o by simp
    have "text_ok fb" using o by blast
    note erased = place_erased [OF this run(3-5)]
    have same: "place fb' = place fb" using dims by (simp add: place_def fun_eq_iff)
    have typed: "typed (sh, b', fb') = (if next_cell fb = (0, 0) then typed (sh, b, fb) else max 0 (typed (sh, b, fb) - 1))"
    proof (cases "next_cell fb = (0, 0)")
      case True
      then have "place fb (next_cell fb) = 0" by (simp add: place_def)
      then show ?thesis using erased(3) True by (simp add: typed_def same)
    next
      case False
      then show ?thesis using erased(3) pos by (simp add: typed_def same)
    qed
    have "shell_ok (sh, b', fb')"
      using o run(2,3) erased(1,2) typed pos dims one_cell_frame [OF run(4)] by (simp add: shell_ok_def)
    then show ?thesis using eq run(4) typed by blast
  qed
qed

lemma shell_returns:
  assumes ok: "shell_ok (sh, b, fb)" and bar: "- (2 ^ 30) \<le> shell_prompt_y_barrier sh"
  shows "\<exists>sh' b' fb'. shell_print_char \<lparr>keycode = k, ascii_character = 13\<rparr> (sh, b, fb) = Some (sh', b', fb') \<and>
    shell_ok (sh', b', fb') \<and> same_frame fb fb' \<and> typed (sh', b', fb') = 0 \<and> 0 \<le> shell_prompt_y_barrier sh'"
proof -
  note o = ok[unfolded shell_ok_def, simplified]
  obtain b1 fb1 where run: "printk framebuffer_print_string GFX_BLUE NL [] (b, fb) = Some (b1, fb1)"
    "buffers_ok b1" "text_ok fb1" "same_frame fb fb1"
    using echo_run [OF _ _ literal_text(2,3) [OF shell_literals(3)] shell_lengths(3) shell_texts(2), of b fb GFX_BLUE] o by auto
  note dims = same_frame_shape [OF run(4)]
  have g: "glyph_height (gfx fb) = 16" using o by (simp add: text_ok_def fb_ok_def fb_set_def)
  have chk: "chk32 (shell_prompt_y_barrier sh + 16) = Some (shell_prompt_y_barrier sh + 16)"
    using o bar size_bounds(2) [of fb] by (intro chk32_Some) (simp add: in_int32_def)
  define y where "y = (if d_y (ssfn_dst fb) + 16 = uint (fb_height (gfx fb)) then shell_prompt_y_barrier sh + 16
    else shell_prompt_y_barrier sh)"
  have "shell_print_char \<lparr>keycode = k, ascii_character = 13\<rparr> (sh, b, fb) =
      shell_prompt (sh\<lparr>shell_prompt_y_barrier := y\<rparr>, b1, fb1)"
    using run(1) chk g by (simp add: shell_print_char_def keycodes Let_def y_def)
  moreover obtain sh' b' fb' where "shell_prompt (sh\<lparr>shell_prompt_y_barrier := y\<rparr>, b1, fb1) = Some (sh', b', fb')"
    "shell_ok (sh', b', fb')" "same_frame fb1 fb'" "typed (sh', b', fb') = 0" "0 \<le> shell_prompt_y_barrier sh'"
  proof -
    have "32 \<le> width fb1" "one_cell fb1 0x2514" "one_cell fb1 0x2192" using o dims one_cell_frame [OF run(4)] by simp_all
    from shell_prompt_ok [OF run(2,3) this, of "sh\<lparr>shell_prompt_y_barrier := y\<rparr>"] show ?thesis using that by (elim exE conjE)
  qed
  ultimately show ?thesis using same_frame_trans [OF run(4)] by auto
qed

lemma shell_screen_init_ok:
  assumes "buffers_ok b" "text_ok fb" "32 \<le> width fb" "one_cell fb 0x2514" "one_cell fb 0x2192"
  shows "\<exists>sh' b' fb'. shell_screen_init handler ((sh, b, fb), kbd) =
      Some ((sh', b', fb'), activate_keyboard_processing handler kbd) \<and>
    shell_ok (sh', b', fb') \<and> same_frame fb fb' \<and> typed (sh', b', fb') = 0 \<and> 0 \<le> shell_prompt_y_barrier sh'"
proof -
  have "fb_ok fb" using assms(2) by (simp add: text_ok_def)
  then obtain s where s: "framebuffer_reset_screen fb = Some s" "fb_ok s" "same_frame fb s"
    "d_x (ssfn_dst s) = 0" "d_y (ssfn_dst s) = 0"
    using reset_keeps by blast
  then have ok: "text_ok s" using text_ok_moved [OF assms(2)] by simp
  note dims = same_frame_shape [OF s(3)]
  have pre: "32 \<le> width s" "one_cell s 0x2514" "one_cell s 0x2192" using assms dims one_cell_frame [OF s(3)] by simp_all
  obtain sh' b' fb' where "shell_prompt (sh, b, s) = Some (sh', b', fb')" "shell_ok (sh', b', fb')" "same_frame s fb'"
    "typed (sh', b', fb') = 0" "0 \<le> shell_prompt_y_barrier sh'"
    using shell_prompt_ok [OF assms(1) ok pre, of sh] by (elim exE conjE)
  then show ?thesis using s(1) same_frame_trans [OF s(3)] by (simp add: shell_screen_init_def)
qed

section \<open>A font and a screen of whole cells\<close>

definition glyph8 :: "u8 list" where "glyph8 = [0, 0, 8, 16, 8, 0]"

definition small_font_bytes :: "u8 list" where
  "small_font_bytes = [0x53, 0x46, 0x4E, 0x32, 0, 0, 0, 0, 0, 0, 0, 16, 0, 0, 0, 0, 32, 0, 0, 0, 0, 0, 0, 0, 0, 0, 0, 0, 0, 0, 0, 0,
     0x9F] @ glyph8 @ [0xE1, 0x70] @ glyph8 @ [0xC3, 0x80] @ glyph8"

text \<open>Glyphs for the space and the two signs of the prompt.\<close>

definition small_font :: font where
  "small_font a = (if unat a < length small_font_bytes then small_font_bytes ! unat a else 0xFF)"

lemma small_font_find:
  "ssfn_find small_font u 32 0 = (if u = 32 then Some 33 else if u = 0x2192 then Some 41 else if u = 0x2514 then Some 49 else None)"
proof -
  note rules = ssfn_find.simps small_font_def small_font_bytes_def glyph8_def
  consider "u = 32" | "u = 0x2192" | "u = 0x2514" | "u \<noteq> 32" "32 \<noteq> u" "u \<noteq> 0x2192" "0x2192 \<noteq> u" "u \<noteq> 0x2514" "0x2514 \<noteq> u"
    by fastforce
  then show ?thesis by cases (simp_all add: rules)
qed

definition cell_screen :: fb_state where
  "cell_screen = \<lparr>ssfn_src = Some small_font,
     ssfn_dst = \<lparr>d_ptr = 0x1000, d_w = 64, d_h = 48, d_p = 256, d_x = 0, d_y = 0, d_fg = 0, d_bg = GFX_BLACK\<rparr>,
     pixels = replicate 3072 0,
     gfx = \<lparr>fb_addr = 0x1000, fb_width = 64, fb_height = 48, fb_pitch = 256, fb_bpp = 32, glyph_width = 8, glyph_height = 16\<rparr>\<rparr>"

lemma cell_screen_ok: "text_ok cell_screen" "32 \<le> width cell_screen" "one_cell cell_screen 0x2514" "one_cell cell_screen 0x2192"
proof -
  note rules = small_font_def small_font_bytes_def glyph8_def
  have offs: "(ucast (characters_offs small_font) :: u64) = 32" by code_simp
  have glyphs: "glyph_advance small_font u = (if u \<in> {32, 0x2192, 0x2514} then Some (8, 0) else None)" for u
    unfolding glyph_advance_def offs small_font_find by (auto simp: rules)
  have "cell_font small_font"
    unfolding cell_font_def glyphs by (auto simp: font_magic_def rules split: if_splits)
  moreover have "fb_ok cell_screen"
    by (simp add: fb_ok_def fb_set_def fb_shape_def cell_screen_def width_def height_def stride_def)
  ultimately show "text_ok cell_screen"
    by (simp add: text_ok_def cell_screen_def width_def height_def)
  show "32 \<le> width cell_screen" by (simp add: cell_screen_def width_def)
  show "one_cell cell_screen 0x2514" "one_cell cell_screen 0x2192"
    by (simp_all add: one_cell_def cell_screen_def glyphs)
qed

section \<open>Properties\<close>

text \<open>
  On a screen and with a font of whole cells the shell edits one line: a printable character makes the
  typed text one cell longer, a backspace one cell shorter but never shorter than nothing, so that the prompt is not
  erased, and return starts over. This holds across line ends and while the screen scrolls; only when so much
  has been typed that the text begins above the screen, a backspace in the first cell does nothing. The shell is
  again in order after every key, and the barrier moves by at most one line.
\<close>

theorem shell_print_char_edits:
  assumes "shell_ok (sh, b, fb)" "typable fb (ascii_character key_info)" "- (2 ^ 30) \<le> shell_prompt_y_barrier sh"
  shows "\<exists>sh' b' fb'. shell_print_char key_info (sh, b, fb) = Some (sh', b', fb') \<and> shell_ok (sh', b', fb') \<and>
    same_frame fb fb' \<and>
    typed (sh', b', fb') = (if ascii_character key_info = 8 \<and> next_cell fb = (0, 0) then typed (sh, b, fb)
      else edit (ascii_character key_info) (typed (sh, b, fb))) \<and>
    (shell_prompt_y_barrier sh' \<ge> shell_prompt_y_barrier sh - 16 \<or> 0 \<le> shell_prompt_y_barrier sh')"
proof -
  obtain k c where key: "key_info = \<lparr>keycode = k, ascii_character = c\<rparr>" by (cases key_info)
  then consider "c = 0" | "c = 13" | "c = 8" | "32 \<le> c" "c < 127" "one_cell fb (ucast c)"
    using assms(2) by (auto simp: typable_def)
  then show ?thesis
  proof cases
    case 1
    then have "shell_print_char key_info (sh, b, fb) = Some (sh, b, fb)" by (simp add: shell_print_char_def key)
    then show ?thesis using 1 assms(1) by (simp add: key edit_def)
  next
    case 2
    then show ?thesis using shell_returns [OF assms(1,3), of k] by (auto simp: key edit_def)
  next
    case 3
    then show ?thesis using shell_erases [OF assms(1), of k] by (auto simp: key edit_def)
  next
    case 4
    moreover have "c \<noteq> 0" "c \<noteq> 13" "c \<noteq> 8" using 4(1) by auto
    ultimately show ?thesis using shell_types [OF assms(1) 4 assms(3), of k] by (auto simp: key edit_def)
  qed
qed

theorem shell_print_char_edits_witness:
  "\<exists>s kbd s'. shell_screen_init () ((\<lparr>shell_prompt_x_barrier = 0, shell_prompt_y_barrier = 0\<rparr>, boot_buffers, cell_screen), keyboard_boot) =
      Some (s, kbd) \<and> typed s = 0 \<and>
    shell_print_char \<lparr>keycode = KEY_SPACE, ascii_character = 32\<rparr> s = Some s' \<and> typed s' = 1"
proof -
  have "buffers_ok boot_buffers" by (simp add: buffers_ok_def boot_buffers_def)
  from shell_screen_init_ok [OF this cell_screen_ok, of "()" "\<lparr>shell_prompt_x_barrier = 0, shell_prompt_y_barrier = 0\<rparr>" keyboard_boot]
  obtain sh b fb where init: "shell_screen_init () ((\<lparr>shell_prompt_x_barrier = 0, shell_prompt_y_barrier = 0\<rparr>, boot_buffers, cell_screen), keyboard_boot) =
      Some ((sh, b, fb), activate_keyboard_processing () keyboard_boot)"
    "shell_ok (sh, b, fb)" "typed (sh, b, fb) = 0" "0 \<le> shell_prompt_y_barrier sh"
    by (elim exE conjE)
  have "one_cell fb 0x20" using init(2) one_cell_space by (simp add: shell_ok_def)
  then have "typable fb 32" by (simp add: typable_def)
  then obtain s' where "shell_print_char \<lparr>keycode = KEY_SPACE, ascii_character = 32\<rparr> (sh, b, fb) = Some s'" "typed s' = 1"
    using shell_print_char_edits [OF init(2), of "\<lparr>keycode = KEY_SPACE, ascii_character = 32\<rparr>"] init(3,4)
    by (auto simp: edit_def)
  with init(1,3) show ?thesis by blast
qed

end
