(* ===== verification/Typing.thy ===== *)
theory Typing
  imports Shell Interrupts
begin

text \<open>
  The shell at work: the path of a key from the interrupt through \<open>isr_handler\<close> and the keyboard to
  \<open>shell_print_char\<close>, and the line that a run of scan codes leaves on the screen.
\<close>

section \<open>A key arrives\<close>

text \<open>The address in \<open>final_handler\<close>: the kernel installs one receiver.\<close>

datatype key_receiver = Shell_print_char

type_synonym desk = "shell_barrier \<times> (key_receiver, pics, fb_state) machine"

text \<open>The controllers accept line 1, and port 0x60 has the scan code.\<close>

definition key_arrives :: "u8 \<Rightarrow> pics \<Rightarrow> pics" where
  "key_arrives c d = d\<lparr>master := (master d)\<lparr>in_service := in_service (master d) OR 2\<rparr>, unused := c\<rparr>"

text \<open>
  One interrupt with the registers that the processor saved: \<open>isr_handler\<close>, and the call \<open>final_handler(key_info)\<close> that it reports. The receiver is called before the end of the interrupt is
  signalled; it touches neither the controllers nor the keyboard.
\<close>

fun key_interrupt :: "u8 \<times> u64 \<times> interrupt_cpu_state_t \<Rightarrow> desk \<Rightarrow> desk option" where
  "key_interrupt (c, rsp, cpu) (sh, m) =
     Option.bind (isr_handler pics_bus framebuffer_print_string framebuffer_reset_screen rsp cpu
         (m\<lparr>devices := key_arrives c (devices m)\<rparr>))
       (\<lambda>r. case r of
          Halted m \<Rightarrow> None
        | Returns rsp None m \<Rightarrow> Some (sh, m)
        | Returns rsp (Some (Shell_print_char, key_info)) m \<Rightarrow>
            map_option (\<lambda>(sh, b, fb). (sh, m\<lparr>buffers := b, contents := fb\<rparr>))
              (shell_print_char key_info (sh, buffers m, contents m)))"

primrec type_keys :: "(u8 \<times> u64 \<times> interrupt_cpu_state_t) list \<Rightarrow> desk \<Rightarrow> desk option" where
  "type_keys [] st = Some st"
| "type_keys (k # ks) st = Option.bind (key_interrupt k st) (type_keys ks)"

section \<open>The barrier stays on the screen\<close>

text \<open>The cells above the last line.\<close>

definition cells_above :: "fb_state \<Rightarrow> int" where
  "cells_above fb = (height fb div 16 - 1) * (width fb div 8)"

lemma cells_above_frame: "same_frame fb fb' \<Longrightarrow> cells_above fb' = cells_above fb"
  using same_frame_shape [of fb fb'] by (simp add: cells_above_def)

lemma typable_frame: "same_frame fb fb' \<Longrightarrow> typable fb' c = typable fb c"
  by (simp add: typable_def one_cell_frame)

lemma scrolled_text_long:
  assumes "shell_ok (sh, b, fb)" "shell_prompt_y_barrier sh < 16"
    and "d_y (ssfn_dst fb) + 16 = height fb" "d_x (ssfn_dst fb) + 8 = width fb"
  shows "cells_above fb \<le> typed (sh, b, fb)"
proof -
  note o = assms(1)[unfolded shell_ok_def, simplified]
  obtain i j C R where g: "d_x (ssfn_dst fb) = 8 * i" "d_y (ssfn_dst fb) = 16 * j" "width fb = 8 * C" "height fb = 16 * R"
    "0 \<le> i" "0 \<le> j" "1 \<le> C" "1 \<le> R" using text_okE o by blast
  obtain x y where xy: "shell_prompt_x_barrier sh = 8 * x" "shell_prompt_y_barrier sh = 16 * y"
    using o by (auto simp: mod_eq_0_iff_dvd elim!: dvdE)
  have le: "y \<le> 0" "x \<le> C - 1" using assms(2) o xy g by auto
  have ij: "i = C - 1" "j = R - 1" using assms(3,4) g by auto
  have "next_cell fb = (8 * i, 16 * j)"
    using next_cell_inside [of fb "d_x (ssfn_dst fb)" "d_y (ssfn_dst fb)"] g ij by (simp add: cursor_def)
  then have "typed (sh, b, fb) = j * C + i - (y * C + x)"
    using g xy by (simp add: typed_def place_cell [OF g(3)])
  moreover have "y * C \<le> 0" using le(1) g(7) by (simp add: mult_nonpos_nonneg)
  moreover have "cells_above fb = (R - 1) * C" using g by (simp add: cells_above_def)
  ultimately show ?thesis using le(2) ij by (simp add: algebra_simps)
qed

lemma typed_barrier:
  assumes "shell_print_char key_info (sh, b, fb) = Some (sh', b', fb')" "ascii_character key_info \<notin> {0, 8, 13}"
    and "glyph_height (gfx fb) = 16" "glyph_width (gfx fb) = 8"
  shows "shell_prompt_y_barrier sh' = (if d_y (ssfn_dst fb) + 16 = height fb \<and> d_x (ssfn_dst fb) + 8 = width fb
    then shell_prompt_y_barrier sh - 16 else shell_prompt_y_barrier sh)"
  using assms
  by (auto simp: shell_print_char_def keycodes Let_def chk32_def width_def height_def
      split: if_splits Option.bind_splits)

lemma shell_step:
  assumes ok: "shell_ok (sh, b, fb)" "typable fb c" "0 \<le> shell_prompt_y_barrier sh"
    and fits: "edit c (typed (sh, b, fb)) \<le> cells_above fb"
  shows "\<exists>sh' b' fb'. shell_print_char \<lparr>keycode = k, ascii_character = c\<rparr> (sh, b, fb) = Some (sh', b', fb') \<and>
    shell_ok (sh', b', fb') \<and> same_frame fb fb' \<and> 0 \<le> shell_prompt_y_barrier sh' \<and>
    typed (sh', b', fb') = edit c (typed (sh, b, fb))"
proof -
  note o = ok(1)[unfolded shell_ok_def, simplified]
  have bar: "- (2 ^ 30) \<le> shell_prompt_y_barrier sh" using ok(3) by simp
  consider "c = 0" | "c = 13" | "c = 8" | "32 \<le> c" "c < 127" "one_cell fb (ucast c)"
    using ok(2) by (auto simp: typable_def)
  then show ?thesis
  proof cases
    case 1
    then show ?thesis using ok by (simp add: shell_print_char_def edit_def)
  next
    case 2
    then show ?thesis using shell_returns [OF ok(1) bar, of k] by (auto simp: edit_def)
  next
    case 3
    have "typed (sh, b, fb) = 0" if "next_cell fb = (0, 0)"
    proof -
      have "0 \<le> place fb (shell_prompt_x_barrier sh, shell_prompt_y_barrier sh)"
        using o ok(3) by (auto simp: place_def text_ok_def fb_ok_def fb_set_def pos_imp_zdiv_nonneg_iff)
      then show ?thesis using that o by (simp add: typed_def place_def)
    qed
    then show ?thesis using 3 shell_erases [OF ok(1), of k] ok(3) by (auto simp: edit_def)
  next
    case 4
    have c: "c \<noteq> 0" "c \<noteq> 13" "c \<noteq> 8" using 4(1) by auto
    obtain sh' b' fb' where run: "shell_print_char \<lparr>keycode = k, ascii_character = c\<rparr> (sh, b, fb) = Some (sh', b', fb')"
      "shell_ok (sh', b', fb')" "same_frame fb fb'" "typed (sh', b', fb') = typed (sh, b, fb) + 1"
      using shell_types [OF ok(1) 4 bar, of k] by (elim exE conjE)
    have "glyph_height (gfx fb) = 16" "glyph_width (gfx fb) = 8"
      using o by (simp_all add: text_ok_def fb_ok_def fb_set_def)
    note y = typed_barrier [OF run(1) _ this]
    have "typed (sh, b, fb) < cells_above fb" using fits c by (simp add: edit_def)
    then have "0 \<le> shell_prompt_y_barrier sh'"
      using y c ok(3) scrolled_text_long [OF ok(1)] by fastforce
    then show ?thesis using run c by (simp add: edit_def)
  qed
qed

section \<open>The interrupt\<close>

lemma key_interrupt_run:
  assumes "isr_number cpu = 33" "\<not> serving (devices m) 0"
    and "keyboard_irq_handler (code_bus c) (kb m) () = Some (Some (Shell_print_char, info), k, u)"
  obtains d where
    "key_interrupt (c, rsp, cpu) (sh, m) = map_option (\<lambda>(sh, b, fb). (sh, m\<lparr>kb := k, devices := d, buffers := b, contents := fb\<rparr>))
       (shell_print_char info (sh, buffers m, contents m))"
    and "\<And>j. serving d j \<longleftrightarrow> serving (devices m) j \<and> j \<noteq> 1" "\<And>j. masked d j = masked (devices m) j"
proof -
  define d1 where "d1 = key_arrives c (devices m)"
  define d where "d = snd (run_state (pic_signal_EOI pics_bus 33) d1)"
  have bit2: "bit (2 :: u8) j \<longleftrightarrow> j = Suc 0" for j
    using bit_2_iff [of j, where 'a = u8] by (auto simp: exp_eq_zero_iff)
  have serving1: "serving d1 j \<longleftrightarrow> serving (devices m) j \<or> j = 1" for j
    using bit2 [of j] by (simp add: d1_def key_arrives_def serving_def bit_or_iff) blast
  have "accepted d1 1"
    using assms(2) serving1 [of 0] serving1 [of 1] by (simp add: accepted_def lowest_bit_def serving_def)
  moreover have "of_nat (32 + 1) = (33 :: u64)" by simp
  ultimately have eoi: "serving d j \<longleftrightarrow> serving d1 j \<and> j \<noteq> 1" "imr (master d) = imr (master d1)" "imr (slave d) = imr (slave d1)" for j
    using serving_eoi [of d1 1 d] unfolding d_def by simp_all
  have key: "keyboard_irq_handler pics_bus (kb m) d1 = Some (Some (Shell_print_char, info), k, d1)"
    using assms(3)
    by (auto simp: keyboard_irq_handler_def code_bus_def pics_bus_def d1_def key_arrives_def KB_CONTROLLER_DATA_def
        split: if_splits Option.bind_splits)
  have "key_interrupt (c, rsp, cpu) (sh, m) = map_option (\<lambda>(sh, b, fb). (sh, m\<lparr>kb := k, devices := d, buffers := b, contents := fb\<rparr>))
       (shell_print_char info (sh, buffers m, contents m))"
    using assms(1) key by (simp add: isr_handler_def d1_def [symmetric] d_def)
  moreover have "masked d j = masked (devices m) j" for j
    using eoi(2,3) by (simp add: masked_def d1_def key_arrives_def)
  ultimately show ?thesis using that eoi(1) serving1 by blast
qed

lemma handle_scancode_receiver:
  "handle_scancode c kbd = Some (k, info) \<Longrightarrow>
     final_handler k = final_handler kbd \<and> is_keyboard_active k = is_keyboard_active kbd"
proof -
  have "final_handler (release_key key kbd) = final_handler kbd \<and>
      is_keyboard_active (release_key key kbd) = is_keyboard_active kbd" for key
    by (simp add: release_key_def)
  moreover have "final_handler (fst (press_key key kbd)) = final_handler kbd \<and>
      is_keyboard_active (fst (press_key key kbd)) = is_keyboard_active kbd" for key
    by (simp add: press_key_def)
  ultimately show "handle_scancode c kbd = Some (k, info) \<Longrightarrow>
     final_handler k = final_handler kbd \<and> is_keyboard_active k = is_keyboard_active kbd"
    by (auto simp: handle_scancode_def case_prod_unfold Let_def split: if_splits)
qed

lemma irq_calls:
  assumes "keyboard_irq_handler bus kbd d = Some (call, k, d')" "is_keyboard_active kbd \<noteq> 0" "final_handler kbd = Some h"
  shows "\<exists>info. call = Some (h, info) \<and> is_keyboard_active k \<noteq> 0 \<and> final_handler k = Some h"
proof -
  obtain c k1 info where "handle_scancode c kbd = Some (k1, info)"
    "Option.bind (final_handler k1) (\<lambda>h. Some (Some (h, info), k1, snd (run_state (io_inb bus KB_CONTROLLER_DATA) d))) = Some (call, k, d')"
    using assms(1,2) by (cases "bus_in bus KB_CONTROLLER_DATA d") (auto simp: keyboard_irq_handler_def split: Option.bind_splits)
  then show ?thesis using handle_scancode_receiver [of c kbd k1 info] assms(2,3) by auto
qed

section \<open>Properties\<close>


text \<open>Two spaces, a backspace.\<close>

definition sample_keys :: "(u8 \<times> u64 \<times> interrupt_cpu_state_t) list" where
  "sample_keys = map (\<lambda>c. (c, 0x7000, saved_cpu 33)) [0x39, 0xB9, 0x39, 0xB9, 0x0E, 0x8E]"


end
