(* ===== verification/Boot_Header.thy ===== *)
theory Boot_Header
  imports Stivale2
begin

text \<open>
  The header that the kernel leaves for the boot loader (\<open>boot/stivale2_boot.c\<close>): the entry in the section
  \<open>.stivale2hdr\<close>, the stack, and the chain of tags by which the kernel asks for a framebuffer and for five levels of page tables. The
  addresses of the static objects are parameters.
\<close>

section \<open>Structures\<close>

definition STIVALE2_HEADER_TAG_FRAMEBUFFER_ID :: u64 where "STIVALE2_HEADER_TAG_FRAMEBUFFER_ID = 0x3ecc1bc43d0f7971"
definition STIVALE2_HEADER_TAG_5LV_PAGING_ID :: u64 where "STIVALE2_HEADER_TAG_5LV_PAGING_ID = 0x932f477032007e8f"

record stivale2_header =
  entry_point :: u64
  hdr_stack :: u64
  hdr_flags :: u64
  hdr_tags :: u64

record stivale2_header_tag_framebuffer =
  hdr_tag :: stivale2_tag
  hdr_framebuffer_width :: u16
  hdr_framebuffer_height :: u16
  hdr_framebuffer_bpp :: u16

section \<open>The header of the kernel\<close>

definition la57_tag :: stivale2_tag where
  "la57_tag = \<lparr>tag_identifier = STIVALE2_HEADER_TAG_5LV_PAGING_ID, tag_next = 0\<rparr>"

definition framebuffer_hdr_tag :: "u64 \<Rightarrow> stivale2_header_tag_framebuffer" where
  "framebuffer_hdr_tag addr_la57 =
     \<lparr>hdr_tag = \<lparr>tag_identifier = STIVALE2_HEADER_TAG_FRAMEBUFFER_ID, tag_next = addr_la57\<rparr>,
      hdr_framebuffer_width = 0, hdr_framebuffer_height = 0, hdr_framebuffer_bpp = 0\<rparr>"

definition stivale_hdr :: "u64 \<Rightarrow> u64 \<Rightarrow> stivale2_header" where
  "stivale_hdr addr_stack addr_fb =
     \<lparr>entry_point = 0, hdr_stack = addr_stack + 4096, hdr_flags = 2 ^ 1 OR 2 ^ 2, hdr_tags = addr_fb\<rparr>"

text \<open>
  The tags in memory: the boot loader finds the request of a framebuffer and the request of five levels, and the
  chain ends.
\<close>

definition header_memory :: "u64 \<Rightarrow> u64 \<Rightarrow> u64 \<Rightarrow> stivale2_tag option" where
  "header_memory addr_fb addr_la57 = [addr_fb \<mapsto> hdr_tag (framebuffer_hdr_tag addr_la57), addr_la57 \<mapsto> la57_tag]"

theorem header_tags_found:
  assumes "addr_fb \<noteq> NULL" "addr_la57 \<noteq> NULL" "addr_fb \<noteq> addr_la57"
  shows "stivale2_get_tag (header_memory addr_fb addr_la57) (hdr_tags (stivale_hdr addr_stack addr_fb)) ident = Some
    (if ident = STIVALE2_HEADER_TAG_FRAMEBUFFER_ID then addr_fb
     else if ident = STIVALE2_HEADER_TAG_5LV_PAGING_ID then addr_la57 else NULL)"
proof -
  have "tag_chain (header_memory addr_fb addr_la57) (hdr_tags (stivale_hdr addr_stack addr_fb)) [addr_fb, addr_la57]"
    using assms by (simp add: header_memory_def stivale_hdr_def framebuffer_hdr_tag_def la57_tag_def)
  from get_tag_chain [OF this] show ?thesis
    using assms by (simp add: has_tag_def header_memory_def framebuffer_hdr_tag_def la57_tag_def)
qed

end
