(* ===== verification/Spec2Isabelle.thy ===== *)
theory Spec2Isabelle
  imports Kmain Kprintf_Props Framebuffer_Draw Typing Boot_Header
begin

text \<open>
  A verification library for KnutOS, a kernel for 64-bit x86 processors that is started by a
  stivale2 boot loader. The sources are under src/: the kernel in src/kernel, its support
  library in src/libs/libk. The theories follow the layers of the kernel.

  \<^bold>\<open>The machine.\<close> Prelude names the unsigned integers of C by their width
  (\<open>u8\<close>, \<open>u16\<close>, \<open>u32\<close>, \<open>u64\<close>; they wrap) and writes a signed \<open>int\<close> as an
  \<open>int\<close> with the range check \<open>in_int32\<close>. The result \<open>None\<close> of a function stands for undefined
  behaviour (an access outside its object, a signed overflow, a missing
  variable argument, a call through the null pointer) or, in a \<open>partial_function\<close>, for a
  loop that does not end; each theory says which. An error that the code reports is an
  ordinary value: a null pointer, a status, a halted machine.

  \<^bold>\<open>Boot data and memory.\<close>
  \<^item> Stivale2 and Boot_Header (boot/stivale2.h, boot/stivale2_boot.c): the list of tags the boot
    loader passes and the search in it, and the header with the tags that the kernel passes to the boot loader.
  \<^item> Kmem (memory/mem.h): page size, alignment, and the conversions between physical and
    higher-half addresses. They read \<open>cr4\<close>, which is a parameter.
  \<^item> Bitmap (libk/alloc/bitmap.c) and Pmm (memory/pmm.c): the page allocator.
    \<open>pmm_state\<close> holds the globals of pmm.c; \<open>pmm_init\<close> reads the memory map. The invariant
    \<open>pmm_ok\<close> describes the state after initialisation, \<open>free_pages\<close> is the abstract view, and
    the lemmas relate each operation to it.
  \<^item> Slab (memory/slab.c) and Slab_Pool: eleven slabs of objects of 2 to 2048 bytes. The
    invariant is relative to the base addresses of the slabs, the abstract view is the
    multiset of free objects.
  \<^item> Kmalloc (libk/alloc/kmalloc.c): the heap above both, with a metadata word before
    every block.
  \<^item> Store64, Vmm, Vmm_Walk and Vmm_Map (memory/vmm.c): page tables as bytes of physical
    memory. Vmm_Walk defines how the processor walks the tables, for 4 and for 5 levels; the
    theorems say what mapping and unmapping change for that walk. The translation that is
    active while the tables are built is a parameter. Vmm_Init counts the tables that a mapping adds, and Vmm_Space
    proves that \<open>vmm_init\<close> as a whole builds exactly the address space \<open>kernel_page\<close>.
  \<^item> Pmm_Init: the counter of used pages after \<open>pmm_init\<close> is large enough for the allocations that follow.

  \<^bold>\<open>Support library.\<close>
  \<^item> Kmath (libk/math/math.c), Kstring (libk/string/string.c): powers, filling and
    comparing memory.
  \<^item> Kprintf (libk/kprintf/kprintf.c): formatted output, with the output function as a parameter as
    in the code. Kprintf_Text defines the text of a format as a list and proves that
    \<open>_vsnprintf\<close> sends exactly this text through any output function; Kprintf_Props applies this to
    the functions of the kernel; Kprintf_Seq computes texts piece by piece.
  \<^item> Log (libk/debug, libk/stdio, libk/log): the print functions, through their static
    buffers of 5120 bytes, to the serial port and to the screen.
  \<^item> Ssfn (libk/ssfn.h): the console renderer and its decoder of UTF-8, for any font. The lemmas show
    that a glyph is drawn inside the framebuffer.

  \<^bold>\<open>Screen.\<close> The framebuffer is the list of its pixels.
  \<^item> Framebuffer (devices/framebuffer): pixels, lines, circles, scrolling, text. Framebuffer_Draw describes the points that a line and a circle
    paint; Framebuffer_Text shows that printing keeps a well-formed screen (\<open>fb_ok\<close>) whatever the font contains;
    Framebuffer_Cells computes the cursor for fonts and screens of whole cells (\<open>text_ok\<close>), backspaces included.
  \<^item> Console: the framebuffer is a screen in the sense of Log, so log lines and exception reports
    are printed on it without a write outside.
  \<^item> Shell (shell/shell_screen.c): prompt and echo of the keys; \<open>typed\<close> is the length of the text after the prompt, and the
    operations are those of an editor of one line.

  \<^bold>\<open>Devices and interrupts.\<close>
  \<^item> Port_IO (libk/io/io.c): the port instructions on a bus of devices, which is a parameter.
  \<^item> Pic (devices/pic): the interrupt controllers' driver, against a model of the documented
    8259A. Serial (devices/serial): the serial port, with waiting loops that may not end.
    Keyboard (devices/ps2/keyboard): key codes, translation, interrupt handler.
  \<^item> Gdt (gdt) and Idt (interrupts/idt.c): descriptor tables and how the processor reads them.
  \<^item> Cpu (devices/cpu) and Apic (devices/apic): the identification of the processor, and the local and the I/O interrupt
    controllers. The instruction \<open>cpuid\<close> and 32-bit accesses to memory-mapped registers are parameters.
  \<^item> Interrupts (interrupts/interrupts.c, interrupts/isr_asm.s, assembly/definitions.inc): an interrupt from the
    saved registers through the handler to the restored ones. The handler composes Log, Keyboard and Pic.
  \<^item> Typing: the path of a key from its interrupt through \<open>isr_handler\<close> and the keyboard to the shell. Any run of scan codes
    leaves the line that an editor makes of their characters, and every interrupt is acknowledged.

  \<^bold>\<open>Firmware.\<close>
  \<^item> Acpi (firmware/acpi): the tables of the firmware in byte-addressed memory: their checksums, the search
    of a table, and the collection of the records of the interrupt controllers in blocks of the heap.

  \<^bold>\<open>The start.\<close>
  \<^item> Boot_Screen (kernel/logo.c, kernel/boot/boot_screen.c): the two logos and the splash screen.
  \<^item> Start_Up and Kmain (kernel/kernel.c): the state of the whole kernel, and \<open>kmain\<close> as the composition of the initialisations above
    in the order of the source: console, memory and descriptor tables, identification of the processor, firmware and interrupt
    controllers. What the kernel finds is the record \<open>platform\<close>. Start_Up shows what the console prints; Kmain shows for each stage what it
    hands to the next (\<open>memory_up\<close>: address space, slabs and free pages are disjoint; \<open>sees\<close>: what the rest of memory
    looks like through the new address space), and from this that \<open>kmain\<close> reaches its idle loop.

  \<^bold>\<open>Interfaces.\<close> Where one part relies on a contract of another, the contract is
  a locale, interpreted on the model's definitions where they are.
  \<^item> \<open>address_source\<close> (Address_Source): an allocator of equal pieces. Instances are the page
    allocator and a slab; that pieces handed out are distinct is proved once.
  \<^item> \<open>output_sink\<close> (Kprintf_Text): an output function of \<open>_vsnprintf\<close> whose effect on a
    text is the effect of its characters in order. Instances are the output to a buffer, to a
    callback and to nowhere.
  \<^item> \<open>text_screen\<close> (Log): a screen that is in order prints every string of a certain kind and is in order again.
    What the log functions and the exception report need is proved from this; the instance is the framebuffer (Console).
  \<^item> \<open>bit_table\<close> (Bitmap): a table of bits with its two updates. The instance is the bitmap.

  \<^bold>\<open>Bounds.\<close> There is no fuel. Loops with a bound in the source recurse structurally
  or with a termination proof; loops that need not end (searching a tag, waiting for
  a port, \<open>next_pow_of_two\<close>, a line on the screen) are partial functions, and the theorems
  about them state when they return. What a device does is a parameter; liveness
  theorems assume that the port drains (\<open>drains\<close>) and show a port that does. The tables of the kernel's address space take at most 5137
  pages (2052 for each of the two ranges of 4 GiB, 1026 for the range of the code, and the upper levels), the slabs six more; the
  theorem about \<open>kmain\<close> asks for these 5143 pages.

  \<^bold>\<open>Left out.\<close> Log output of the memory managers and of the table search, which changes none of their state.
  The floating-point conversions of kprintf.c and the scalable renderer of ssfn.h, which the kernel does not compile. A framebuffer whose lines are not whole pixels. In
  \<open>kmain\<close>: the interrupts, which are enabled but not taken (all lines are masked at its end), and the identity of the two aliases of a page: once the
  address space is in force, memory is the view through it, in which each alias is an address of its own; the start writes to the slabs through
  one alias only.
  Structures of the boot protocol that the kernel does not use, and empty files (double buffering).
\<close>

end
